(* ===== verification/IPC_Prelude.thy ===== *)
theory IPC_Prelude
  imports Main "HOL-Library.Word"
begin

text \<open>
  Shared vocabulary of the development: machine integers, bytes and strings, the byte order of
  the target, results that carry a fault, and bounds-checked access to byte buffers.  Nothing in
  this theory belongs to a single component of the program.
\<close>

section \<open>Machine integers and bytes\<close>

type_synonym byte = "8 word"
type_synonym u16 = "16 word"
type_synonym u32 = "32 word"
type_synonym u64 = "64 word"
type_synonym buffer = "byte list"

named_theorems res_simps \<open>rewriting of results that may carry a fault\<close>
named_theorems byte_simps \<open>lengths and contents of byte encodings\<close>

text \<open>
  The program copies integers to and from byte buffers with \<open>memcpy\<close>, so what a buffer holds is
  the object representation of the target.  The build files name an x86-64 Linux target, hence
  the least significant byte comes first.
\<close>

definition le_bytes :: "nat \<Rightarrow> 'a::len word \<Rightarrow> byte list" where
  "le_bytes n w = map (\<lambda>i. ucast (drop_bit (8 * i) w)) [0..<n]"

fun le_word :: "byte list \<Rightarrow> 'a::len word" where
  "le_word [] = 0"
| "le_word (b # bs) = or (ucast b) (push_bit 8 (le_word bs))"

lemma length_le_bytes [simp, byte_simps]: "length (le_bytes n w) = n"
  by (simp add: le_bytes_def)

lemma nth_le_bytes: "k < n \<Longrightarrow> le_bytes n w ! k = ucast (drop_bit (8 * k) w)"
  by (simp add: le_bytes_def)

lemma bit_nth_le_bytes:
  "k < n \<Longrightarrow> bit (le_bytes n w ! k) j \<longleftrightarrow> j < 8 \<and> bit w (8 * k + j)"
  by (simp add: nth_le_bytes bit_simps)

lemma bit_le_word:
  "bit (le_word bs :: 'a::len word) i \<longleftrightarrow>
     i < LENGTH('a) \<and> i div 8 < length bs \<and> bit (bs ! (i div 8)) (i mod 8)"
proof (induction bs arbitrary: i)
  case Nil
  then show ?case by simp
next
  case (Cons b bs)
  show ?case
  proof (cases "i < 8")
    case True
    then show ?thesis by (auto simp: bit_simps)
  next
    case False
    then obtain j where j: "i = 8 + j"
      by (metis le_Suc_ex not_le)
    have "\<not> bit b (8 + j)"
      by (simp add: bit_word.rep_eq)
    then show ?thesis
      by (auto simp: j bit_simps Cons.IH div_add_self1 mod_add_self1)
  qed
qed

lemma le_word_le_bytes:
  assumes "LENGTH('a) \<le> 8 * n"
  shows "le_word (le_bytes n w) = (w :: 'a::len word)"
proof (rule bit_word_eqI)
  fix i
  assume i: "i < LENGTH('a)"
  with assms have "i div 8 < n"
    by simp
  then show "bit (le_word (le_bytes n w) :: 'a word) i \<longleftrightarrow> bit w i"
    using i by (simp add: bit_le_word bit_nth_le_bytes)
qed

lemma le_bytes_le_word:
  assumes "length bs = n" and "8 * n \<le> LENGTH('a)"
  shows "le_bytes n (le_word bs :: 'a::len word) = bs"
proof (rule nth_equalityI)
  show "length (le_bytes n (le_word bs :: 'a word)) = length bs"
    using assms(1) by simp
next
  fix k
  assume "k < length (le_bytes n (le_word bs :: 'a word))"
  then have k: "k < n" by simp
  show "le_bytes n (le_word bs :: 'a word) ! k = bs ! k"
  proof (rule bit_word_eqI)
    fix j
    assume "j < LENGTH(8)"
    then have j: "j < 8" by simp
    with k assms(2) have "8 * k + j < LENGTH('a)" by simp
    with j k assms(1) show "bit (le_bytes n (le_word bs :: 'a word) ! k) j \<longleftrightarrow> bit (bs ! k) j"
      by (simp add: bit_nth_le_bytes bit_le_word)
  qed
qed

lemma le_word16_le_bytes [simp]: "le_word (le_bytes 2 w) = (w :: u16)"
  by (rule le_word_le_bytes) simp

lemma le_word32_le_bytes [simp]: "le_word (le_bytes 4 w) = (w :: u32)"
  by (rule le_word_le_bytes) simp

lemma le_word64_le_bytes [simp]: "le_word (le_bytes 8 w) = (w :: u64)"
  by (rule le_word_le_bytes) simp

section \<open>Strings as bytes\<close>

definition byte_of_char :: "char \<Rightarrow> byte" where
  "byte_of_char c = word_of_nat (of_char c)"

definition char_of_byte :: "byte \<Rightarrow> char" where
  "char_of_byte b = char_of (unat b)"

lemma char_of_byte_of_char [simp]: "char_of_byte (byte_of_char c) = c"
proof -
  have "of_char c < (256 :: nat)"
    by (fact nat_of_char_less_256)
  then have "unat (word_of_nat (of_char c) :: byte) = of_char c"
    by (simp add: unat_of_nat take_bit_eq_mod)
  then show ?thesis
    by (simp add: byte_of_char_def char_of_byte_def)
qed

lemma byte_of_char_of_byte [simp]: "byte_of_char (char_of_byte b) = b"
proof -
  have "unat b < 256"
    using unsigned_less [of b, where ?'a = nat] by simp
  then show ?thesis
    by (simp add: byte_of_char_def char_of_byte_def)
qed

lemma char_byte_comp [simp]:
  "char_of_byte \<circ> byte_of_char = id" "byte_of_char \<circ> char_of_byte = id"
  by (simp_all add: fun_eq_iff)

section \<open>Results that may carry a fault\<close>

text \<open>
  A C++ function returns normally, or it leaves the defined behaviour of the language: a failed
  \<open>assert\<close> aborts the process (the build never defines \<open>NDEBUG\<close>), an access outside a buffer is
  undefined behaviour, an exception nobody catches terminates it.  Such an outcome is a value of the model, \<open>Inl\<close> of a fault, so that
  "the code never faults" is a statement one can prove or refute.
\<close>

datatype fault = Assertion_Failed | Out_Of_Bounds | Uncaught_Exception

type_synonym 'a res = "fault + 'a"

definition and_then :: "'a res \<Rightarrow> ('a \<Rightarrow> 'b res) \<Rightarrow> 'b res" where
  "and_then m f = (case m of Inl e \<Rightarrow> Inl e | Inr x \<Rightarrow> f x)"

lemma and_then_Inr [simp, res_simps]: "and_then (Inr x) f = f x"
  by (simp add: and_then_def)

lemma and_then_Inl [simp, res_simps]: "and_then (Inl e) f = Inl e"
  by (simp add: and_then_def)

lemma and_then_eq_Inr [res_simps]: "and_then m f = Inr y \<longleftrightarrow> (\<exists>x. m = Inr x \<and> f x = Inr y)"
  by (simp add: and_then_def split: sum.split)

lemma and_then_eq_Inl [res_simps]:
  "and_then m f = Inl e \<longleftrightarrow> m = Inl e \<or> (\<exists>x. m = Inr x \<and> f x = Inl e)"
  by (auto simp: and_then_def split: sum.split)

text \<open>\<open>assert(P)\<close>, with the rest of the function as its continuation.\<close>

definition assert_then :: "bool \<Rightarrow> 'a res \<Rightarrow> 'a res" where
  "assert_then P m = (if P then m else Inl Assertion_Failed)"

lemma assert_then_simps [simp, res_simps]:
  "assert_then True m = m" "assert_then False m = Inl Assertion_Failed"
  by (simp_all add: assert_then_def)

lemma assert_then_eq_Inr [res_simps]: "assert_then P m = Inr y \<longleftrightarrow> P \<and> m = Inr y"
  by (simp add: assert_then_def)

section \<open>Bounds-checked access to a byte buffer\<close>

text \<open>
  \<open>mem_load buf p n\<close> is what \<open>memcpy(dst, &buf[p], n)\<close> reads, \<open>mem_store buf p bs\<close> the buffer
  after \<open>memcpy(&buf[p], src, n)\<close> for a source holding the \<open>n\<close> bytes \<open>bs\<close>.
\<close>

definition mem_load :: "buffer \<Rightarrow> nat \<Rightarrow> nat \<Rightarrow> byte list res" where
  "mem_load buf p n = (if p + n \<le> length buf then Inr (take n (drop p buf)) else Inl Out_Of_Bounds)"

definition mem_store :: "buffer \<Rightarrow> nat \<Rightarrow> byte list \<Rightarrow> buffer res" where
  "mem_store buf p bs =
     (if p + length bs \<le> length buf
      then Inr (take p buf @ bs @ drop (p + length bs) buf) else Inl Out_Of_Bounds)"

lemma mem_load_ok [res_simps]: "p + n \<le> length buf \<Longrightarrow> mem_load buf p n = Inr (take n (drop p buf))"
  by (simp add: mem_load_def)

lemma mem_store_ok [res_simps]:
  "p + length bs \<le> length buf \<Longrightarrow>
     mem_store buf p bs = Inr (take p buf @ bs @ drop (p + length bs) buf)"
  by (simp add: mem_store_def)

lemma mem_load_eq_Inr:
  "mem_load buf p n = Inr bs \<longleftrightarrow> p + n \<le> length buf \<and> bs = take n (drop p buf)"
  by (auto simp: mem_load_def)

lemma mem_store_eq_Inr:
  "mem_store buf p bs = Inr buf' \<longleftrightarrow>
     p + length bs \<le> length buf \<and> buf' = take p buf @ bs @ drop (p + length bs) buf"
  by (auto simp: mem_store_def)

lemma mem_store_length: "mem_store buf p bs = Inr buf' \<Longrightarrow> length buf' = length buf"
  by (auto simp: mem_store_eq_Inr)

text \<open>Consecutive stores are one store of the concatenation.\<close>

lemma mem_store_append:
  "and_then (mem_store buf p xs) (\<lambda>buf. mem_store buf (p + length xs) ys) =
     mem_store buf p (xs @ ys)"
  by (auto simp: mem_store_def ac_simps)

lemma take_mem_store:
  "mem_store buf p bs = Inr buf' \<Longrightarrow> take (length bs) (drop p buf') = bs"
  by (auto simp: mem_store_eq_Inr)

lemma take_before_mem_store:
  "mem_store buf p bs = Inr buf' \<Longrightarrow> k \<le> p \<Longrightarrow> take k buf' = take k buf"
  by (auto simp: mem_store_eq_Inr)

section \<open>Widening conversions\<close>

lemma unat_u16_less [simp]: "unat (w :: u16) < 65536"
  using unsigned_less [of w, where ?'a = nat] by simp

lemma unat_ucast_u16_u64 [simp]: "unat (ucast (w :: u16) :: u64) = unat w"
proof -
  have "unat w < 2 ^ 64"
    by (rule less_trans [OF unat_u16_less]) simp
  then show ?thesis
    by (simp add: unsigned_ucast_eq take_bit_nat_eq_self)
qed

lemma unat_ucast_u16_u32 [simp]: "unat (ucast (w :: u16) :: u32) = unat w"
proof -
  have "unat w < 2 ^ 32"
    by (rule less_trans [OF unat_u16_less]) simp
  then show ?thesis
    by (simp add: unsigned_ucast_eq take_bit_nat_eq_self)
qed

lemma unat_u32_less: "unat (w :: u32) < 4294967296"
  using unsigned_less [of w, where ?'a = nat] by simp

lemma unat_ucast_u32_u64 [simp]: "unat (ucast (w :: u32) :: u64) = unat w"
proof -
  have "unat w < 2 ^ 64"
    by (rule less_trans [OF unat_u32_less]) simp
  then show ?thesis
    by (simp add: unsigned_ucast_eq take_bit_nat_eq_self)
qed

section \<open>Facts about regular results\<close>

text \<open>A computation that may fault: what holds of its regular results, step by step.\<close>

abbreviation yields :: "'a res \<Rightarrow> ('a \<Rightarrow> bool) \<Rightarrow> bool" where
  "yields m P \<equiv> pred_sum (\<lambda>_. True) P m"

lemma yields_and_then: "yields (and_then m f) P \<longleftrightarrow> (\<forall>x. m = Inr x \<longrightarrow> yields (f x) P)"
  by (cases m) simp_all

lemma yields_assert_then: "yields (assert_then c m) P \<longleftrightarrow> (c \<longrightarrow> yields m P)"
  by (simp add: assert_then_def)

lemmas yields_steps = yields_and_then yields_assert_then

lemma yieldsD: "\<lbrakk>m = Inr x; yields m P\<rbrakk> \<Longrightarrow> P x"
  by simp

end
