(* ===== verification/Data_Objects.thy ===== *)
theory Data_Objects
  imports IPC_Prelude
begin

text \<open>
  The data model of the program: \<open>DataType\<close>, \<open>DataHeader\<close> and the three kinds of
  \<open>IDataObject\<close> (files include/object and src/object), the error enumeration of the handlers,
  and the dispatch \<open>deserialize_data_object\<close> of src/utility.cpp.  Each operation is given as
  the code performs it, field by field through a bounds-checked buffer; \<open>header_bytes\<close> and
  \<open>object_bytes\<close> are the wire format the operations implement.
\<close>

section \<open>Data types and errors\<close>

text \<open>
  \<open>DataType\<close> is an enumeration with the fixed underlying type \<open>uint16_t\<close>; a header copied from
  received bytes can hold any 16-bit value, so the values without an enumerator are kept.
\<close>

datatype data_type = INVALID | PING | JAVA_SYMBOL_LOOKUP | BINARY_DATA | Other_Type u16

fun type_code :: "data_type \<Rightarrow> u16" where
  "type_code INVALID = 0"
| "type_code PING = 1"
| "type_code JAVA_SYMBOL_LOOKUP = 2"
| "type_code BINARY_DATA = 3"
| "type_code (Other_Type w) = w"

definition type_of_code :: "u16 \<Rightarrow> data_type" where
  "type_of_code w =
     (if w = 0 then INVALID else if w = 1 then PING else if w = 2 then JAVA_SYMBOL_LOOKUP
      else if w = 3 then BINARY_DATA else Other_Type w)"

text \<open>A value has one representation: \<open>Other_Type\<close> holds no code that has an enumerator.\<close>

fun canonical_type :: "data_type \<Rightarrow> bool" where
  "canonical_type (Other_Type w) \<longleftrightarrow> w \<notin> {0, 1, 2, 3}"
| "canonical_type _ \<longleftrightarrow> True"

lemma type_of_code_type_code [simp]: "canonical_type t \<Longrightarrow> type_of_code (type_code t) = t"
  by (cases t) (auto simp: type_of_code_def)

lemma type_code_type_of_code [simp]: "type_code (type_of_code w) = w"
  by (simp add: type_of_code_def)

lemma canonical_type_of_code [simp]: "canonical_type (type_of_code w)"
  by (simp add: type_of_code_def)

datatype comm_error =
  CONNECTION_CLOSED | NO_DATA_AVAILABLE | READ_ERROR | INVALID_HEADER | INVALID_DATA | UNKNOWN_DATA

fun error_code :: "comm_error \<Rightarrow> int" where
  "error_code CONNECTION_CLOSED = 0"
| "error_code NO_DATA_AVAILABLE = 1"
| "error_code READ_ERROR = 2"
| "error_code INVALID_HEADER = 3"
| "error_code INVALID_DATA = 4"
| "error_code UNKNOWN_DATA = 5"

section \<open>The message header\<close>

record data_header =
  h_id :: u32
  h_type :: data_type
  h_body_size :: u16
  h_timestamp :: u64

text \<open>
  The object representation of a \<open>DataHeader\<close>: four members at offsets 0, 4, 6 and 8, without
  padding (the code asserts \<open>sizeof(DataHeader) == 16\<close>).
\<close>

definition sizeof_header :: nat where
  "sizeof_header = 16"

definition header_bytes :: "data_header \<Rightarrow> byte list" where
  "header_bytes h =
     le_bytes 4 (h_id h) @ le_bytes 2 (type_code (h_type h)) @
     le_bytes 2 (h_body_size h) @ le_bytes 8 (h_timestamp h)"

definition header_of_bytes :: "byte list \<Rightarrow> data_header" where
  "header_of_bytes bs =
     \<lparr>h_id = le_word (take 4 bs),
      h_type = type_of_code (le_word (take 2 (drop 4 bs))),
      h_body_size = le_word (take 2 (drop 6 bs)),
      h_timestamp = le_word (take 8 (drop 8 bs))\<rparr>"

definition header_is_valid :: "data_header \<Rightarrow> bool" where
  "header_is_valid h \<longleftrightarrow> h_type h \<noteq> INVALID"

definition header_serialize :: "data_header \<Rightarrow> buffer \<Rightarrow> nat \<Rightarrow> u32 \<Rightarrow> (int \<times> buffer) res" where
  "header_serialize h buf p sz =
     (if unat sz < sizeof_header then Inr (- 1, buf)
      else and_then (mem_store buf p (header_bytes h)) (\<lambda>buf. Inr (int sizeof_header, buf)))"

definition header_deserialize :: "buffer \<Rightarrow> nat \<Rightarrow> u32 \<Rightarrow> data_header option res" where
  "header_deserialize buf p sz =
     (if unat sz < sizeof_header then Inr None
      else and_then (mem_load buf p sizeof_header) (\<lambda>bs. Inr (Some (header_of_bytes bs))))"

lemma length_header_bytes [simp, byte_simps]: "length (header_bytes h) = sizeof_header"
  by (simp add: header_bytes_def sizeof_header_def)

lemma header_of_bytes_header_bytes [simp]:
  "canonical_type (h_type h) \<Longrightarrow> header_of_bytes (header_bytes h) = h"
  by (simp add: header_of_bytes_def header_bytes_def)

lemma header_of_bytes_append [simp]:
  "canonical_type (h_type h) \<Longrightarrow> header_of_bytes (header_bytes h @ bs) = h"
  by (simp add: header_of_bytes_def header_bytes_def)

lemma canonical_header_of_bytes [simp]: "canonical_type (h_type (header_of_bytes bs))"
  by (simp add: header_of_bytes_def)

text \<open>Splitting sixteen bytes at the member boundaries loses nothing.\<close>

lemma split_at_members:
  assumes "length bs = 16"
  shows "take 4 bs @ take 2 (drop 4 bs) @ take 2 (drop 6 bs) @ take 8 (drop 8 bs) = bs"
proof -
  have "take 2 (drop 6 bs) @ take 8 (drop 8 bs) = drop 6 bs"
    using assms append_take_drop_id [of 2 "drop 6 bs"] by simp
  moreover have "take 2 (drop 4 bs) @ drop 6 bs = drop 4 bs"
    using append_take_drop_id [of 2 "drop 4 bs"] by simp
  ultimately show ?thesis
    by simp
qed

lemma header_bytes_header_of_bytes [simp]:
  assumes "length bs = sizeof_header"
  shows "header_bytes (header_of_bytes bs) = bs"
proof -
  have len: "length bs = 16"
    using assms by (simp add: sizeof_header_def)
  have "header_bytes (header_of_bytes bs) =
      take 4 bs @ take 2 (drop 4 bs) @ take 2 (drop 6 bs) @ take 8 (drop 8 bs)"
    using len by (simp add: header_bytes_def header_of_bytes_def le_bytes_le_word)
  with split_at_members [OF len] show ?thesis
    by simp
qed

lemma header_serialize_ok:
  "sizeof_header \<le> unat sz \<Longrightarrow> p + sizeof_header \<le> length buf \<Longrightarrow>
     header_serialize h buf p sz =
       Inr (16, take p buf @ header_bytes h @ drop (p + sizeof_header) buf)"
  by (simp add: header_serialize_def mem_store_ok) (simp add: sizeof_header_def)

lemma header_deserialize_ok:
  "sizeof_header \<le> unat sz \<Longrightarrow> p + sizeof_header \<le> length buf \<Longrightarrow>
     header_deserialize buf p sz =
       Inr (Some (header_of_bytes (take sizeof_header (drop p buf))))"
  by (simp add: header_deserialize_def mem_load_ok)

section \<open>The data objects\<close>

record java_symbol =
  js_address :: u64
  js_length :: u32
  js_symbol :: string

record binary_data =
  bd_data :: "byte list"

text \<open>\<open>DataObject\<close> is \<open>std::variant<Ping, JavaSymbol, BinaryData>\<close>; \<open>Ping\<close> has no members.\<close>

datatype data_object = Ping | JavaSymbol java_symbol | BinaryData binary_data

fun get_type :: "data_object \<Rightarrow> data_type" where
  "get_type Ping = PING"
| "get_type (JavaSymbol _) = JAVA_SYMBOL_LOOKUP"
| "get_type (BinaryData _) = BINARY_DATA"

text \<open>
  \<open>static_cast<int>\<close> of a \<open>size_t\<close>, and the conversion of a \<open>size_t\<close> to \<open>uint32_t\<close>.  A \<open>size_t\<close> that
  counts bytes in memory never wraps, so it is a \<open>nat\<close> here.
\<close>

definition int_of_size :: "nat \<Rightarrow> int" where
  "int_of_size n = sint (word_of_nat n :: u32)"

definition u32_of_size :: "nat \<Rightarrow> u32" where
  "u32_of_size n = word_of_nat n"

lemma int_of_size_small [simp]: "n < 2 ^ 31 \<Longrightarrow> int_of_size n = int n"
  by (simp add: int_of_size_def sint_uint unsigned_of_nat signed_take_bit_int_eq_self
      take_bit_nat_eq_self)

lemma unat_u32_of_size [simp]: "n < 2 ^ 32 \<Longrightarrow> unat (u32_of_size n) = n"
  by (simp add: u32_of_size_def unat_of_nat take_bit_nat_eq_self)

subsection \<open>Serialization\<close>

definition ping_serialize :: "buffer \<Rightarrow> nat \<Rightarrow> u32 \<Rightarrow> (int \<times> buffer) res" where
  "ping_serialize buf p sz = Inr (0, buf)"

definition java_serialize :: "java_symbol \<Rightarrow> buffer \<Rightarrow> nat \<Rightarrow> u32 \<Rightarrow> (int \<times> buffer) res" where
  "java_serialize js buf p sz =
     (let header_size = 8 + 4 + 4;
          obj_size = header_size + length (js_symbol js)
      in if obj_size > unat sz then Inr (- 1, buf)
      else
        and_then (mem_store buf p (le_bytes 8 (js_address js))) (\<lambda>buf.
        and_then (mem_store buf (p + 8) (le_bytes 4 (js_length js))) (\<lambda>buf.
        let len = u32_of_size (length (js_symbol js)) in
        and_then (mem_store buf (p + 12) (le_bytes 4 len)) (\<lambda>buf.
        and_then (mem_load (map byte_of_char (js_symbol js)) 0 (unat len)) (\<lambda>chars.
        and_then (mem_store buf (p + 16) chars) (\<lambda>buf.
        Inr (int_of_size obj_size, buf)))))))"

definition binary_serialize :: "binary_data \<Rightarrow> buffer \<Rightarrow> nat \<Rightarrow> u32 \<Rightarrow> (int \<times> buffer) res" where
  "binary_serialize bd buf p sz =
     (let total_size = 4 + length (bd_data bd)
      in if total_size > unat sz then Inr (- 1, buf)
      else
        let len = u32_of_size (length (bd_data bd)) in
        and_then (mem_store buf p (le_bytes 4 len)) (\<lambda>buf.
        and_then (mem_load (bd_data bd) 0 (unat len)) (\<lambda>data.
        and_then (mem_store buf (p + 4) data) (\<lambda>buf.
        Inr (int_of_size total_size, buf)))))"

text \<open>The virtual call \<open>obj.serialize(buffer, size)\<close>.\<close>

fun obj_serialize :: "data_object \<Rightarrow> buffer \<Rightarrow> nat \<Rightarrow> u32 \<Rightarrow> (int \<times> buffer) res" where
  "obj_serialize Ping buf p sz = ping_serialize buf p sz"
| "obj_serialize (JavaSymbol js) buf p sz = java_serialize js buf p sz"
| "obj_serialize (BinaryData bd) buf p sz = binary_serialize bd buf p sz"

subsection \<open>Deserialization\<close>

definition ping_deserialize :: "buffer \<Rightarrow> nat \<Rightarrow> u32 \<Rightarrow> data_object option res" where
  "ping_deserialize buf p sz = Inr (Some Ping)"

definition java_deserialize :: "buffer \<Rightarrow> nat \<Rightarrow> u32 \<Rightarrow> java_symbol option res" where
  "java_deserialize buf p sz =
     (let header_size = 8 + 4 + 4
      in if unat sz < header_size then Inr None
      else
        and_then (mem_load buf p 8) (\<lambda>address.
        and_then (mem_load buf (p + 8) 4) (\<lambda>len.
        and_then (mem_load buf (p + 12) 4) (\<lambda>slen.
        let address = le_word address; len = le_word len; symbol_length = le_word slen :: u32
        in if unat sz < header_size + unat symbol_length then Inr None
        else if symbol_length = 0
        then Inr (Some \<lparr>js_address = address, js_length = len, js_symbol = []\<rparr>)
        else
          and_then (mem_load buf (p + 16) (unat symbol_length)) (\<lambda>chars.
          Inr (Some \<lparr>js_address = address, js_length = len, js_symbol = map char_of_byte chars\<rparr>))))))"

definition binary_deserialize :: "buffer \<Rightarrow> nat \<Rightarrow> u32 \<Rightarrow> binary_data option res" where
  "binary_deserialize buf p sz =
     (let header_size = 4
      in if unat sz < header_size then Inr None
      else
        and_then (mem_load buf p 4) (\<lambda>len.
        let len = le_word len :: u32
        in if unat sz < header_size + unat len then Inr None
        else if len = 0 then Inr (Some \<lparr>bd_data = []\<rparr>)
        else
          and_then (mem_load buf (p + 4) (unat len)) (\<lambda>data.
          Inr (Some \<lparr>bd_data = data\<rparr>))))"

definition deserialize_data_object ::
  "data_type \<Rightarrow> buffer \<Rightarrow> nat \<Rightarrow> u32 \<Rightarrow> (comm_error + data_object) res" where
  "deserialize_data_object t buf p sz =
     (case t of
        INVALID \<Rightarrow> Inr (Inl INVALID_DATA)
      | PING \<Rightarrow>
          and_then (ping_deserialize buf p sz) (\<lambda>data.
          Inr (case data of None \<Rightarrow> Inl INVALID_DATA | Some x \<Rightarrow> Inr x))
      | JAVA_SYMBOL_LOOKUP \<Rightarrow>
          and_then (java_deserialize buf p sz) (\<lambda>data.
          Inr (case data of None \<Rightarrow> Inl INVALID_DATA | Some x \<Rightarrow> Inr (JavaSymbol x)))
      | BINARY_DATA \<Rightarrow>
          and_then (binary_deserialize buf p sz) (\<lambda>data.
          Inr (case data of None \<Rightarrow> Inl INVALID_DATA | Some x \<Rightarrow> Inr (BinaryData x)))
      | Other_Type _ \<Rightarrow> Inr (Inl UNKNOWN_DATA))"

section \<open>The wire format\<close>

text \<open>
  What the operations above implement: \<open>object_bytes\<close> is the encoding of an object, \<open>decode_object\<close>
  reads one back from the bytes of a message body.  Both are functions of byte lists, without
  buffers, offsets or bounds.
\<close>

fun object_bytes :: "data_object \<Rightarrow> byte list" where
  "object_bytes Ping = []"
| "object_bytes (JavaSymbol js) =
     le_bytes 8 (js_address js) @ le_bytes 4 (js_length js) @
     le_bytes 4 (u32_of_size (length (js_symbol js))) @ map byte_of_char (js_symbol js)"
| "object_bytes (BinaryData bd) =
     le_bytes 4 (u32_of_size (length (bd_data bd))) @ bd_data bd"

definition decode_java :: "byte list \<Rightarrow> java_symbol option" where
  "decode_java bs =
     (if length bs < 16 then None
      else let symbol_length = unat (le_word (take 4 (drop 12 bs)) :: u32)
      in if length bs < 16 + symbol_length then None
      else Some \<lparr>js_address = le_word (take 8 bs), js_length = le_word (take 4 (drop 8 bs)),
                 js_symbol = map char_of_byte (take symbol_length (drop 16 bs))\<rparr>)"

definition decode_binary :: "byte list \<Rightarrow> binary_data option" where
  "decode_binary bs =
     (if length bs < 4 then None
      else let len = unat (le_word (take 4 bs) :: u32)
      in if length bs < 4 + len then None else Some \<lparr>bd_data = take len (drop 4 bs)\<rparr>)"

fun decode_object :: "data_type \<Rightarrow> byte list \<Rightarrow> comm_error + data_object" where
  "decode_object INVALID bs = Inl INVALID_DATA"
| "decode_object PING bs = Inr Ping"
| "decode_object JAVA_SYMBOL_LOOKUP bs =
     (case decode_java bs of None \<Rightarrow> Inl INVALID_DATA | Some x \<Rightarrow> Inr (JavaSymbol x))"
| "decode_object BINARY_DATA bs =
     (case decode_binary bs of None \<Rightarrow> Inl INVALID_DATA | Some x \<Rightarrow> Inr (BinaryData x))"
| "decode_object (Other_Type _) bs = Inl UNKNOWN_DATA"

definition region :: "buffer \<Rightarrow> nat \<Rightarrow> u32 \<Rightarrow> byte list" where
  "region buf p sz = take (unat sz) (drop p buf)"

lemma length_region [simp, byte_simps]:
  "p + unat sz \<le> length buf \<Longrightarrow> length (region buf p sz) = unat sz"
  by (simp add: region_def)

subsection \<open>Serialization writes the wire format\<close>

lemma java_serialize_bytes:
  "java_serialize js buf p sz =
     (if length (object_bytes (JavaSymbol js)) > unat sz then Inr (- 1, buf)
      else and_then (mem_store buf p (object_bytes (JavaSymbol js)))
        (\<lambda>buf. Inr (int_of_size (length (object_bytes (JavaSymbol js))), buf)))"
proof (cases "16 + length (js_symbol js) > unat sz")
  case True
  then show ?thesis
    by (simp add: java_serialize_def)
next
  case False
  then have "length (js_symbol js) < 2 ^ 32"
    using unsigned_less [of sz, where ?'a = nat] by simp
  with False show ?thesis
    by (auto simp: java_serialize_def mem_load_def mem_store_def Let_def ac_simps and_then_def)
qed

lemma binary_serialize_bytes:
  "binary_serialize bd buf p sz =
     (if length (object_bytes (BinaryData bd)) > unat sz then Inr (- 1, buf)
      else and_then (mem_store buf p (object_bytes (BinaryData bd)))
        (\<lambda>buf. Inr (int_of_size (length (object_bytes (BinaryData bd))), buf)))"
proof (cases "4 + length (bd_data bd) > unat sz")
  case True
  then show ?thesis
    by (simp add: binary_serialize_def)
next
  case False
  then have "length (bd_data bd) < 2 ^ 32"
    using unsigned_less [of sz, where ?'a = nat] by simp
  with False show ?thesis
    by (auto simp: binary_serialize_def mem_load_def mem_store_def Let_def ac_simps and_then_def)
qed

lemma obj_serialize_bytes:
  assumes "p \<le> length buf"
  shows "obj_serialize obj buf p sz =
     (if length (object_bytes obj) > unat sz then Inr (- 1, buf)
      else and_then (mem_store buf p (object_bytes obj))
        (\<lambda>buf. Inr (int_of_size (length (object_bytes obj)), buf)))"
  using assms
  by (cases obj)
    (simp_all add: java_serialize_bytes binary_serialize_bytes ping_serialize_def mem_store_ok
      del: object_bytes.simps(2,3))

lemma obj_serialize_fits:
  assumes "length (object_bytes obj) \<le> unat sz" and "p + unat sz \<le> length buf"
    and "unat sz < 2 ^ 31"
  shows "obj_serialize obj buf p sz =
     Inr (int (length (object_bytes obj)),
          take p buf @ object_bytes obj @ drop (p + length (object_bytes obj)) buf)"
  using assms by (simp add: obj_serialize_bytes mem_store_ok)

lemma obj_serialize_too_long:
  assumes "unat sz < length (object_bytes obj)" and "p \<le> length buf"
  shows "obj_serialize obj buf p sz = Inr (- 1, buf)"
  using assms by (simp add: obj_serialize_bytes)

subsection \<open>Deserialization reads the wire format\<close>

lemma take_region: "n \<le> unat sz \<Longrightarrow> take n (region buf p sz) = take n (drop p buf)"
  by (simp add: region_def min_absorb1)

lemma take_drop_region:
  "k + n \<le> unat sz \<Longrightarrow> take n (drop k (region buf p sz)) = take n (drop (p + k) buf)"
  by (simp add: region_def drop_take min_absorb1 add.commute)

lemma java_deserialize_bytes:
  assumes "p + unat sz \<le> length buf"
  shows "java_deserialize buf p sz = Inr (decode_java (region buf p sz))"
proof (cases "unat sz < 16")
  case True
  with assms show ?thesis
    by (simp add: java_deserialize_def decode_java_def)
next
  case False
  define sl :: u32 where "sl = le_word (take 4 (drop (p + 12) buf))"
  show ?thesis
  proof (cases "unat sz < 16 + unat sl")
    case True
    with False assms show ?thesis
      by (simp add: java_deserialize_def decode_java_def mem_load_ok take_drop_region sl_def)
  next
    case fits: False
    with False assms show ?thesis
      by (auto simp: java_deserialize_def decode_java_def mem_load_ok take_region take_drop_region
          Let_def sl_def)
  qed
qed

lemma binary_deserialize_bytes:
  assumes "p + unat sz \<le> length buf"
  shows "binary_deserialize buf p sz = Inr (decode_binary (region buf p sz))"
proof (cases "unat sz < 4")
  case True
  with assms show ?thesis
    by (simp add: binary_deserialize_def decode_binary_def)
next
  case False
  define l :: u32 where "l = le_word (take 4 (drop p buf))"
  show ?thesis
  proof (cases "unat sz < 4 + unat l")
    case True
    with False assms show ?thesis
      by (simp add: binary_deserialize_def decode_binary_def mem_load_ok take_region l_def)
  next
    case fits: False
    with False assms show ?thesis
      by (auto simp: binary_deserialize_def decode_binary_def mem_load_ok take_region
          take_drop_region Let_def l_def)
  qed
qed

lemma deserialize_data_object_bytes:
  assumes "p + unat sz \<le> length buf"
  shows "deserialize_data_object t buf p sz = Inr (decode_object t (region buf p sz))"
  using assms
  by (cases t)
    (simp_all add: deserialize_data_object_def ping_deserialize_def java_deserialize_bytes
      binary_deserialize_bytes split: option.split)

subsection \<open>Encoding and decoding are inverse\<close>

lemma decode_object_bytes_append:
  assumes "length (object_bytes obj) < 2 ^ 32"
  shows "decode_object (get_type obj) (object_bytes obj @ rest) = Inr obj"
proof (cases obj)
  case Ping
  then show ?thesis by simp
next
  case (JavaSymbol js)
  with assms have "length (js_symbol js) < 2 ^ 32" by simp
  then show ?thesis
    by (simp add: JavaSymbol decode_java_def Let_def)
next
  case (BinaryData bd)
  with assms have "length (bd_data bd) < 2 ^ 32" by simp
  then show ?thesis
    by (simp add: BinaryData decode_binary_def Let_def)
qed

lemma decode_object_bytes [simp]:
  "length (object_bytes obj) < 2 ^ 32 \<Longrightarrow> decode_object (get_type obj) (object_bytes obj) = Inr obj"
  using decode_object_bytes_append [of obj "[]"] by simp

lemma decode_object_type: "decode_object t bs = Inr obj \<Longrightarrow> get_type obj = t"
  by (cases t) (auto split: option.splits)

lemma le_bytes_le_word_take:
  assumes "k + n \<le> length bs" and "8 * n \<le> LENGTH('a)"
  shows "le_bytes n (le_word (take n (drop k bs)) :: 'a::len word) = take n (drop k bs)"
  using assms by (intro le_bytes_le_word) simp_all

lemma decode_java_prefix:
  assumes "decode_java bs = Some js"
  shows "\<exists>rest. bs = object_bytes (JavaSymbol js) @ rest"
proof -
  define sl :: u32 where "sl = le_word (take 4 (drop 12 bs))"
  from assms have len: "16 + unat sl \<le> length bs"
    and js: "js = \<lparr>js_address = le_word (take 8 bs), js_length = le_word (take 4 (drop 8 bs)),
                 js_symbol = map char_of_byte (take (unat sl) (drop 16 bs))\<rparr>"
    by (auto simp: decode_java_def Let_def sl_def split: if_splits)
  have "u32_of_size (length (js_symbol js)) = sl"
    using len by (simp add: js u32_of_size_def min_absorb2)
  then have "object_bytes (JavaSymbol js) =
      take 8 bs @ take 4 (drop 8 bs) @ take 4 (drop 12 bs) @ take (unat sl) (drop 16 bs)"
    using len le_bytes_le_word_take [of 0 8 bs, where ?'a = 64]
      le_bytes_le_word_take [of 8 4 bs, where ?'a = 32]
      le_bytes_le_word_take [of 12 4 bs, where ?'a = 32]
    by (simp add: js sl_def)
  also have "\<dots> = take (16 + unat sl) bs"
    using take_add [of 8 4 bs] take_add [of 12 4 bs] take_add [of 16 "unat sl" bs] by simp
  finally have "bs = object_bytes (JavaSymbol js) @ drop (16 + unat sl) bs"
    by simp
  then show ?thesis ..
qed

lemma decode_binary_prefix:
  assumes "decode_binary bs = Some bd"
  shows "\<exists>rest. bs = object_bytes (BinaryData bd) @ rest"
proof -
  define l :: u32 where "l = le_word (take 4 bs)"
  from assms have len: "4 + unat l \<le> length bs"
    and bd: "bd = \<lparr>bd_data = take (unat l) (drop 4 bs)\<rparr>"
    by (auto simp: decode_binary_def Let_def l_def split: if_splits)
  have "u32_of_size (length (bd_data bd)) = l"
    using len by (simp add: bd u32_of_size_def min_absorb2)
  then have "object_bytes (BinaryData bd) = take 4 bs @ take (unat l) (drop 4 bs)"
    using len le_bytes_le_word_take [of 0 4 bs, where ?'a = 32] by (simp add: bd l_def)
  also have "\<dots> = take (4 + unat l) bs"
    by (rule take_add [symmetric])
  finally have "bs = object_bytes (BinaryData bd) @ drop (4 + unat l) bs"
    by simp
  then show ?thesis ..
qed

lemma decode_object_prefix:
  assumes "decode_object t bs = Inr obj"
  shows "\<exists>rest. bs = object_bytes obj @ rest"
  using assms
  by (cases t) (auto split: option.splits dest: decode_java_prefix decode_binary_prefix
      simp del: object_bytes.simps(2,3))

lemma decode_object_errors:
  "decode_object t bs = Inl e \<Longrightarrow> e = INVALID_DATA \<or> e = UNKNOWN_DATA"
  by (cases t) (auto split: option.splits)

section \<open>Properties\<close>

text \<open>C20. Serialization and deserialization of every kind of object are inverse: an object that fits
  the given space is written, its size is returned, and deserializing that many bytes with the
  object's type gives the object back, wherever in the buffer it lies.\<close>

theorem object_roundtrip:
  assumes "length (object_bytes obj) \<le> unat sz" and "p + unat sz \<le> length buf"
    and "unat sz < 2 ^ 31"
  shows "\<exists>n buf'. obj_serialize obj buf p sz = Inr (int n, buf') \<and> length buf' = length buf \<and>
    deserialize_data_object (get_type obj) buf' p (u32_of_size n) = Inr (Inr obj)"
proof -
  let ?n = "length (object_bytes obj)"
  let ?buf = "take p buf @ object_bytes obj @ drop (p + ?n) buf"
  have n: "?n < 2 ^ 32" and len: "length ?buf = length buf"
    using assms by simp_all
  have "region ?buf p (u32_of_size ?n) = object_bytes obj"
    using n assms(1,2) by (simp add: region_def min_absorb2)
  then have "deserialize_data_object (get_type obj) ?buf p (u32_of_size ?n) = Inr (Inr obj)"
    using n assms(1,2) by (subst deserialize_data_object_bytes) simp_all
  with obj_serialize_fits [OF assms] len show ?thesis
    by blast
qed

theorem object_roundtrip_witness:
  "\<exists>n buf'. obj_serialize (BinaryData \<lparr>bd_data = [1, 2, 3]\<rparr>) (replicate 32 0) 16 16 =
      Inr (int n, buf') \<and> length buf' = length (replicate 32 (0 :: byte)) \<and>
    deserialize_data_object (get_type (BinaryData \<lparr>bd_data = [1, 2, 3]\<rparr>)) buf' 16 (u32_of_size n) =
      Inr (Inr (BinaryData \<lparr>bd_data = [1, 2, 3]\<rparr>))"
  by (rule object_roundtrip) simp_all

text \<open>C25. Serialization is safe and exact: in a buffer that has the space it is told, it either
  returns -1 and changes nothing, precisely when the encoding does not fit, or writes the encoding of
  the object at the given position, changes no other byte, and returns its length.\<close>

theorem object_serialize_exact:
  assumes "p + unat sz \<le> length buf" and "unat sz < 2 ^ 31"
  shows "obj_serialize obj buf p sz =
    (if length (object_bytes obj) \<le> unat sz
     then Inr (int (length (object_bytes obj)),
       take p buf @ object_bytes obj @ drop (p + length (object_bytes obj)) buf)
     else Inr (- 1, buf))"
  using assms by (simp add: obj_serialize_fits obj_serialize_too_long)

theorem object_serialize_exact_witness:
  "obj_serialize (JavaSymbol \<lparr>js_address = 4096, js_length = 64, js_symbol = ''foo''\<rparr>)
     (replicate 24 0) 4 18 = Inr (- 1, replicate 24 0)"
  by (subst object_serialize_exact) simp_all

text \<open>C24. Deserialization of arbitrary bytes never reads outside the bytes it is given and depends on
  nothing else; it gives an object only if the bytes start with the encoding of that object and the
  object has the requested type, and otherwise reports invalid or unknown data.\<close>

theorem object_deserialize_safe:
  assumes "p + unat sz \<le> length buf"
  shows "\<exists>r. deserialize_data_object t buf p sz = Inr r \<and> r = decode_object t (region buf p sz) \<and>
    (case r of
       Inr obj \<Rightarrow> get_type obj = t \<and> (\<exists>rest. region buf p sz = object_bytes obj @ rest)
     | Inl e \<Rightarrow> e \<in> {INVALID_DATA, UNKNOWN_DATA})"
  using assms decode_object_type [of t "region buf p sz"] decode_object_prefix [of t "region buf p sz"]
    decode_object_errors [of t "region buf p sz"]
  by (auto simp: deserialize_data_object_bytes split: sum.split)

theorem object_deserialize_safe_witness:
  "\<exists>r. deserialize_data_object BINARY_DATA [5, 0, 0, 0, 9, 9] 0 6 = Inr r \<and>
    r = decode_object BINARY_DATA (region [5, 0, 0, 0, 9, 9] 0 6) \<and>
    (case r of
       Inr obj \<Rightarrow> get_type obj = BINARY_DATA \<and>
         (\<exists>rest. region [5, 0, 0, 0, 9, 9] 0 6 = object_bytes obj @ rest)
     | Inl e \<Rightarrow> e \<in> {INVALID_DATA, UNKNOWN_DATA})"
  by (rule object_deserialize_safe) simp

text \<open>The header survives its trip through the buffer in both directions: a header serialized at any
  position is deserialized to itself (its type has one representation in the model), and any sixteen
  bytes, deserialized and serialized again in their place, leave the buffer as it was.\<close>

lemma header_roundtrip:
  assumes "16 \<le> unat sz" and "p + 16 \<le> length buf"
  shows "(canonical_type (h_type h) \<longrightarrow> (\<exists>buf'. header_serialize h buf p sz = Inr (16, buf') \<and>
      length buf' = length buf \<and> header_deserialize buf' p sz = Inr (Some h))) \<and>
    (\<exists>h'. header_deserialize buf p sz = Inr (Some h') \<and> header_serialize h' buf p sz = Inr (16, buf))"
proof (intro conjI impI)
  let ?buf = "take p buf @ header_bytes h @ drop (p + 16) buf"
  assume "canonical_type (h_type h)"
  then have "header_serialize h buf p sz = Inr (16, ?buf)" "length ?buf = length buf"
    "header_deserialize ?buf p sz = Inr (Some h)"
    using assms
    by (simp_all add: header_serialize_ok header_deserialize_ok sizeof_header_def min_absorb2)
  then show "\<exists>buf'. header_serialize h buf p sz = Inr (16, buf') \<and>
      length buf' = length buf \<and> header_deserialize buf' p sz = Inr (Some h)"
    by blast
next
  have "header_bytes (header_of_bytes (take 16 (drop p buf))) = take 16 (drop p buf)"
    using assms(2) by (intro header_bytes_header_of_bytes) (simp add: sizeof_header_def)
  moreover have "take p buf @ take 16 (drop p buf) @ drop (p + 16) buf = buf"
    by (metis append_take_drop_id drop_drop add.commute)
  ultimately show "\<exists>h'. header_deserialize buf p sz = Inr (Some h') \<and>
      header_serialize h' buf p sz = Inr (16, buf)"
    using assms by (simp add: header_serialize_ok header_deserialize_ok sizeof_header_def)
qed

end
