(* ===== verification/Comm_Interface.thy ===== *)
theory Comm_Interface
  imports Data_Objects
begin

text \<open>
  What all handlers share: the constants of \<open>ICommunicationHandler\<close>, the interface itself as a
  record of operations, the calls of src/utility.cpp that go to the operating system, and the
  framing of a message (header followed by body) in the handler's buffer.  The locale
  \<open>comm_handler\<close> is the contract of the interface; every handler theory interprets it on its own
  definitions, and the benchmarks rely on nothing else.
\<close>

section \<open>Constants and results\<close>

definition BUFFER_SIZE :: nat where
  "BUFFER_SIZE = 512 + sizeof_header"

definition WAIT_TIME :: int where
  "WAIT_TIME = 5000"

definition body_capacity :: nat where
  "body_capacity = BUFFER_SIZE - sizeof_header"

lemma BUFFER_SIZE_val [simp]: "BUFFER_SIZE = 528"
  by (simp add: BUFFER_SIZE_def sizeof_header_def)

lemma sizeof_header_val [simp]: "sizeof_header = 16"
  by (simp add: sizeof_header_def)

lemma body_capacity_val [simp]: "body_capacity = 512"
  by (simp add: body_capacity_def)

text \<open>\<open>std::variant<std::tuple<DataHeader, DataObject>, CommunicationError>\<close>, the error as \<open>Inl\<close>.\<close>

type_synonym read_result = "comm_error + (data_header \<times> data_object)"

fun of_body :: "data_header \<Rightarrow> comm_error + data_object \<Rightarrow> read_result" where
  "of_body h (Inr obj) = Inr (h, obj)"
| "of_body h (Inl e) = Inl e"

text \<open>The result of a read is never an invalid header, and its object is of the header's type.\<close>

definition typed_result :: "read_result \<Rightarrow> bool" where
  "typed_result r \<longleftrightarrow> (case r of Inl e \<Rightarrow> e \<noteq> INVALID_HEADER | Inr (h, obj) \<Rightarrow> get_type obj = h_type h)"

lemma typed_result_simps [simp]:
  "typed_result (Inl e) \<longleftrightarrow> e \<noteq> INVALID_HEADER"
  "typed_result (Inr (h, obj)) \<longleftrightarrow> get_type obj = h_type h"
  by (simp_all add: typed_result_def)

section \<open>The interface\<close>

text \<open>
  The virtual methods of \<open>ICommunicationHandler\<close> over a state \<open>'h\<close>, which is the handler object
  together with the outside world it acts on.  \<open>write\<close> and \<open>read\<close> can fault; \<open>read\<close> is \<open>None\<close>
  where it does not return.
\<close>

record 'h comm_iface =
  c_open :: "'h \<Rightarrow> bool \<times> 'h"
  c_close :: "'h \<Rightarrow> bool \<times> 'h"
  c_is_open :: "'h \<Rightarrow> bool"
  c_await_data :: "'h \<Rightarrow> bool \<times> 'h"
  c_has_data :: "'h \<Rightarrow> bool \<times> 'h"
  c_write :: "data_object \<Rightarrow> 'h \<Rightarrow> (bool \<times> 'h) res"
  c_read :: "'h \<Rightarrow> (read_result \<times> 'h) res option"

locale comm_handler =
  fixes I :: "'h comm_iface"
    and invar :: "'h \<Rightarrow> bool"
    and last_seq :: "'h \<Rightarrow> u32"
    and capacity :: nat
  assumes open_law: "\<lbrakk>invar h; c_open I h = (b, h')\<rbrakk> \<Longrightarrow>
      invar h' \<and> c_is_open I h' = b \<and> last_seq h' = last_seq h"
    and open_again: "\<lbrakk>invar h; c_is_open I h\<rbrakk> \<Longrightarrow> c_open I h = (True, h)"
    and close_law: "\<lbrakk>invar h; c_close I h = (b, h')\<rbrakk> \<Longrightarrow>
      invar h' \<and> \<not> c_is_open I h' \<and> b = c_is_open I h \<and> last_seq h' = last_seq h"
    and close_closed: "\<lbrakk>invar h; \<not> c_is_open I h\<rbrakk> \<Longrightarrow> c_close I h = (False, h)"
    and await_law: "\<lbrakk>invar h; c_await_data I h = (b, h')\<rbrakk> \<Longrightarrow>
      invar h' \<and> c_is_open I h' = c_is_open I h \<and> last_seq h' = last_seq h"
    and await_closed: "\<lbrakk>invar h; \<not> c_is_open I h\<rbrakk> \<Longrightarrow> c_await_data I h = (False, h)"
    and has_data_law: "\<lbrakk>invar h; c_has_data I h = (b, h')\<rbrakk> \<Longrightarrow>
      invar h' \<and> c_is_open I h' = c_is_open I h \<and> last_seq h' = last_seq h"
    and write_law: "invar h \<Longrightarrow> \<exists>b h'. c_write I obj h = Inr (b, h') \<and>
      invar h' \<and> c_is_open I h' = c_is_open I h \<and>
      (b \<longrightarrow> c_is_open I h \<and> length (object_bytes obj) \<le> capacity \<and>
            last_seq h' = last_seq h + 1)"
    and write_closed: "\<lbrakk>invar h; \<not> c_is_open I h\<rbrakk> \<Longrightarrow> c_write I obj h = Inr (False, h)"
    and read_law: "\<lbrakk>invar h; c_read I h = Some (Inr (r, h'))\<rbrakk> \<Longrightarrow>
      invar h' \<and> c_is_open I h' = c_is_open I h \<and> last_seq h' = last_seq h \<and>
      typed_result r"
    and read_closed: "\<lbrakk>invar h; \<not> c_is_open I h\<rbrakk> \<Longrightarrow>
      c_read I h = Some (Inr (Inl CONNECTION_CLOSED, h))"
begin

lemma write_cases:
  assumes "invar h"
  obtains (sent) h' where "c_write I obj h = Inr (True, h')" "invar h'" "c_is_open I h'"
      "last_seq h' = last_seq h + 1"
  | (failed) h' where "c_write I obj h = Inr (False, h')" "invar h'"
      "c_is_open I h' = c_is_open I h"
  using write_law [OF assms, of obj] that by (metis (full_types))

end

section \<open>Operating system calls used by every handler\<close>

text \<open>
  The operating system is a parameter: a record of its calls over a type \<open>'w\<close> of worlds, extended
  by each handler with the calls that handler makes.  A call takes the world to its result and
  the next world; nothing is assumed about it except where a theorem names a law.  Results that
  the code ignores are not returned.
\<close>

datatype poll_event = POLLIN

record pollfd =
  pfd_fd :: int
  pfd_events :: "poll_event list"

datatype errno = EAGAIN | ETIMEDOUT | Other_Errno int

text \<open>A transferring call (\<open>read\<close>, \<open>recv\<close>, ...) delivers bytes, or fails with \<open>errno\<close>.\<close>

datatype io_result = Transferred "byte list" | Failed errno

datatype open_flag = O_RDWR | O_CREAT | O_NONBLOCK

text \<open>The mode \<open>0660\<close> that every created object gets.\<close>

definition mode_0660 :: nat where
  "mode_0660 = 6 * 64 + 6 * 8"

record 'w os_base =
  os_clock :: "'w \<Rightarrow> u64 \<times> 'w"
  os_poll :: "pollfd list \<Rightarrow> int \<Rightarrow> 'w \<Rightarrow> int \<times> 'w"

definition get_timestamp :: "('w, 'z) os_base_scheme \<Rightarrow> 'w \<Rightarrow> u64 \<times> 'w" where
  "get_timestamp K w = os_clock K w"

definition poll :: "('w, 'z) os_base_scheme \<Rightarrow> int \<Rightarrow> int \<Rightarrow> 'w \<Rightarrow> int \<times> 'w" where
  "poll K fd timeout w =
     (let pfd = \<lparr>pfd_fd = fd, pfd_events = [POLLIN]\<rparr> in os_poll K [pfd] timeout w)"

section \<open>Framing of a message\<close>

text \<open>
  \<open>message_bytes\<close> is what a handler hands to the operating system for one object: the header made
  from the sequence number, the object's type, its size and the time stamp, then the body.
\<close>

definition message_header :: "u32 \<Rightarrow> data_object \<Rightarrow> int \<Rightarrow> u64 \<Rightarrow> data_header" where
  "message_header ident obj n ts =
     \<lparr>h_id = ident, h_type = get_type obj, h_body_size = word_of_int n, h_timestamp = ts\<rparr>"

definition header_of :: "u32 \<Rightarrow> u64 \<Rightarrow> data_object \<Rightarrow> data_header" where
  "header_of ident ts obj = message_header ident obj (int (length (object_bytes obj))) ts"

definition message_bytes :: "u32 \<Rightarrow> u64 \<Rightarrow> data_object \<Rightarrow> byte list" where
  "message_bytes ident ts obj = header_bytes (header_of ident ts obj) @ object_bytes obj"

lemma canonical_get_type [simp]: "canonical_type (get_type obj)"
  by (cases obj) simp_all

lemma header_of_fields [simp]:
  "h_id (header_of ident ts obj) = ident" "h_type (header_of ident ts obj) = get_type obj"
  "h_timestamp (header_of ident ts obj) = ts"
  by (simp_all add: header_of_def message_header_def)

lemma header_of_body_size [simp]:
  "length (object_bytes obj) < 2 ^ 16 \<Longrightarrow>
     unat (h_body_size (header_of ident ts obj)) = length (object_bytes obj)"
  by (simp add: header_of_def message_header_def unat_of_nat take_bit_nat_eq_self)

lemma length_message_bytes [simp, byte_simps]:
  "length (message_bytes ident ts obj) = 16 + length (object_bytes obj)"
  by (simp add: message_bytes_def)

text \<open>The handler's buffer once a message is staged in it: what follows the message is old content.\<close>

definition staged :: "u32 \<Rightarrow> u64 \<Rightarrow> data_object \<Rightarrow> buffer \<Rightarrow> buffer" where
  "staged ident ts obj buf =
     message_bytes ident ts obj @ drop (16 + length (object_bytes obj)) buf"

lemma length_staged [simp]:
  "16 + length (object_bytes obj) \<le> length buf \<Longrightarrow> length (staged ident ts obj buf) = length buf"
  by (simp add: staged_def)

lemma take_staged [simp]:
  "take (16 + length (object_bytes obj)) (staged ident ts obj buf) = message_bytes ident ts obj"
  by (simp add: staged_def)

text \<open>
  The buffer operations of every \<open>write\<close> and \<open>read\<close>, on a buffer of the handler's size; the
  constants are spelled out, as the simplifier sees them.
\<close>

lemma serialize_body:
  assumes "length buf = 528"
  shows "obj_serialize obj buf 16 (u32_of_size 512) =
     (if length (object_bytes obj) \<le> 512
      then Inr (int (length (object_bytes obj)),
                take 16 buf @ object_bytes obj @ drop (16 + length (object_bytes obj)) buf)
      else Inr (- 1, buf))"
  using assms by (simp add: obj_serialize_fits obj_serialize_too_long)

lemma serialize_header:
  assumes "length buf = 528"
  shows "header_serialize h buf 0 (u32_of_size 16) = Inr (16, header_bytes h @ drop 16 buf)"
  using assms header_serialize_ok [of "u32_of_size 16" 0 buf h] by simp

lemma stage_message:
  assumes "length buf = 528" and "length (object_bytes obj) \<le> 512"
  shows "header_serialize (message_header ident obj (int (length (object_bytes obj))) ts)
      (take 16 buf @ object_bytes obj @ drop (16 + length (object_bytes obj)) buf) 0
      (u32_of_size 16) = Inr (16, staged ident ts obj buf)"
  using assms by (simp add: serialize_header staged_def message_bytes_def header_of_def)

lemma load_staged:
  assumes "length buf = 528" and "length (object_bytes obj) \<le> 512"
  shows "mem_load (staged ident ts obj buf) 0 (16 + length (object_bytes obj)) =
    Inr (message_bytes ident ts obj)"
  using assms by (simp add: mem_load_ok)

lemma deserialize_header:
  assumes "length buf = 528"
  shows "header_deserialize buf 0 (u32_of_size 16) = Inr (Some (header_of_bytes (take 16 buf)))"
  using assms header_deserialize_ok [of "u32_of_size 16" 0 buf] by simp

lemmas framing = serialize_body stage_message load_staged deserialize_header

section \<open>The end of every read\<close>

lemma deserialize_data_object_result:
  assumes "deserialize_data_object t buf p sz = Inr data"
  shows "data \<noteq> Inl INVALID_HEADER \<and> (\<forall>obj. data = Inr obj \<longrightarrow> get_type obj = t)"
  using assms
  by (cases t) (auto simp: deserialize_data_object_def res_simps ping_deserialize_def
      split: option.splits)

lemma typed_of_body:
  "deserialize_data_object (h_type h) buf p sz = Inr data \<Longrightarrow> typed_result (of_body h data)"
  by (drule deserialize_data_object_result) (cases data; auto)

section \<open>The size check of the message transports\<close>

text \<open>
  \<open>assert(header.get_body_size() == result - header_size)\<close>: the 16-bit size and the \<open>ssize_t\<close>
  are converted to \<open>size_t\<close>, so the difference wraps when fewer than sixteen bytes arrived.
\<close>

definition body_size_matches :: "data_header \<Rightarrow> nat \<Rightarrow> bool" where
  "body_size_matches h result \<longleftrightarrow>
     (ucast (h_body_size h) :: u64) = word_of_nat result - word_of_nat sizeof_header"

lemma body_size_matches_iff:
  assumes "result < 2 ^ 63"
  shows "body_size_matches h result \<longleftrightarrow> 16 \<le> result \<and> unat (h_body_size h) = result - 16"
proof -
  have eq: "body_size_matches h result \<longleftrightarrow>
      unat (h_body_size h) = unat (word_of_nat result - 16 :: u64)"
    by (simp add: body_size_matches_def word_unat_eq_iff)
  show ?thesis
  proof (cases "16 \<le> result")
    case True
    then have "unat (word_of_nat result - 16 :: u64) = result - 16"
      using assms by (simp add: unat_sub_if_size word_size word_le_nat_alt unat_of_nat take_bit_nat_eq_self)
    with True eq show ?thesis by simp
  next
    case False
    then have "unat (word_of_nat result - 16 :: u64) = result + 2 ^ 64 - 16"
      using assms by (simp add: unat_sub_if_size word_size word_le_nat_alt unat_of_nat take_bit_nat_eq_self)
    with False eq unat_u16_less [of "h_body_size h"] show ?thesis by simp
  qed
qed

end
