(* ===== verification/Fifo.thy ===== *)
theory Fifo
  imports Comm_Interface
begin

text \<open>
  The named pipe handler (include/handler/fifo.hpp, src/handler/fifo.cpp): its state, its methods
  over the pipe calls of the operating system, the contract of \<open>ICommunicationHandler\<close> for every
  behaviour of those calls, and the memory safety of its read.
\<close>

section \<open>State and operating system\<close>

record fifo =
  fifo_path :: string
  fifo_readonly :: bool
  fifo_fd :: int
  fifo_last_id :: u32
  fifo_buffer :: buffer

record 'w fifo_os = "'w os_base" +
  os_unlink :: "string \<Rightarrow> 'w \<Rightarrow> 'w"
  os_mkfifo :: "string \<Rightarrow> nat \<Rightarrow> 'w \<Rightarrow> int \<times> 'w"
  os_open :: "string \<Rightarrow> open_flag list \<Rightarrow> 'w \<Rightarrow> int \<times> 'w"
  os_close :: "int \<Rightarrow> 'w \<Rightarrow> 'w"
  os_write :: "int \<Rightarrow> byte list \<Rightarrow> 'w \<Rightarrow> int \<times> 'w"
  os_read :: "int \<Rightarrow> nat \<Rightarrow> 'w \<Rightarrow> io_result \<times> 'w"

definition fifo_new :: "string \<Rightarrow> bool \<Rightarrow> fifo" where
  "fifo_new path readonly =
     \<lparr>fifo_path = path, fifo_readonly = readonly, fifo_fd = - 1, fifo_last_id = 0,
      fifo_buffer = replicate BUFFER_SIZE 0\<rparr>"

section \<open>Methods\<close>

definition fifo_open :: "'w fifo_os \<Rightarrow> fifo \<times> 'w \<Rightarrow> bool \<times> (fifo \<times> 'w)" where
  "fifo_open K = (\<lambda>(s, w).
     if fifo_fd s \<noteq> - 1 then (True, s, w)
     else
       let (created, w) =
         (if fifo_readonly s
          then let w = os_unlink K (fifo_path s) w; (res, w) = os_mkfifo K (fifo_path s) mode_0660 w
               in (res \<noteq> - 1, w)
          else (True, w))
       in if \<not> created then (False, s, w)
       else
         let flag = (if fifo_readonly s then [O_RDWR, O_NONBLOCK] else [O_RDWR]);
             (fd, w) = os_open K (fifo_path s) flag w;
             s = s\<lparr>fifo_fd := fd\<rparr>
         in if fd = - 1
            then (False, s, if fifo_readonly s then os_unlink K (fifo_path s) w else w)
            else (True, s, w))"

definition fifo_close :: "'w fifo_os \<Rightarrow> fifo \<times> 'w \<Rightarrow> bool \<times> (fifo \<times> 'w)" where
  "fifo_close K = (\<lambda>(s, w).
     if fifo_fd s = - 1 then (False, s, w)
     else
       let w = os_close K (fifo_fd s) w;
           w = (if fifo_readonly s then os_unlink K (fifo_path s) w else w)
       in (True, s\<lparr>fifo_fd := - 1\<rparr>, w))"

definition fifo_destroy :: "'w fifo_os \<Rightarrow> fifo \<times> 'w \<Rightarrow> fifo \<times> 'w" where
  "fifo_destroy K = (\<lambda>(s, w). if fifo_fd s \<noteq> - 1 then snd (fifo_close K (s, w)) else (s, w))"

definition fifo_is_open :: "fifo \<times> 'w \<Rightarrow> bool" where
  "fifo_is_open = (\<lambda>(s, w). fifo_fd s \<noteq> - 1)"

definition fifo_await_data :: "'w fifo_os \<Rightarrow> fifo \<times> 'w \<Rightarrow> bool \<times> (fifo \<times> 'w)" where
  "fifo_await_data K = (\<lambda>(s, w).
     if fifo_fd s = - 1 then (False, s, w)
     else let (res, w) = poll K (fifo_fd s) WAIT_TIME w in (res > 0, s, w))"

definition fifo_has_data :: "'w fifo_os \<Rightarrow> fifo \<times> 'w \<Rightarrow> bool \<times> (fifo \<times> 'w)" where
  "fifo_has_data K = (\<lambda>(s, w).
     if fifo_fd s = - 1 then (False, s, w)
     else let (res, w) = poll K (fifo_fd s) 1 w in (res > 0, s, w))"

definition fifo_write ::
  "'w fifo_os \<Rightarrow> data_object \<Rightarrow> fifo \<times> 'w \<Rightarrow> (bool \<times> (fifo \<times> 'w)) res" where
  "fifo_write K obj = (\<lambda>(s, w).
     if fifo_fd s = - 1 then Inr (False, s, w)
     else
       let (timestamp, w) = get_timestamp K w in
       and_then (obj_serialize obj (fifo_buffer s) sizeof_header
                  (u32_of_size (BUFFER_SIZE - sizeof_header))) (\<lambda>(n, buf).
       let s = s\<lparr>fifo_buffer := buf\<rparr> in
       if n = - 1 then Inr (False, s, w)
       else
         let s = s\<lparr>fifo_last_id := fifo_last_id s + 1\<rparr>;
             header = message_header (fifo_last_id s) obj n timestamp in
         and_then (header_serialize header (fifo_buffer s) 0 (u32_of_size sizeof_header)) (\<lambda>(_, buf).
         let s = s\<lparr>fifo_buffer := buf\<rparr> in
         and_then (mem_load (fifo_buffer s) 0 (sizeof_header + nat n)) (\<lambda>bytes.
         let (res, w) = os_write K (fifo_fd s) bytes w in
         Inr (res \<noteq> - 1, s, w)))))"

text \<open>
  The body is read over the header, at the start of the buffer, with the size the header names:
  the bounds check of the model is the only one there is.
\<close>

definition fifo_read :: "'w fifo_os \<Rightarrow> fifo \<times> 'w \<Rightarrow> (read_result \<times> (fifo \<times> 'w)) res" where
  "fifo_read K = (\<lambda>(s, w).
     if fifo_fd s = - 1 then Inr (Inl CONNECTION_CLOSED, s, w)
     else
       let (result, w) = os_read K (fifo_fd s) sizeof_header w in
       case result of
         Failed e \<Rightarrow> Inr (Inl (if e = EAGAIN then NO_DATA_AVAILABLE else READ_ERROR), s, w)
       | Transferred bs \<Rightarrow>
           and_then (mem_store (fifo_buffer s) 0 bs) (\<lambda>buf.
           let s = s\<lparr>fifo_buffer := buf\<rparr> in
           if length bs = 0 then Inr (Inl NO_DATA_AVAILABLE, s, w)
           else assert_then (sizeof_header = length bs)
             (and_then (header_deserialize (fifo_buffer s) 0 (u32_of_size sizeof_header)) (\<lambda>optional.
              case optional of
                None \<Rightarrow> Inr (Inl INVALID_HEADER, s, w)
              | Some header \<Rightarrow>
                  let (result, w) = os_read K (fifo_fd s) (unat (h_body_size header)) w in
                  (case result of
                     Failed e \<Rightarrow>
                       Inr (Inl (if e = EAGAIN then NO_DATA_AVAILABLE else READ_ERROR), s, w)
                   | Transferred body \<Rightarrow>
                       and_then (mem_store (fifo_buffer s) 0 body) (\<lambda>buf.
                       let s = s\<lparr>fifo_buffer := buf\<rparr> in
                       assert_then (unat (h_body_size header) = length body)
                         (and_then (deserialize_data_object (h_type header) (fifo_buffer s) 0
                                     (ucast (h_body_size header))) (\<lambda>data.
                          Inr (of_body header data, s, w)))))))))"

definition fifo_iface :: "'w fifo_os \<Rightarrow> (fifo \<times> 'w) comm_iface" where
  "fifo_iface K =
     \<lparr>c_open = fifo_open K, c_close = fifo_close K, c_is_open = fifo_is_open,
      c_await_data = fifo_await_data K, c_has_data = fifo_has_data K,
      c_write = fifo_write K, c_read = (\<lambda>h. Some (fifo_read K h))\<rparr>"

lemmas fifo_defs = fifo_open_def fifo_close_def fifo_is_open_def fifo_await_data_def
  fifo_has_data_def

lemma fifo_iface_simps [simp]:
  "c_open (fifo_iface K) = fifo_open K" "c_close (fifo_iface K) = fifo_close K"
  "c_is_open (fifo_iface K) = fifo_is_open" "c_await_data (fifo_iface K) = fifo_await_data K"
  "c_has_data (fifo_iface K) = fifo_has_data K" "c_write (fifo_iface K) = fifo_write K"
  "c_read (fifo_iface K) h = Some (fifo_read K h)"
  by (simp_all add: fifo_iface_def)

section \<open>The contract of the interface\<close>

definition fifo_inv :: "fifo \<times> 'w \<Rightarrow> bool" where
  "fifo_inv = (\<lambda>(s, w). length (fifo_buffer s) = BUFFER_SIZE)"

definition fifo_seq :: "fifo \<times> 'w \<Rightarrow> u32" where
  "fifo_seq = (\<lambda>(s, w). fifo_last_id s)"

lemma fifo_new_inv: "fifo_inv (fifo_new path ro, w) \<and> \<not> fifo_is_open (fifo_new path ro, w)"
  by (simp add: fifo_inv_def fifo_is_open_def fifo_new_def)

lemma fifo_write_eq:
  assumes "length (fifo_buffer s) = 528" and "fifo_fd s \<noteq> - 1"
    and "os_clock K w = (ts, w1)"
    and "os_write K (fifo_fd s) (message_bytes (fifo_last_id s + 1) ts obj) w1 = (res, w2)"
  shows "fifo_write K obj (s, w) =
    (if length (object_bytes obj) \<le> 512
     then Inr (res \<noteq> - 1,
       s\<lparr>fifo_last_id := fifo_last_id s + 1,
         fifo_buffer := staged (fifo_last_id s + 1) ts obj (fifo_buffer s)\<rparr>, w2)
     else Inr (False, s, w1))"
  using assms by (simp add: fifo_write_def get_timestamp_def framing)

lemma fifo_write_result:
  assumes "fifo_inv h"
  shows "\<exists>b h'. fifo_write K obj h = Inr (b, h') \<and> fifo_inv h' \<and>
    fifo_is_open h' = fifo_is_open h \<and>
    (b \<longrightarrow> fifo_is_open h \<and> length (object_bytes obj) \<le> body_capacity \<and> fifo_seq h' = fifo_seq h + 1)"
proof -
  obtain s w where h: "h = (s, w)" by (cases h)
  have len: "length (fifo_buffer s) = 528"
    using assms by (simp add: h fifo_inv_def)
  show ?thesis
  proof (cases "fifo_fd s = - 1")
    case True
    with assms show ?thesis
      by (auto simp: h fifo_write_def fifo_is_open_def)
  next
    case False
    obtain ts w1 where clock: "os_clock K w = (ts, w1)" by (cases "os_clock K w")
    obtain res w2 where
      sent: "os_write K (fifo_fd s) (message_bytes (fifo_last_id s + 1) ts obj) w1 = (res, w2)"
      by fastforce
    show ?thesis
      using fifo_write_eq [OF len False clock sent] len False
      by (auto simp: h fifo_inv_def fifo_is_open_def fifo_seq_def)
  qed
qed

lemma fifo_read_result:
  assumes "fifo_inv h" and "fifo_read K h = Inr (r, h')"
  shows "fifo_inv h' \<and> fifo_is_open h' = fifo_is_open h \<and> fifo_seq h' = fifo_seq h \<and> typed_result r"
  using assms
  by (auto simp: fifo_inv_def fifo_is_open_def fifo_seq_def fifo_read_def framing res_simps Let_def
      dest!: mem_store_length typed_of_body split: prod.splits io_result.splits if_splits)

lemma fifo_closed_calls:
  assumes "\<not> fifo_is_open h"
  shows "fifo_write K obj h = Inr (False, h)" and "fifo_read K h = Inr (Inl CONNECTION_CLOSED, h)"
    and "fifo_await_data K h = (False, h)" and "fifo_close K h = (False, h)"
  using assms by (cases h; simp add: fifo_defs fifo_write_def fifo_read_def)+

lemma fifo_lifecycle:
  assumes "fifo_inv h"
  shows "fifo_open K h = (b, h') \<Longrightarrow> fifo_inv h' \<and> fifo_is_open h' = b \<and> fifo_seq h' = fifo_seq h"
    and "fifo_is_open h \<Longrightarrow> fifo_open K h = (True, h)"
    and "fifo_close K h = (b, h') \<Longrightarrow>
      fifo_inv h' \<and> \<not> fifo_is_open h' \<and> b = fifo_is_open h \<and> fifo_seq h' = fifo_seq h"
    and "fifo_await_data K h = (b, h') \<Longrightarrow>
      fifo_inv h' \<and> fifo_is_open h' = fifo_is_open h \<and> fifo_seq h' = fifo_seq h"
    and "fifo_has_data K h = (b, h') \<Longrightarrow>
      fifo_inv h' \<and> fifo_is_open h' = fifo_is_open h \<and> fifo_seq h' = fifo_seq h"
  using assms
  by (auto simp: fifo_defs fifo_inv_def fifo_seq_def Let_def split: prod.splits if_splits)

lemmas fifo_contract = fifo_lifecycle fifo_closed_calls fifo_read_result fifo_write_result

interpretation fifo: comm_handler "fifo_iface K" fifo_inv fifo_seq body_capacity
  for K :: "'w fifo_os"
  by unfold_locales (unfold fifo_iface_simps option.inject, (rule fifo_contract; assumption)+)

end
