(* ===== verification/Message_Queue.thy ===== *)
theory Message_Queue
  imports Comm_Interface
begin

text \<open>
  The POSIX message queue handler (include/handler/message_queue.hpp,
  src/handler/message_queue.cpp): its state, its methods over the \<open>mq_*\<close> calls, and the contract
  of \<open>ICommunicationHandler\<close> for every behaviour of those calls.
\<close>

section \<open>State and operating system\<close>

definition QUEUE_SIZE :: nat where
  "QUEUE_SIZE = 10"

record message_queue =
  mq_path :: string
  mq_readonly :: bool
  mq_mqd :: int
  mq_last_id :: u32
  mq_buffer :: buffer

record mq_attr =
  mq_msgsize :: nat
  mq_maxmsg :: nat

record 'w mq_os = "'w os_base" +
  os_mq_unlink :: "string \<Rightarrow> 'w \<Rightarrow> 'w"
  os_mq_open :: "string \<Rightarrow> open_flag list \<Rightarrow> nat \<Rightarrow> mq_attr \<Rightarrow> 'w \<Rightarrow> int \<times> 'w"
  os_mq_close :: "int \<Rightarrow> 'w \<Rightarrow> 'w"
  os_mq_send :: "int \<Rightarrow> byte list \<Rightarrow> nat \<Rightarrow> 'w \<Rightarrow> int \<times> 'w"
  os_mq_receive :: "int \<Rightarrow> nat \<Rightarrow> 'w \<Rightarrow> io_result \<times> 'w"

definition mq_new :: "string \<Rightarrow> bool \<Rightarrow> message_queue" where
  "mq_new path readonly =
     \<lparr>mq_path = path, mq_readonly = readonly, mq_mqd = - 1, mq_last_id = 0,
      mq_buffer = replicate BUFFER_SIZE 0\<rparr>"

section \<open>Methods\<close>

definition mq_open :: "'w mq_os \<Rightarrow> message_queue \<times> 'w \<Rightarrow> bool \<times> (message_queue \<times> 'w)" where
  "mq_open K = (\<lambda>(s, w).
     if mq_mqd s \<noteq> - 1 then (True, s, w)
     else
       let w = (if mq_readonly s then os_mq_unlink K (mq_path s) w else w);
           attr = \<lparr>mq_msgsize = BUFFER_SIZE, mq_maxmsg = QUEUE_SIZE\<rparr>;
           flag = (if mq_readonly s then [O_RDWR, O_CREAT, O_NONBLOCK] else [O_RDWR, O_CREAT]);
           (mqd, w) = os_mq_open K (mq_path s) flag mode_0660 attr w;
           s = s\<lparr>mq_mqd := mqd\<rparr>
       in if mqd = - 1
          then (False, s, if mq_readonly s then os_mq_unlink K (mq_path s) w else w)
          else (True, s, w))"

definition mq_close :: "'w mq_os \<Rightarrow> message_queue \<times> 'w \<Rightarrow> bool \<times> (message_queue \<times> 'w)" where
  "mq_close K = (\<lambda>(s, w).
     if mq_mqd s = - 1 then (False, s, w)
     else
       let w = os_mq_close K (mq_mqd s) w;
           w = (if mq_readonly s then os_mq_unlink K (mq_path s) w else w)
       in (True, s\<lparr>mq_mqd := - 1\<rparr>, w))"

definition mq_destroy :: "'w mq_os \<Rightarrow> message_queue \<times> 'w \<Rightarrow> message_queue \<times> 'w" where
  "mq_destroy K = (\<lambda>(s, w). if mq_mqd s \<noteq> - 1 then snd (mq_close K (s, w)) else (s, w))"

definition mq_is_open :: "message_queue \<times> 'w \<Rightarrow> bool" where
  "mq_is_open = (\<lambda>(s, w). mq_mqd s \<noteq> - 1)"

definition mq_await_data :: "'w mq_os \<Rightarrow> message_queue \<times> 'w \<Rightarrow> bool \<times> (message_queue \<times> 'w)" where
  "mq_await_data K = (\<lambda>(s, w).
     if mq_mqd s = - 1 then (False, s, w)
     else let (res, w) = poll K (mq_mqd s) WAIT_TIME w in (res > 0, s, w))"

definition mq_has_data :: "'w mq_os \<Rightarrow> message_queue \<times> 'w \<Rightarrow> bool \<times> (message_queue \<times> 'w)" where
  "mq_has_data K = (\<lambda>(s, w).
     if mq_mqd s = - 1 then (False, s, w)
     else let (res, w) = poll K (mq_mqd s) 1 w in (res > 0, s, w))"

definition mq_write ::
  "'w mq_os \<Rightarrow> data_object \<Rightarrow> message_queue \<times> 'w \<Rightarrow> (bool \<times> (message_queue \<times> 'w)) res" where
  "mq_write K obj = (\<lambda>(s, w).
     if mq_mqd s = - 1 then Inr (False, s, w)
     else
       let (timestamp, w) = get_timestamp K w in
       and_then (obj_serialize obj (mq_buffer s) sizeof_header
                  (u32_of_size (BUFFER_SIZE - sizeof_header))) (\<lambda>(n, buf).
       let s = s\<lparr>mq_buffer := buf\<rparr> in
       if n = - 1 then Inr (False, s, w)
       else
         let s = s\<lparr>mq_last_id := mq_last_id s + 1\<rparr>;
             header = message_header (mq_last_id s) obj n timestamp in
         and_then (header_serialize header (mq_buffer s) 0 (u32_of_size sizeof_header)) (\<lambda>(_, buf).
         let s = s\<lparr>mq_buffer := buf\<rparr> in
         and_then (mem_load (mq_buffer s) 0 (sizeof_header + nat n)) (\<lambda>bytes.
         let (res, w) = os_mq_send K (mq_mqd s) bytes 0 w in
         Inr (res \<noteq> - 1, s, w)))))"

definition mq_read ::
  "'w mq_os \<Rightarrow> message_queue \<times> 'w \<Rightarrow> (read_result \<times> (message_queue \<times> 'w)) res" where
  "mq_read K = (\<lambda>(s, w).
     if mq_mqd s = - 1 then Inr (Inl CONNECTION_CLOSED, s, w)
     else
       let (result, w) = os_mq_receive K (mq_mqd s) BUFFER_SIZE w in
       case result of
         Failed e \<Rightarrow> Inr (Inl (if e = EAGAIN then NO_DATA_AVAILABLE else READ_ERROR), s, w)
       | Transferred bs \<Rightarrow>
           and_then (mem_store (mq_buffer s) 0 bs) (\<lambda>buf.
           let s = s\<lparr>mq_buffer := buf\<rparr> in
           and_then (header_deserialize (mq_buffer s) 0 (u32_of_size sizeof_header)) (\<lambda>optional.
           case optional of
             None \<Rightarrow> Inr (Inl INVALID_HEADER, s, w)
           | Some header \<Rightarrow>
               assert_then (body_size_matches header (length bs))
                 (and_then (deserialize_data_object (h_type header) (mq_buffer s) sizeof_header
                             (ucast (h_body_size header))) (\<lambda>data.
                  Inr (of_body header data, s, w))))))"

definition mq_iface :: "'w mq_os \<Rightarrow> (message_queue \<times> 'w) comm_iface" where
  "mq_iface K =
     \<lparr>c_open = mq_open K, c_close = mq_close K, c_is_open = mq_is_open,
      c_await_data = mq_await_data K, c_has_data = mq_has_data K,
      c_write = mq_write K, c_read = (\<lambda>h. Some (mq_read K h))\<rparr>"

lemmas mq_defs = mq_open_def mq_close_def mq_is_open_def mq_await_data_def mq_has_data_def

lemma mq_iface_simps [simp]:
  "c_open (mq_iface K) = mq_open K" "c_close (mq_iface K) = mq_close K"
  "c_is_open (mq_iface K) = mq_is_open" "c_await_data (mq_iface K) = mq_await_data K"
  "c_has_data (mq_iface K) = mq_has_data K" "c_write (mq_iface K) = mq_write K"
  "c_read (mq_iface K) h = Some (mq_read K h)"
  by (simp_all add: mq_iface_def)

section \<open>The contract of the interface\<close>

definition mq_inv :: "message_queue \<times> 'w \<Rightarrow> bool" where
  "mq_inv = (\<lambda>(s, w). length (mq_buffer s) = BUFFER_SIZE)"

definition mq_seq :: "message_queue \<times> 'w \<Rightarrow> u32" where
  "mq_seq = (\<lambda>(s, w). mq_last_id s)"

lemma mq_new_inv: "mq_inv (mq_new path ro, w) \<and> \<not> mq_is_open (mq_new path ro, w)"
  by (simp add: mq_inv_def mq_is_open_def mq_new_def)

lemma mq_write_eq:
  assumes "length (mq_buffer s) = 528" and "mq_mqd s \<noteq> - 1"
    and "os_clock K w = (ts, w1)"
    and "os_mq_send K (mq_mqd s) (message_bytes (mq_last_id s + 1) ts obj) 0 w1 = (res, w2)"
  shows "mq_write K obj (s, w) =
    (if length (object_bytes obj) \<le> 512
     then Inr (res \<noteq> - 1,
       s\<lparr>mq_last_id := mq_last_id s + 1,
         mq_buffer := staged (mq_last_id s + 1) ts obj (mq_buffer s)\<rparr>, w2)
     else Inr (False, s, w1))"
  using assms by (simp add: mq_write_def get_timestamp_def framing)

lemma mq_write_result:
  assumes "mq_inv h"
  shows "\<exists>b h'. mq_write K obj h = Inr (b, h') \<and> mq_inv h' \<and> mq_is_open h' = mq_is_open h \<and>
    (b \<longrightarrow> mq_is_open h \<and> length (object_bytes obj) \<le> body_capacity \<and> mq_seq h' = mq_seq h + 1)"
proof -
  obtain s w where h: "h = (s, w)" by (cases h)
  have len: "length (mq_buffer s) = 528"
    using assms by (simp add: h mq_inv_def)
  show ?thesis
  proof (cases "mq_mqd s = - 1")
    case True
    with assms show ?thesis
      by (auto simp: h mq_write_def mq_is_open_def)
  next
    case False
    obtain ts w1 where clock: "os_clock K w = (ts, w1)" by (cases "os_clock K w")
    obtain res w2 where
      sent: "os_mq_send K (mq_mqd s) (message_bytes (mq_last_id s + 1) ts obj) 0 w1 = (res, w2)"
      by fastforce
    show ?thesis
      using mq_write_eq [OF len False clock sent] len False
      by (auto simp: h mq_inv_def mq_is_open_def mq_seq_def)
  qed
qed

lemma mq_read_result:
  assumes "mq_inv h" and "mq_read K h = Inr (r, h')"
  shows "mq_inv h' \<and> mq_is_open h' = mq_is_open h \<and> mq_seq h' = mq_seq h \<and> typed_result r"
  using assms
  by (auto simp: mq_inv_def mq_is_open_def mq_seq_def mq_read_def framing res_simps Let_def
      dest!: mem_store_length typed_of_body split: prod.splits io_result.splits if_splits)

lemma mq_closed_calls:
  assumes "\<not> mq_is_open h"
  shows "mq_write K obj h = Inr (False, h)" and "mq_read K h = Inr (Inl CONNECTION_CLOSED, h)"
    and "mq_await_data K h = (False, h)" and "mq_close K h = (False, h)"
  using assms by (cases h; simp add: mq_defs mq_write_def mq_read_def)+

lemma mq_lifecycle:
  assumes "mq_inv h"
  shows "mq_open K h = (b, h') \<Longrightarrow> mq_inv h' \<and> mq_is_open h' = b \<and> mq_seq h' = mq_seq h"
    and "mq_is_open h \<Longrightarrow> mq_open K h = (True, h)"
    and "mq_close K h = (b, h') \<Longrightarrow>
      mq_inv h' \<and> \<not> mq_is_open h' \<and> b = mq_is_open h \<and> mq_seq h' = mq_seq h"
    and "mq_await_data K h = (b, h') \<Longrightarrow>
      mq_inv h' \<and> mq_is_open h' = mq_is_open h \<and> mq_seq h' = mq_seq h"
    and "mq_has_data K h = (b, h') \<Longrightarrow>
      mq_inv h' \<and> mq_is_open h' = mq_is_open h \<and> mq_seq h' = mq_seq h"
  using assms
  by (auto simp: mq_defs mq_inv_def mq_seq_def Let_def split: prod.splits if_splits)

lemmas mq_contract = mq_lifecycle mq_closed_calls mq_read_result mq_write_result

interpretation mq: comm_handler "mq_iface K" mq_inv mq_seq body_capacity
  for K :: "'w mq_os"
  by unfold_locales (unfold mq_iface_simps option.inject, (rule mq_contract; assumption)+)

end
