(* ===== verification/Sockets.thy ===== *)
theory Sockets
  imports Comm_Interface
begin

text \<open>
  What the two socket handlers share: socket addresses and how they are built from the
  constructor's arguments, and the socket calls of the operating system.
\<close>

section \<open>Addresses\<close>

text \<open>
  \<open>std::variant<sockaddr_un, sockaddr_in>\<close>.  A Unix address holds its path, an internet address
  the IPv4 address and the port in network byte order.  \<open>std::get\<close> of the alternative that is not
  held throws; the methods only reach it under the invariant \<open>address_matches\<close> below.
\<close>

datatype sockaddr =
    is_Sockaddr_Un: Sockaddr_Un (sun_path: string)
  | Sockaddr_In (sin_addr: u32) (sin_port: u16)

text \<open>
  \<open>strncpy(s_addr.sun_path, path.c_str(), sizeof(s_addr.sun_path) - 1)\<close> into a zeroed array of 108
  characters: the path up to its first NUL, cut after 107 characters.
\<close>

definition sizeof_sun_path :: nat where
  "sizeof_sun_path = 108"

definition c_str :: "string \<Rightarrow> string" where
  "c_str s = takeWhile (\<lambda>c. c \<noteq> CHR 0x00) s"

definition strncpy_path :: "string \<Rightarrow> string" where
  "strncpy_path path = take (sizeof_sun_path - 1) (c_str path)"

definition htons :: "u16 \<Rightarrow> u16" where
  "htons w = le_word (rev (le_bytes 2 w))"

definition INADDR_ANY :: u32 where
  "INADDR_ANY = 0"

text \<open>The parameters of a socket: a path or internet address, and the port of an internet socket.\<close>

type_synonym sock_params = "string \<times> u16 option"

lemma htons_htons [simp]: "htons (htons w) = w"
  by (simp add: htons_def le_bytes_le_word)

lemma length_strncpy_path: "length (strncpy_path path) < sizeof_sun_path"
  by (simp add: strncpy_path_def sizeof_sun_path_def min_def)

lemma strncpy_path_short:
  assumes "CHR 0x00 \<notin> set path" and "length path < sizeof_sun_path"
  shows "strncpy_path path = path"
proof -
  have "c_str path = path"
    unfolding c_str_def takeWhile_eq_all_conv using assms(1) by blast
  with assms(2) show ?thesis
    by (simp add: strncpy_path_def sizeof_sun_path_def)
qed

section \<open>Socket calls\<close>

datatype sock_domain = AF_UNIX | AF_INET

datatype sock_type = SOCK_STREAM | SOCK_DGRAM

text \<open>
  \<open>os_socket\<close> takes the domain, the type and whether \<open>SOCK_NONBLOCK\<close> is set.  \<open>os_inet_pton\<close> yields
  the return value and the converted address.
\<close>

record 'w sock_os = "'w os_base" +
  os_remove :: "string \<Rightarrow> 'w \<Rightarrow> 'w"
  os_socket :: "sock_domain \<Rightarrow> sock_type \<Rightarrow> bool \<Rightarrow> 'w \<Rightarrow> int \<times> 'w"
  os_set_reuseaddr :: "int \<Rightarrow> int \<Rightarrow> 'w \<Rightarrow> 'w"
  os_bind :: "int \<Rightarrow> sockaddr \<Rightarrow> 'w \<Rightarrow> int \<times> 'w"
  os_listen :: "int \<Rightarrow> nat \<Rightarrow> 'w \<Rightarrow> int \<times> 'w"
  os_connect :: "int \<Rightarrow> sockaddr \<Rightarrow> 'w \<Rightarrow> int \<times> 'w"
  os_accept4 :: "int \<Rightarrow> 'w \<Rightarrow> int \<times> 'w"
  os_sock_close :: "int \<Rightarrow> 'w \<Rightarrow> 'w"
  os_send :: "int \<Rightarrow> byte list \<Rightarrow> 'w \<Rightarrow> int \<times> 'w"
  os_recv :: "int \<Rightarrow> nat \<Rightarrow> 'w \<Rightarrow> io_result \<times> 'w"
  os_sendto :: "int \<Rightarrow> byte list \<Rightarrow> sockaddr \<Rightarrow> 'w \<Rightarrow> int \<times> 'w"
  os_recvfrom :: "int \<Rightarrow> nat \<Rightarrow> 'w \<Rightarrow> io_result \<times> 'w"
  os_inet_pton :: "string \<Rightarrow> int \<times> u32"

end
