(* ===== verification/Datagram_Socket.thy ===== *)
theory Datagram_Socket
  imports Sockets
begin

text \<open>
  The datagram socket handler for Unix and internet sockets
  (include/handler/datagram_socket.hpp, src/handler/datagram_socket.cpp).
\<close>

section \<open>State\<close>

record dgram_socket =
  dg_parameters :: sock_params
  dg_address :: sockaddr
  dg_server :: bool
  dg_unix :: bool
  dg_sfd :: int
  dg_last_id :: u32
  dg_buffer :: buffer

text \<open>The two constructors; the address variant starts as a zeroed \<open>sockaddr_un\<close>.\<close>

definition dgram_new_unix :: "string \<Rightarrow> bool \<Rightarrow> dgram_socket" where
  "dgram_new_unix path server =
     \<lparr>dg_parameters = (path, None), dg_address = Sockaddr_Un [], dg_server = server,
      dg_unix = True, dg_sfd = - 1, dg_last_id = 0, dg_buffer = replicate BUFFER_SIZE 0\<rparr>"

definition dgram_new_inet :: "string \<Rightarrow> u16 \<Rightarrow> bool \<Rightarrow> dgram_socket" where
  "dgram_new_inet address port server =
     \<lparr>dg_parameters = (address, Some port), dg_address = Sockaddr_Un [], dg_server = server,
      dg_unix = False, dg_sfd = - 1, dg_last_id = 0, dg_buffer = replicate BUFFER_SIZE 0\<rparr>"

section \<open>Opening and closing\<close>

text \<open>\<open>*std::get<1>(parameters_)\<close> is read for internet sockets only, which are built with a port.\<close>

definition dgram_build_address :: "'w sock_os \<Rightarrow> dgram_socket \<Rightarrow> bool \<times> dgram_socket" where
  "dgram_build_address K s =
     (if dg_unix s
      then (True, s\<lparr>dg_address := Sockaddr_Un (strncpy_path (fst (dg_parameters s)))\<rparr>)
      else
        let address = fst (dg_parameters s); port = the (snd (dg_parameters s));
            (res, parsed) = os_inet_pton K address
        in if dg_server s
           then (True, s\<lparr>dg_address := Sockaddr_In INADDR_ANY (htons port)\<rparr>)
           else if res \<le> 0 then (False, s)
           else (True, s\<lparr>dg_address := Sockaddr_In parsed (htons port)\<rparr>))"

definition dgram_create_server ::
  "'w sock_os \<Rightarrow> dgram_socket \<times> 'w \<Rightarrow> bool \<times> (dgram_socket \<times> 'w)" where
  "dgram_create_server K = (\<lambda>(s, w).
     if dg_unix s then
       let (fd, w) = os_socket K AF_UNIX SOCK_DGRAM True w; s = s\<lparr>dg_sfd := fd\<rparr> in
       if fd = - 1 then (False, s, w)
       else
         let (built, s) = dgram_build_address K s in
         if \<not> built then (False, s, w)
         else
           let w = os_remove K (sun_path (dg_address s)) w;
               (res, w) = os_bind K (dg_sfd s) (dg_address s) w
           in (res \<noteq> - 1, s, w)
     else
       let (fd, w) = os_socket K AF_INET SOCK_DGRAM True w; s = s\<lparr>dg_sfd := fd\<rparr> in
       if fd = - 1 then (False, s, w)
       else
         let w = os_set_reuseaddr K (dg_sfd s) 1 w;
             (built, s) = dgram_build_address K s in
         if \<not> built then (False, s, w)
         else
           let (res, w) = os_bind K (dg_sfd s) (dg_address s) w
           in (res \<noteq> - 1, s, w))"

definition dgram_create_client ::
  "'w sock_os \<Rightarrow> dgram_socket \<times> 'w \<Rightarrow> bool \<times> (dgram_socket \<times> 'w)" where
  "dgram_create_client K = (\<lambda>(s, w).
     let (fd, w) = os_socket K (if dg_unix s then AF_UNIX else AF_INET) SOCK_DGRAM False w;
         s = s\<lparr>dg_sfd := fd\<rparr> in
     if fd = - 1 then (False, s, w)
     else let (built, s) = dgram_build_address K s in (built, s, w))"

definition dgram_close :: "'w sock_os \<Rightarrow> dgram_socket \<times> 'w \<Rightarrow> bool \<times> (dgram_socket \<times> 'w)" where
  "dgram_close K = (\<lambda>(s, w).
     if dg_sfd s = - 1 then (False, s, w)
     else
       let w = os_sock_close K (dg_sfd s) w;
           w = (if dg_unix s \<and> dg_server s then os_remove K (sun_path (dg_address s)) w else w)
       in (True, s\<lparr>dg_sfd := - 1\<rparr>, w))"

definition dgram_open :: "'w sock_os \<Rightarrow> dgram_socket \<times> 'w \<Rightarrow> bool \<times> (dgram_socket \<times> 'w)" where
  "dgram_open K = (\<lambda>(s, w).
     if dg_sfd s \<noteq> - 1 then (True, s, w)
     else
       let (created, h) =
         (if dg_server s then dgram_create_server K (s, w) else dgram_create_client K (s, w))
       in if created then (True, h) else (False, snd (dgram_close K h)))"

definition dgram_destroy :: "'w sock_os \<Rightarrow> dgram_socket \<times> 'w \<Rightarrow> dgram_socket \<times> 'w" where
  "dgram_destroy K = (\<lambda>(s, w). if dg_sfd s \<noteq> - 1 then snd (dgram_close K (s, w)) else (s, w))"

definition dgram_is_open :: "dgram_socket \<times> 'w \<Rightarrow> bool" where
  "dgram_is_open = (\<lambda>(s, w). dg_sfd s \<noteq> - 1)"

section \<open>Transferring messages\<close>

definition dgram_await_data :: "'w sock_os \<Rightarrow> dgram_socket \<times> 'w \<Rightarrow> bool \<times> (dgram_socket \<times> 'w)" where
  "dgram_await_data K = (\<lambda>(s, w).
     if dg_sfd s = - 1 then (False, s, w)
     else let (res, w) = poll K (dg_sfd s) WAIT_TIME w in (res > 0, s, w))"

definition dgram_has_data :: "'w sock_os \<Rightarrow> dgram_socket \<times> 'w \<Rightarrow> bool \<times> (dgram_socket \<times> 'w)" where
  "dgram_has_data K = (\<lambda>(s, w).
     if dg_sfd s = - 1 then (False, s, w)
     else let (res, w) = poll K (dg_sfd s) 1 w in (res > 0, s, w))"

text \<open>
  Unlike the other handlers, this one takes the time stamp after it has serialized the body.
  \<open>std::get\<close> of the address throws if the variant holds the other alternative.
\<close>

definition dgram_write ::
  "'w sock_os \<Rightarrow> data_object \<Rightarrow> dgram_socket \<times> 'w \<Rightarrow> (bool \<times> (dgram_socket \<times> 'w)) res" where
  "dgram_write K obj = (\<lambda>(s, w).
     if dg_sfd s = - 1 then Inr (False, s, w)
     else
       and_then (obj_serialize obj (dg_buffer s) sizeof_header
                  (u32_of_size (BUFFER_SIZE - sizeof_header))) (\<lambda>(n, buf).
       let s = s\<lparr>dg_buffer := buf\<rparr> in
       if n = - 1 then Inr (False, s, w)
       else
         let s = s\<lparr>dg_last_id := dg_last_id s + 1\<rparr>;
             (timestamp, w) = get_timestamp K w;
             header = message_header (dg_last_id s) obj n timestamp in
         and_then (header_serialize header (dg_buffer s) 0 (u32_of_size sizeof_header)) (\<lambda>(_, buf).
         let s = s\<lparr>dg_buffer := buf\<rparr> in
         if is_Sockaddr_Un (dg_address s) \<noteq> dg_unix s then Inl Uncaught_Exception
         else
           and_then (mem_load (dg_buffer s) 0 (sizeof_header + nat n)) (\<lambda>bytes.
           let (res, w) = os_sendto K (dg_sfd s) bytes (dg_address s) w in
           Inr (res \<noteq> - 1, s, w)))))"

definition dgram_read ::
  "'w sock_os \<Rightarrow> dgram_socket \<times> 'w \<Rightarrow> (read_result \<times> (dgram_socket \<times> 'w)) res" where
  "dgram_read K = (\<lambda>(s, w).
     if dg_sfd s = - 1 then Inr (Inl CONNECTION_CLOSED, s, w)
     else
       let (result, w) = os_recvfrom K (dg_sfd s) BUFFER_SIZE w in
       case result of
         Failed e \<Rightarrow> Inr (Inl (if e = EAGAIN then NO_DATA_AVAILABLE else READ_ERROR), s, w)
       | Transferred bs \<Rightarrow>
           and_then (mem_store (dg_buffer s) 0 bs) (\<lambda>buf.
           let s = s\<lparr>dg_buffer := buf\<rparr> in
           and_then (header_deserialize (dg_buffer s) 0 (u32_of_size sizeof_header)) (\<lambda>optional.
           case optional of
             None \<Rightarrow> Inr (Inl INVALID_HEADER, s, w)
           | Some header \<Rightarrow>
               assert_then (body_size_matches header (length bs))
                 (and_then (deserialize_data_object (h_type header) (dg_buffer s) sizeof_header
                             (ucast (h_body_size header))) (\<lambda>data.
                  Inr (of_body header data, s, w))))))"

definition dgram_iface :: "'w sock_os \<Rightarrow> (dgram_socket \<times> 'w) comm_iface" where
  "dgram_iface K =
     \<lparr>c_open = dgram_open K, c_close = dgram_close K, c_is_open = dgram_is_open,
      c_await_data = dgram_await_data K, c_has_data = dgram_has_data K,
      c_write = dgram_write K, c_read = (\<lambda>h. Some (dgram_read K h))\<rparr>"

lemmas dgram_defs = dgram_open_def dgram_close_def dgram_is_open_def dgram_await_data_def
  dgram_has_data_def

lemma dgram_iface_simps [simp]:
  "c_open (dgram_iface K) = dgram_open K" "c_close (dgram_iface K) = dgram_close K"
  "c_is_open (dgram_iface K) = dgram_is_open" "c_await_data (dgram_iface K) = dgram_await_data K"
  "c_has_data (dgram_iface K) = dgram_has_data K" "c_write (dgram_iface K) = dgram_write K"
  "c_read (dgram_iface K) h = Some (dgram_read K h)"
  by (simp_all add: dgram_iface_def)

section \<open>The contract of the interface\<close>

text \<open>
  The address variant holds the alternative of the socket's domain whenever the socket is open, so
  \<open>std::get\<close> never throws; an internet socket has a port.
\<close>

definition dgram_address_matches :: "dgram_socket \<Rightarrow> bool" where
  "dgram_address_matches s \<longleftrightarrow>
     (dg_sfd s \<noteq> - 1 \<longrightarrow> is_Sockaddr_Un (dg_address s) = dg_unix s) \<and>
     (\<not> dg_unix s \<longrightarrow> snd (dg_parameters s) \<noteq> None)"

definition dgram_inv :: "dgram_socket \<times> 'w \<Rightarrow> bool" where
  "dgram_inv = (\<lambda>(s, w). length (dg_buffer s) = BUFFER_SIZE \<and> dgram_address_matches s)"

definition dgram_seq :: "dgram_socket \<times> 'w \<Rightarrow> u32" where
  "dgram_seq = (\<lambda>(s, w). dg_last_id s)"

lemma dgram_new_inv:
  "dgram_inv (dgram_new_unix path server, w)" "dgram_inv (dgram_new_inet addr port server, w)"
  by (simp_all add: dgram_inv_def dgram_address_matches_def dgram_new_unix_def dgram_new_inet_def)

lemma dgram_write_eq:
  assumes "length (dg_buffer s) = 528" and "dg_sfd s \<noteq> - 1"
    and "is_Sockaddr_Un (dg_address s) = dg_unix s"
    and "os_clock K w = (ts, w1)"
    and "os_sendto K (dg_sfd s) (message_bytes (dg_last_id s + 1) ts obj) (dg_address s) w1 =
      (res, w2)"
  shows "dgram_write K obj (s, w) =
    (if length (object_bytes obj) \<le> 512
     then Inr (res \<noteq> - 1,
       s\<lparr>dg_last_id := dg_last_id s + 1,
         dg_buffer := staged (dg_last_id s + 1) ts obj (dg_buffer s)\<rparr>, w2)
     else Inr (False, s, w))"
  using assms by (simp add: dgram_write_def get_timestamp_def framing)

lemma dgram_write_result:
  assumes "dgram_inv h"
  shows "\<exists>b h'. dgram_write K obj h = Inr (b, h') \<and> dgram_inv h' \<and>
    dgram_is_open h' = dgram_is_open h \<and>
    (b \<longrightarrow> dgram_is_open h \<and> length (object_bytes obj) \<le> body_capacity \<and>
          dgram_seq h' = dgram_seq h + 1)"
proof -
  obtain s w where h: "h = (s, w)" by (cases h)
  have len: "length (dg_buffer s) = 528"
    using assms by (simp add: h dgram_inv_def)
  show ?thesis
  proof (cases "dg_sfd s = - 1")
    case True
    with assms show ?thesis
      by (auto simp: h dgram_write_def dgram_is_open_def)
  next
    case False
    with assms have addr: "is_Sockaddr_Un (dg_address s) = dg_unix s"
      by (simp add: h dgram_inv_def dgram_address_matches_def)
    obtain ts w1 where clock: "os_clock K w = (ts, w1)" by (cases "os_clock K w")
    obtain res w2 where sent: "os_sendto K (dg_sfd s)
        (message_bytes (dg_last_id s + 1) ts obj) (dg_address s) w1 = (res, w2)"
      by fastforce
    show ?thesis
      using dgram_write_eq [OF len False addr clock sent] len False assms
      by (auto simp: h dgram_inv_def dgram_address_matches_def dgram_is_open_def dgram_seq_def)
  qed
qed

lemma dgram_read_result:
  assumes "dgram_inv h" and "dgram_read K h = Inr (r, h')"
  shows "dgram_inv h' \<and> dgram_is_open h' = dgram_is_open h \<and> dgram_seq h' = dgram_seq h \<and>
    typed_result r"
  using assms
  by (auto simp: dgram_inv_def dgram_address_matches_def dgram_is_open_def dgram_seq_def
      dgram_read_def framing res_simps Let_def
      dest!: mem_store_length typed_of_body split: prod.splits io_result.splits if_splits)

lemma dgram_closed_calls:
  assumes "\<not> dgram_is_open h"
  shows "dgram_write K obj h = Inr (False, h)"
    and "dgram_read K h = Inr (Inl CONNECTION_CLOSED, h)"
    and "dgram_await_data K h = (False, h)" and "dgram_close K h = (False, h)"
  using assms by (cases h; simp add: dgram_defs dgram_write_def dgram_read_def)+

text \<open>Creating a socket keeps everything but the descriptor and the address.\<close>

lemma dgram_build_address_frame [simp]:
  "dg_buffer (snd (dgram_build_address K s)) = dg_buffer s"
  "dg_last_id (snd (dgram_build_address K s)) = dg_last_id s"
  "dg_unix (snd (dgram_build_address K s)) = dg_unix s"
  "dg_parameters (snd (dgram_build_address K s)) = dg_parameters s"
  "dg_sfd (snd (dgram_build_address K s)) = dg_sfd s"
  "fst (dgram_build_address K s) \<Longrightarrow>
    is_Sockaddr_Un (dg_address (snd (dgram_build_address K s))) = dg_unix s"
  by (auto simp: dgram_build_address_def Let_def split: if_splits prod.splits)

lemma dgram_create_server_frame:
  assumes "dgram_create_server K (s, w) = (b, s', w')"
  shows "dg_buffer s' = dg_buffer s \<and> dg_last_id s' = dg_last_id s \<and> dg_unix s' = dg_unix s \<and>
    dg_parameters s' = dg_parameters s \<and>
    (b \<longrightarrow> dg_sfd s' \<noteq> - 1 \<and> is_Sockaddr_Un (dg_address s') = dg_unix s)"
  using assms by (auto simp: dgram_create_server_def Let_def case_prod_beta split: if_splits)

lemma dgram_create_client_frame:
  assumes "dgram_create_client K (s, w) = (b, s', w')"
  shows "dg_buffer s' = dg_buffer s \<and> dg_last_id s' = dg_last_id s \<and> dg_unix s' = dg_unix s \<and>
    dg_parameters s' = dg_parameters s \<and>
    (b \<longrightarrow> dg_sfd s' \<noteq> - 1 \<and> is_Sockaddr_Un (dg_address s') = dg_unix s)"
  using assms by (auto simp: dgram_create_client_def Let_def case_prod_beta split: if_splits)

lemma dgram_close_frame:
  assumes "dgram_close K (s, w) = (b, s', w')"
  shows "dg_buffer s' = dg_buffer s \<and> dg_last_id s' = dg_last_id s \<and> dg_unix s' = dg_unix s \<and>
    dg_parameters s' = dg_parameters s \<and> dg_sfd s' = - 1 \<and> b = (dg_sfd s \<noteq> - 1)"
  using assms by (auto simp: dgram_close_def Let_def split: if_splits)

lemma dgram_open_result:
  assumes "dgram_inv h" and "dgram_open K h = (b, h')"
  shows "dgram_inv h' \<and> dgram_is_open h' = b \<and> dgram_seq h' = dgram_seq h"
proof -
  obtain s w where h: "h = (s, w)" by (cases h)
  obtain c s1 w1 where created:
    "(if dg_server s then dgram_create_server K (s, w) else dgram_create_client K (s, w)) =
      (c, s1, w1)"
    by (metis surj_pair)
  have frame: "dg_buffer s1 = dg_buffer s \<and> dg_last_id s1 = dg_last_id s \<and>
      dg_unix s1 = dg_unix s \<and> dg_parameters s1 = dg_parameters s \<and>
      (c \<longrightarrow> dg_sfd s1 \<noteq> - 1 \<and> is_Sockaddr_Un (dg_address s1) = dg_unix s)"
  proof (cases "dg_server s")
    case True
    with created have "dgram_create_server K (s, w) = (c, s1, w1)" by simp
    then show ?thesis by (rule dgram_create_server_frame)
  next
    case False
    with created have "dgram_create_client K (s, w) = (c, s1, w1)" by simp
    then show ?thesis by (rule dgram_create_client_frame)
  qed
  obtain b2 s2 w2 where closed: "dgram_close K (s1, w1) = (b2, s2, w2)"
    by (metis surj_pair)
  show ?thesis
  proof (cases "dg_sfd s = - 1")
    case True
    have "dgram_open K h = (if c then (True, s1, w1) else (False, s2, w2))"
      unfolding h dgram_open_def prod.case created Let_def using True closed by simp
    with assms(2) have "b = c" and "h' = (if c then (s1, w1) else (s2, w2))"
      by (simp_all split: if_splits)
    with assms(1) frame dgram_close_frame [OF closed] show ?thesis
      by (simp add: h dgram_inv_def dgram_address_matches_def dgram_is_open_def dgram_seq_def)
  next
    case False
    with assms show ?thesis
      by (auto simp: h dgram_open_def dgram_is_open_def)
  qed
qed

lemma dgram_lifecycle:
  assumes "dgram_inv h"
  shows "dgram_is_open h \<Longrightarrow> dgram_open K h = (True, h)"
    and "dgram_close K h = (b, h') \<Longrightarrow>
      dgram_inv h' \<and> \<not> dgram_is_open h' \<and> b = dgram_is_open h \<and> dgram_seq h' = dgram_seq h"
    and "dgram_await_data K h = (b, h') \<Longrightarrow>
      dgram_inv h' \<and> dgram_is_open h' = dgram_is_open h \<and> dgram_seq h' = dgram_seq h"
    and "dgram_has_data K h = (b, h') \<Longrightarrow>
      dgram_inv h' \<and> dgram_is_open h' = dgram_is_open h \<and> dgram_seq h' = dgram_seq h"
  using assms
  by (auto simp: dgram_defs dgram_inv_def dgram_address_matches_def dgram_seq_def Let_def
      split: prod.splits if_splits)

lemmas dgram_contract = dgram_open_result dgram_lifecycle dgram_closed_calls dgram_read_result
  dgram_write_result

interpretation dgram: comm_handler "dgram_iface K" dgram_inv dgram_seq body_capacity
  for K :: "'w sock_os"
  by unfold_locales (unfold dgram_iface_simps option.inject, (rule dgram_contract; assumption)+)

end
