(* ===== verification/Stream_Socket.thy ===== *)
theory Stream_Socket
  imports Sockets
begin

text \<open>
  The stream socket handler for Unix and internet sockets (include/handler/stream_socket.hpp,
  src/handler/stream_socket.cpp).  Its read reassembles a message from the pieces in which the
  operating system hands over a byte stream; the two receive loops are partial functions, since a
  peer that stops in the middle of a message keeps them spinning.
\<close>

section \<open>State\<close>

definition BACKLOG :: nat where
  "BACKLOG = 5"

record stream_socket =
  st_parameters :: sock_params
  st_address :: sockaddr
  st_server :: bool
  st_unix :: bool
  st_sfd :: int
  st_cfd :: int
  st_last_id :: u32
  st_buffer :: buffer

definition stream_new_unix :: "string \<Rightarrow> bool \<Rightarrow> stream_socket" where
  "stream_new_unix path server =
     \<lparr>st_parameters = (path, None), st_address = Sockaddr_Un [], st_server = server,
      st_unix = True, st_sfd = - 1, st_cfd = - 1, st_last_id = 0,
      st_buffer = replicate BUFFER_SIZE 0\<rparr>"

definition stream_new_inet :: "string \<Rightarrow> u16 \<Rightarrow> bool \<Rightarrow> stream_socket" where
  "stream_new_inet address port server =
     \<lparr>st_parameters = (address, Some port), st_address = Sockaddr_Un [], st_server = server,
      st_unix = False, st_sfd = - 1, st_cfd = - 1, st_last_id = 0,
      st_buffer = replicate BUFFER_SIZE 0\<rparr>"

section \<open>Opening and closing\<close>

definition stream_build_address :: "'w sock_os \<Rightarrow> stream_socket \<Rightarrow> bool \<times> stream_socket" where
  "stream_build_address K s =
     (if st_unix s
      then (True, s\<lparr>st_address := Sockaddr_Un (strncpy_path (fst (st_parameters s)))\<rparr>)
      else
        let address = fst (st_parameters s); port = the (snd (st_parameters s));
            (res, parsed) = os_inet_pton K address
        in if st_server s
           then (True, s\<lparr>st_address := Sockaddr_In INADDR_ANY (htons port)\<rparr>)
           else if res \<le> 0 then (False, s)
           else (True, s\<lparr>st_address := Sockaddr_In parsed (htons port)\<rparr>))"

definition stream_create_server ::
  "'w sock_os \<Rightarrow> stream_socket \<times> 'w \<Rightarrow> bool \<times> (stream_socket \<times> 'w)" where
  "stream_create_server K = (\<lambda>(s, w).
     let (bound, s, w) =
       (if st_unix s then
          let (fd, w) = os_socket K AF_UNIX SOCK_STREAM True w; s = s\<lparr>st_sfd := fd\<rparr> in
          if fd = - 1 then (False, s, w)
          else
            let (built, s) = stream_build_address K s in
            if \<not> built then (False, s, w)
            else
              let w = os_remove K (sun_path (st_address s)) w;
                  (res, w) = os_bind K (st_sfd s) (st_address s) w
              in (res \<noteq> - 1, s, w)
        else
          let (fd, w) = os_socket K AF_INET SOCK_STREAM True w; s = s\<lparr>st_sfd := fd\<rparr> in
          if fd = - 1 then (False, s, w)
          else
            let w = os_set_reuseaddr K (st_sfd s) 1 w;
                (built, s) = stream_build_address K s in
            if \<not> built then (False, s, w)
            else
              let (res, w) = os_bind K (st_sfd s) (st_address s) w
              in (res \<noteq> - 1, s, w))
     in if \<not> bound then (False, s, w)
        else let (res, w) = os_listen K (st_sfd s) BACKLOG w in (res \<noteq> - 1, s, w))"

definition stream_create_client ::
  "'w sock_os \<Rightarrow> stream_socket \<times> 'w \<Rightarrow> bool \<times> (stream_socket \<times> 'w)" where
  "stream_create_client K = (\<lambda>(s, w).
     let (fd, w) = os_socket K (if st_unix s then AF_UNIX else AF_INET) SOCK_STREAM False w;
         s = s\<lparr>st_sfd := fd\<rparr> in
     if fd = - 1 then (False, s, w)
     else
       let (built, s) = stream_build_address K s in
       if \<not> built then (False, s, w)
       else
         let (res, w) = os_connect K (st_sfd s) (st_address s) w
         in (res \<noteq> - 1, s, w))"

definition stream_close :: "'w sock_os \<Rightarrow> stream_socket \<times> 'w \<Rightarrow> bool \<times> (stream_socket \<times> 'w)" where
  "stream_close K = (\<lambda>(s, w).
     if st_sfd s = - 1 then (False, s, w)
     else
       let w = os_sock_close K (st_sfd s) w;
           w = (if st_cfd s \<noteq> - 1 then os_sock_close K (st_cfd s) w else w);
           w = (if st_unix s \<and> st_server s then os_remove K (sun_path (st_address s)) w else w)
       in (True, s\<lparr>st_sfd := - 1, st_cfd := - 1\<rparr>, w))"

definition stream_open :: "'w sock_os \<Rightarrow> stream_socket \<times> 'w \<Rightarrow> bool \<times> (stream_socket \<times> 'w)" where
  "stream_open K = (\<lambda>(s, w).
     if st_sfd s \<noteq> - 1 then (True, s, w)
     else
       let (created, h) =
         (if st_server s then stream_create_server K (s, w) else stream_create_client K (s, w))
       in if created then (True, h) else (False, snd (stream_close K h)))"

definition stream_destroy :: "'w sock_os \<Rightarrow> stream_socket \<times> 'w \<Rightarrow> stream_socket \<times> 'w" where
  "stream_destroy K = (\<lambda>(s, w). if st_sfd s \<noteq> - 1 then snd (stream_close K (s, w)) else (s, w))"

definition stream_is_open :: "stream_socket \<times> 'w \<Rightarrow> bool" where
  "stream_is_open = (\<lambda>(s, w). st_sfd s \<noteq> - 1)"

definition stream_accept :: "'w sock_os \<Rightarrow> stream_socket \<times> 'w \<Rightarrow> bool \<times> (stream_socket \<times> 'w)" where
  "stream_accept K = (\<lambda>(s, w).
     if st_sfd s = - 1 then (False, s, w)
     else
       let (s, w) =
         (if st_cfd s \<noteq> - 1
          then let w = os_sock_close K (st_cfd s) w in (s\<lparr>st_cfd := - 1\<rparr>, w)
          else (s, w));
           (res, w) = poll K (st_sfd s) WAIT_TIME w
       in if res = - 1 then (False, s, w)
       else if res = 0 then (False, s, w)
       else
         let (res, w) = os_accept4 K (st_sfd s) w in
         if res = - 1 then (False, s, w) else (True, s\<lparr>st_cfd := res\<rparr>, w))"

section \<open>Transferring messages\<close>

definition stream_await_data :: "'w sock_os \<Rightarrow> stream_socket \<times> 'w \<Rightarrow> bool \<times> (stream_socket \<times> 'w)" where
  "stream_await_data K = (\<lambda>(s, w).
     let (ready, s, w) = (if st_cfd s = - 1 then stream_accept K (s, w) else (True, s, w)) in
     if \<not> ready then (False, s, w)
     else let (res, w) = poll K (st_cfd s) WAIT_TIME w in (res > 0, s, w))"

definition stream_has_data :: "'w sock_os \<Rightarrow> stream_socket \<times> 'w \<Rightarrow> bool \<times> (stream_socket \<times> 'w)" where
  "stream_has_data K = (\<lambda>(s, w).
     if st_cfd s = - 1 then (False, s, w)
     else let (res, w) = poll K (st_cfd s) 1 w in (res > 0, s, w))"

definition stream_write ::
  "'w sock_os \<Rightarrow> data_object \<Rightarrow> stream_socket \<times> 'w \<Rightarrow> (bool \<times> (stream_socket \<times> 'w)) res" where
  "stream_write K obj = (\<lambda>(s, w).
     if st_sfd s = - 1 then Inr (False, s, w)
     else
       let (timestamp, w) = get_timestamp K w in
       and_then (obj_serialize obj (st_buffer s) sizeof_header
                  (u32_of_size (BUFFER_SIZE - sizeof_header))) (\<lambda>(n, buf).
       let s = s\<lparr>st_buffer := buf\<rparr> in
       if n = - 1 then Inr (False, s, w)
       else
         let s = s\<lparr>st_last_id := st_last_id s + 1\<rparr>;
             header = message_header (st_last_id s) obj n timestamp in
         and_then (header_serialize header (st_buffer s) 0 (u32_of_size sizeof_header)) (\<lambda>(_, buf).
         let s = s\<lparr>st_buffer := buf\<rparr> in
         and_then (mem_load (st_buffer s) 0 (sizeof_header + nat n)) (\<lambda>bytes.
         let (res, w) = os_send K (st_sfd s) bytes w in
         Inr (res \<noteq> - 1, s, w)))))"

text \<open>
  The two receive loops of \<open>read\<close>.  Both fill the start of the buffer, from offset \<open>amount\<close> up to
  the wanted number of bytes; the first gives up on \<open>EAGAIN\<close> while nothing has been received.  The
  result \<open>Some e\<close> is an early return with that error, \<open>None\<close> the regular end of the loop.
\<close>

partial_function (option) recv_header ::
  "'w sock_os \<Rightarrow> int \<Rightarrow> nat \<Rightarrow> buffer \<Rightarrow> 'w \<Rightarrow> (comm_error option \<times> buffer \<times> 'w) res option" where
  "recv_header K fd amount buf w =
     (let (result, w) = os_recv K fd (sizeof_header - amount) w in
      case result of
        Failed e \<Rightarrow>
          if e = EAGAIN
          then if amount > 0 then recv_header K fd amount buf w
               else Some (Inr (Some NO_DATA_AVAILABLE, buf, w))
          else Some (Inr (Some READ_ERROR, buf, w))
      | Transferred bs \<Rightarrow>
          (case mem_store buf amount bs of
             Inl f \<Rightarrow> Some (Inl f)
           | Inr buf \<Rightarrow>
               if length bs = 0 then Some (Inr (Some CONNECTION_CLOSED, buf, w))
               else if amount + length bs < sizeof_header
               then recv_header K fd (amount + length bs) buf w
               else Some (Inr (None, buf, w))))"

partial_function (option) recv_body ::
  "'w sock_os \<Rightarrow> int \<Rightarrow> nat \<Rightarrow> nat \<Rightarrow> buffer \<Rightarrow> 'w \<Rightarrow> (comm_error option \<times> buffer \<times> 'w) res option" where
  "recv_body K fd wanted amount buf w =
     (if amount < wanted then
        let (result, w) = os_recv K fd (wanted - amount) w in
        (case result of
           Failed e \<Rightarrow>
             if e = EAGAIN then recv_body K fd wanted amount buf w
             else Some (Inr (Some READ_ERROR, buf, w))
         | Transferred bs \<Rightarrow>
             (case mem_store buf amount bs of
                Inl f \<Rightarrow> Some (Inl f)
              | Inr buf \<Rightarrow>
                  if length bs = 0 then Some (Inr (Some CONNECTION_CLOSED, buf, w))
                  else recv_body K fd wanted (amount + length bs) buf w))
      else Some (Inr (None, buf, w)))"

definition stream_read ::
  "'w sock_os \<Rightarrow> stream_socket \<times> 'w \<Rightarrow> (read_result \<times> (stream_socket \<times> 'w)) res option" where
  "stream_read K = (\<lambda>(s, w).
     if st_cfd s = - 1 then Some (Inr (Inl CONNECTION_CLOSED, s, w))
     else
       case recv_header K (st_cfd s) 0 (st_buffer s) w of
         None \<Rightarrow> None
       | Some (Inl f) \<Rightarrow> Some (Inl f)
       | Some (Inr (Some e, buf, w)) \<Rightarrow> Some (Inr (Inl e, s\<lparr>st_buffer := buf\<rparr>, w))
       | Some (Inr (None, buf, w)) \<Rightarrow>
           (case header_deserialize buf 0 (u32_of_size sizeof_header) of
              Inl f \<Rightarrow> Some (Inl f)
            | Inr None \<Rightarrow> Some (Inr (Inl INVALID_HEADER, s\<lparr>st_buffer := buf\<rparr>, w))
            | Inr (Some header) \<Rightarrow>
                (case recv_body K (st_cfd s) (unat (h_body_size header)) 0 buf w of
                   None \<Rightarrow> None
                 | Some (Inl f) \<Rightarrow> Some (Inl f)
                 | Some (Inr (Some e, buf, w)) \<Rightarrow> Some (Inr (Inl e, s\<lparr>st_buffer := buf\<rparr>, w))
                 | Some (Inr (None, buf, w)) \<Rightarrow>
                     Some (and_then (deserialize_data_object (h_type header) buf 0
                                      (ucast (h_body_size header))) (\<lambda>data.
                           Inr (of_body header data, s\<lparr>st_buffer := buf\<rparr>, w))))))"

definition stream_iface :: "'w sock_os \<Rightarrow> (stream_socket \<times> 'w) comm_iface" where
  "stream_iface K =
     \<lparr>c_open = stream_open K, c_close = stream_close K, c_is_open = stream_is_open,
      c_await_data = stream_await_data K, c_has_data = stream_has_data K,
      c_write = stream_write K, c_read = stream_read K\<rparr>"

lemmas stream_defs = stream_open_def stream_close_def stream_is_open_def stream_await_data_def
  stream_has_data_def

lemma stream_iface_simps [simp]:
  "c_open (stream_iface K) = stream_open K" "c_close (stream_iface K) = stream_close K"
  "c_is_open (stream_iface K) = stream_is_open"
  "c_await_data (stream_iface K) = stream_await_data K"
  "c_has_data (stream_iface K) = stream_has_data K" "c_write (stream_iface K) = stream_write K"
  "c_read (stream_iface K) = stream_read K"
  by (simp_all add: stream_iface_def)

section \<open>The contract of the interface\<close>

text \<open>A closed socket has no client connection either.\<close>

definition stream_inv :: "stream_socket \<times> 'w \<Rightarrow> bool" where
  "stream_inv = (\<lambda>(s, w). length (st_buffer s) = BUFFER_SIZE \<and>
     (st_sfd s = - 1 \<longrightarrow> st_cfd s = - 1) \<and> (\<not> st_unix s \<longrightarrow> snd (st_parameters s) \<noteq> None))"

definition stream_seq :: "stream_socket \<times> 'w \<Rightarrow> u32" where
  "stream_seq = (\<lambda>(s, w). st_last_id s)"

lemma stream_new_inv:
  "stream_inv (stream_new_unix path server, w)" "stream_inv (stream_new_inet addr port server, w)"
  by (simp_all add: stream_inv_def stream_new_unix_def stream_new_inet_def)

lemma stream_write_eq:
  assumes "length (st_buffer s) = 528" and "st_sfd s \<noteq> - 1"
    and "os_clock K w = (ts, w1)"
    and "os_send K (st_sfd s) (message_bytes (st_last_id s + 1) ts obj) w1 = (res, w2)"
  shows "stream_write K obj (s, w) =
    (if length (object_bytes obj) \<le> 512
     then Inr (res \<noteq> - 1,
       s\<lparr>st_last_id := st_last_id s + 1,
         st_buffer := staged (st_last_id s + 1) ts obj (st_buffer s)\<rparr>, w2)
     else Inr (False, s, w1))"
  using assms by (simp add: stream_write_def get_timestamp_def framing)

lemma stream_write_result:
  assumes "stream_inv h"
  shows "\<exists>b h'. stream_write K obj h = Inr (b, h') \<and> stream_inv h' \<and>
    stream_is_open h' = stream_is_open h \<and>
    (b \<longrightarrow> stream_is_open h \<and> length (object_bytes obj) \<le> body_capacity \<and>
          stream_seq h' = stream_seq h + 1)"
proof -
  obtain s w where h: "h = (s, w)" by (cases h)
  have len: "length (st_buffer s) = 528"
    using assms by (simp add: h stream_inv_def)
  show ?thesis
  proof (cases "st_sfd s = - 1")
    case True
    with assms show ?thesis
      by (auto simp: h stream_write_def stream_is_open_def)
  next
    case False
    obtain ts w1 where clock: "os_clock K w = (ts, w1)" by (cases "os_clock K w")
    obtain res w2 where sent:
      "os_send K (st_sfd s) (message_bytes (st_last_id s + 1) ts obj) w1 = (res, w2)"
      by fastforce
    show ?thesis
      using stream_write_eq [OF len False clock sent] len False assms
      by (auto simp: h stream_inv_def stream_is_open_def stream_seq_def)
  qed
qed

text \<open>
  The receive loops keep the length of the buffer and end with one of the errors the code names.
  Both facts are about returning runs only; that the loops do return is the subject of the stream
  transport below.
\<close>

lemma recv_header_result:
  assumes "recv_header K fd amount buf w = Some (Inr (e, buf', w'))"
  shows "length buf' = length buf \<and>
    e \<in> {None, Some NO_DATA_AVAILABLE, Some READ_ERROR, Some CONNECTION_CLOSED}"
  by (rule recv_header.raw_induct
      [where P = "\<lambda>K fd amount buf w r. \<forall>e buf' w'. r = Inr (e, buf', w') \<longrightarrow>
        length buf' = length buf \<and>
        e \<in> {None, Some NO_DATA_AVAILABLE, Some READ_ERROR, Some CONNECTION_CLOSED}",
      OF _ assms, rule_format, OF _ refl])
    (fastforce simp: Let_def dest: mem_store_length
      split: if_splits sum.splits io_result.splits prod.splits)

lemma recv_body_result:
  assumes "recv_body K fd wanted amount buf w = Some (Inr (e, buf', w'))"
  shows "length buf' = length buf \<and> e \<in> {None, Some READ_ERROR, Some CONNECTION_CLOSED}"
  by (rule recv_body.raw_induct
      [where P = "\<lambda>K fd wanted amount buf w r. \<forall>e buf' w'. r = Inr (e, buf', w') \<longrightarrow>
        length buf' = length buf \<and> e \<in> {None, Some READ_ERROR, Some CONNECTION_CLOSED}",
      OF _ assms, rule_format, OF _ refl])
    (fastforce simp: Let_def dest: mem_store_length
      split: if_splits sum.splits io_result.splits prod.splits)

lemma stream_read_result:
  assumes "stream_inv h" and "stream_read K h = Some (Inr (r, h'))"
  shows "stream_inv h' \<and> stream_is_open h' = stream_is_open h \<and> stream_seq h' = stream_seq h \<and>
    typed_result r"
  using assms
  by (auto simp: stream_inv_def stream_is_open_def stream_seq_def stream_read_def framing res_simps
      dest!: recv_header_result recv_body_result typed_of_body
      split: if_splits option.splits sum.splits prod.splits)

lemma stream_closed_calls:
  assumes "stream_inv h" and "\<not> stream_is_open h"
  shows "stream_write K obj h = Inr (False, h)"
    and "stream_read K h = Some (Inr (Inl CONNECTION_CLOSED, h))"
    and "stream_await_data K h = (False, h)" and "stream_close K h = (False, h)"
  using assms
  by (cases h; simp add: stream_defs stream_inv_def stream_accept_def stream_write_def
      stream_read_def)+

lemma stream_build_address_frame [simp]:
  "st_buffer (snd (stream_build_address K s)) = st_buffer s"
  "st_last_id (snd (stream_build_address K s)) = st_last_id s"
  "st_unix (snd (stream_build_address K s)) = st_unix s"
  "st_parameters (snd (stream_build_address K s)) = st_parameters s"
  "st_sfd (snd (stream_build_address K s)) = st_sfd s"
  "st_cfd (snd (stream_build_address K s)) = st_cfd s"
  by (auto simp: stream_build_address_def Let_def split: if_splits prod.splits)

text \<open>What creating a socket leaves alone, and that a created socket has a descriptor.\<close>

definition stream_created :: "stream_socket \<Rightarrow> bool \<Rightarrow> stream_socket \<Rightarrow> bool" where
  "stream_created s b s' \<longleftrightarrow>
     st_buffer s' = st_buffer s \<and> st_last_id s' = st_last_id s \<and> st_unix s' = st_unix s \<and>
     st_parameters s' = st_parameters s \<and> st_cfd s' = st_cfd s \<and> (b \<longrightarrow> st_sfd s' \<noteq> - 1)"

lemma stream_create_server_frame:
  assumes "stream_create_server K (s, w) = (b, s', w')"
  shows "stream_created s b s'"
  using assms
  by (auto simp: stream_create_server_def stream_created_def Let_def case_prod_beta split: if_splits)

lemma stream_create_client_frame:
  assumes "stream_create_client K (s, w) = (b, s', w')"
  shows "stream_created s b s'"
  using assms
  by (auto simp: stream_create_client_def stream_created_def Let_def case_prod_beta split: if_splits)

lemma stream_close_frame:
  assumes "stream_close K (s, w) = (b, s', w')"
  shows "st_buffer s' = st_buffer s \<and> st_last_id s' = st_last_id s \<and> st_unix s' = st_unix s \<and>
    st_parameters s' = st_parameters s \<and> st_sfd s' = - 1 \<and>
    st_cfd s' = (if st_sfd s = - 1 then st_cfd s else - 1) \<and> b = (st_sfd s \<noteq> - 1)"
  using assms by (auto simp: stream_close_def Let_def split: if_splits)

lemma stream_open_result:
  assumes "stream_inv h" and "stream_open K h = (b, h')"
  shows "stream_inv h' \<and> stream_is_open h' = b \<and> stream_seq h' = stream_seq h"
proof -
  obtain s w where h: "h = (s, w)" by (cases h)
  obtain c s1 w1 where created:
    "(if st_server s then stream_create_server K (s, w) else stream_create_client K (s, w)) =
      (c, s1, w1)"
    by (metis surj_pair)
  have frame: "stream_created s c s1"
  proof (cases "st_server s")
    case True
    with created have "stream_create_server K (s, w) = (c, s1, w1)" by simp
    then show ?thesis by (rule stream_create_server_frame)
  next
    case False
    with created have "stream_create_client K (s, w) = (c, s1, w1)" by simp
    then show ?thesis by (rule stream_create_client_frame)
  qed
  obtain b2 s2 w2 where closed: "stream_close K (s1, w1) = (b2, s2, w2)"
    by (metis surj_pair)
  show ?thesis
  proof (cases "st_sfd s = - 1")
    case True
    have "stream_open K h = (if c then (True, s1, w1) else (False, s2, w2))"
      unfolding h stream_open_def prod.case created Let_def using True closed by simp
    with assms(2) have "b = c" and "h' = (if c then (s1, w1) else (s2, w2))"
      by (simp_all split: if_splits)
    with assms(1) True frame stream_close_frame [OF closed] show ?thesis
      by (simp add: h stream_created_def stream_inv_def stream_is_open_def stream_seq_def)
  next
    case False
    with assms show ?thesis
      by (auto simp: h stream_open_def stream_is_open_def)
  qed
qed

lemma stream_accept_frame:
  assumes "stream_accept K (s, w) = (b, s', w')"
  shows "st_buffer s' = st_buffer s \<and> st_last_id s' = st_last_id s \<and> st_unix s' = st_unix s \<and>
    st_parameters s' = st_parameters s \<and> st_sfd s' = st_sfd s \<and>
    (st_sfd s = - 1 \<longrightarrow> s' = s \<and> \<not> b) \<and> (b \<longrightarrow> st_cfd s' \<noteq> - 1)"
  using assms by (auto simp: stream_accept_def Let_def split: if_splits prod.splits)

lemma stream_await_result:
  assumes "stream_inv h" and "stream_await_data K h = (b, h')"
  shows "stream_inv h' \<and> stream_is_open h' = stream_is_open h \<and> stream_seq h' = stream_seq h"
proof -
  obtain s w where h: "h = (s, w)" by (cases h)
  obtain c s1 w1 where accepted: "stream_accept K (s, w) = (c, s1, w1)"
    by (metis surj_pair)
  show ?thesis
    using assms stream_accept_frame [OF accepted]
    by (auto simp: h stream_await_data_def accepted stream_inv_def stream_is_open_def
        stream_seq_def Let_def split: if_splits prod.splits)
qed

lemma stream_lifecycle:
  assumes "stream_inv h"
  shows "stream_is_open h \<Longrightarrow> stream_open K h = (True, h)"
    and "stream_close K h = (b, h') \<Longrightarrow>
      stream_inv h' \<and> \<not> stream_is_open h' \<and> b = stream_is_open h \<and> stream_seq h' = stream_seq h"
    and "stream_has_data K h = (b, h') \<Longrightarrow>
      stream_inv h' \<and> stream_is_open h' = stream_is_open h \<and> stream_seq h' = stream_seq h"
  using assms
  by (auto simp: stream_defs stream_inv_def stream_seq_def Let_def split: prod.splits if_splits)

lemmas stream_contract = stream_open_result stream_lifecycle stream_await_result
  stream_closed_calls stream_read_result stream_write_result

interpretation stream: comm_handler "stream_iface K" stream_inv stream_seq body_capacity
  for K :: "'w sock_os"
  by unfold_locales (unfold stream_iface_simps, (rule stream_contract; assumption)+)

end
