(* ===== verification/Channel.thy ===== *)
theory Channel
  imports Comm_Interface "HOL-Library.Sublist"
begin

text \<open>
  Two handlers of the same kind, one writing and one reading, over one world: the end-to-end view
  of a transport.  A run interleaves writes and reads in any order and keeps a log.  The locales
  \<open>lossy_channel\<close> and \<open>message_channel\<close> state what a transport owes to its users in terms of the
  messages in transit; the handler theories on top of this one derive those laws from the code of
  \<open>write\<close> and \<open>read\<close> and the laws of the operating system.
\<close>

section \<open>Messages in transit\<close>

type_synonym message = "data_header \<times> data_object"

fun wire :: "message \<Rightarrow> byte list" where
  "wire (h, obj) = header_bytes h @ object_bytes obj"

text \<open>A message as a handler makes it: the header describes the body, which fits its buffer.\<close>

fun sound_message :: "message \<Rightarrow> bool" where
  "sound_message (h, obj) \<longleftrightarrow>
     h_type h = get_type obj \<and> unat (h_body_size h) = length (object_bytes obj) \<and>
     length (object_bytes obj) \<le> body_capacity"

lemma wire_header_of [simp]: "wire (header_of ident ts obj, obj) = message_bytes ident ts obj"
  by (simp add: message_bytes_def)

lemma sound_header_of [simp]:
  "sound_message (header_of ident ts obj, obj) \<longleftrightarrow> length (object_bytes obj) \<le> body_capacity"
  by auto

lemma sound_canonical: "sound_message (h, obj) \<Longrightarrow> canonical_type (h_type h)"
  by simp

lemma decode_sound: "sound_message (h, obj) \<Longrightarrow> decode_object (h_type h) (object_bytes obj) = Inr obj"
  by simp

section \<open>Runs\<close>

datatype action = Send data_object | Receive

record 'c run_state =
  rs_conf :: 'c
  rs_sent :: "data_object list"
  rs_failed :: nat
  rs_received :: "message list"
  rs_errors :: "comm_error list"

definition start_run :: "'c \<Rightarrow> 'c run_state" where
  "start_run c = \<lparr>rs_conf = c, rs_sent = [], rs_failed = 0, rs_received = [], rs_errors = []\<rparr>"

definition channel_send ::
  "('a \<times> 'w) comm_iface \<Rightarrow> data_object \<Rightarrow> 'a \<times> 'b \<times> 'w \<Rightarrow> (bool \<times> ('a \<times> 'b \<times> 'w)) res" where
  "channel_send I obj = (\<lambda>(a, b, w).
     and_then (c_write I obj (a, w)) (\<lambda>(ok, a, w). Inr (ok, a, b, w)))"

definition channel_receive ::
  "('b \<times> 'w) comm_iface \<Rightarrow> 'a \<times> 'b \<times> 'w \<Rightarrow> (read_result \<times> ('a \<times> 'b \<times> 'w)) res option" where
  "channel_receive I = (\<lambda>(a, b, w).
     map_option (\<lambda>res. and_then res (\<lambda>(r, b, w). Inr (r, a, b, w))) (c_read I (b, w)))"

fun channel_step ::
  "(data_object \<Rightarrow> 'c \<Rightarrow> (bool \<times> 'c) res) \<Rightarrow> ('c \<Rightarrow> (read_result \<times> 'c) res option) \<Rightarrow>
   action \<Rightarrow> 'c run_state \<Rightarrow> 'c run_state res option" where
  "channel_step snd_op rcv_op (Send obj) s =
     Some (and_then (snd_op obj (rs_conf s)) (\<lambda>(ok, c).
       Inr (if ok then s\<lparr>rs_conf := c, rs_sent := rs_sent s @ [obj]\<rparr>
            else s\<lparr>rs_conf := c, rs_failed := Suc (rs_failed s)\<rparr>)))"
| "channel_step snd_op rcv_op Receive s =
     map_option (\<lambda>res. and_then res (\<lambda>(r, c).
       Inr (case r of
              Inr m \<Rightarrow> s\<lparr>rs_conf := c, rs_received := rs_received s @ [m]\<rparr>
            | Inl e \<Rightarrow> s\<lparr>rs_conf := c, rs_errors := rs_errors s @ [e]\<rparr>)))
       (rcv_op (rs_conf s))"

fun channel_run ::
  "(data_object \<Rightarrow> 'c \<Rightarrow> (bool \<times> 'c) res) \<Rightarrow> ('c \<Rightarrow> (read_result \<times> 'c) res option) \<Rightarrow>
   action list \<Rightarrow> 'c run_state \<Rightarrow> 'c run_state res option" where
  "channel_run snd_op rcv_op [] s = Some (Inr s)"
| "channel_run snd_op rcv_op (a # as) s =
     (case channel_step snd_op rcv_op a s of
        None \<Rightarrow> None
      | Some (Inl f) \<Rightarrow> Some (Inl f)
      | Some (Inr s') \<Rightarrow> channel_run snd_op rcv_op as s')"

lemma channel_run_append:
  "channel_run snd_op rcv_op as s = Some (Inr s') \<Longrightarrow>
     channel_run snd_op rcv_op (as @ bs) s = channel_run snd_op rcv_op bs s'"
  by (induction as arbitrary: s) (auto split: option.splits sum.splits)

text \<open>
  What a run keeps true of its log: the received objects, followed by those in transit, are related
  to the sent ones, and reads failed only for lack of data.
\<close>

definition run_tracks ::
  "('c \<Rightarrow> message list \<Rightarrow> bool) \<Rightarrow> (data_object list \<Rightarrow> data_object list \<Rightarrow> bool) \<Rightarrow>
   'c run_state \<Rightarrow> bool" where
  "run_tracks carries rel s \<longleftrightarrow>
     (\<exists>ms. carries (rs_conf s) ms \<and> rel (map snd (rs_received s) @ map snd ms) (rs_sent s)) \<and>
     set (rs_errors s) \<subseteq> {NO_DATA_AVAILABLE}"

text \<open>
  The stronger statement for a transport that loses nothing; \<open>numbers first n\<close> are the sequence
  numbers of \<open>n\<close> messages after \<open>first\<close>.
\<close>

definition numbers :: "u32 \<Rightarrow> nat \<Rightarrow> u32 list" where
  "numbers first n = map (\<lambda>i. first + 1 + of_nat i) [0..<n]"

lemma numbers_Suc: "numbers first (Suc n) = numbers first n @ [first + of_nat n + 1]"
  by (simp add: numbers_def)

definition run_ordered ::
  "('c \<Rightarrow> message list \<Rightarrow> bool) \<Rightarrow> ('c \<Rightarrow> u32) \<Rightarrow> u32 \<Rightarrow> 'c run_state \<Rightarrow> bool" where
  "run_ordered carries seq first s \<longleftrightarrow>
     (\<exists>ms. carries (rs_conf s) ms \<and> map snd (rs_received s @ ms) = rs_sent s \<and>
       (rs_failed s = 0 \<longrightarrow> seq (rs_conf s) = first + of_nat (length (rs_sent s)) \<and>
          map (h_id \<circ> fst) (rs_received s @ ms) = numbers first (length (rs_sent s)))) \<and>
     set (rs_errors s) \<subseteq> {NO_DATA_AVAILABLE}"

section \<open>Channels that may lose messages\<close>

text \<open>
  \<open>carries c ms\<close> says that \<open>c\<close> is a working pair of handlers with the messages \<open>ms\<close> in transit,
  \<open>seq c\<close> is the writer's last sequence number, and \<open>delay c\<close> bounds how many more reads find
  nothing although a message is in transit.
\<close>

locale message_sender =
  fixes snd_op :: "data_object \<Rightarrow> 'c \<Rightarrow> (bool \<times> 'c) res"
    and carries :: "'c \<Rightarrow> message list \<Rightarrow> bool"
    and seq :: "'c \<Rightarrow> u32"
  assumes send_law: "carries c ms \<Longrightarrow> \<exists>ok c' h. snd_op obj c = Inr (ok, c') \<and>
      (ok \<longrightarrow> seq c' = seq c + 1 \<and> h_id h = seq c') \<and>
      (carries c' ms \<or> ok \<and> carries c' (ms @ [(h, obj)]))"

locale lossy_channel = message_sender snd_op carries seq
  for snd_op :: "data_object \<Rightarrow> 'c \<Rightarrow> (bool \<times> 'c) res"
    and rcv_op :: "'c \<Rightarrow> (read_result \<times> 'c) res option"
    and carries :: "'c \<Rightarrow> message list \<Rightarrow> bool"
    and seq :: "'c \<Rightarrow> u32"
    and delay :: "'c \<Rightarrow> nat" +
  assumes receive_law: "carries c (m # ms) \<Longrightarrow> \<exists>r c'. rcv_op c = Some (Inr (r, c')) \<and> seq c' = seq c \<and>
      (r = Inr m \<and> carries c' ms \<or>
       r = Inl NO_DATA_AVAILABLE \<and> carries c' (m # ms) \<and> delay c' < delay c)"
    and receive_empty: "carries c [] \<Longrightarrow> \<exists>c'. rcv_op c = Some (Inr (Inl NO_DATA_AVAILABLE, c')) \<and>
      seq c' = seq c \<and> carries c' []"
begin

lemma receive_cases:
  assumes "carries c ms"
  obtains (empty) c' where "rcv_op c = Some (Inr (Inl NO_DATA_AVAILABLE, c'))" "carries c' ms"
      "seq c' = seq c"
  | (message) m ms' c' where "ms = m # ms'" "rcv_op c = Some (Inr (Inr m, c'))" "carries c' ms'"
      "seq c' = seq c"
proof (cases ms)
  case Nil
  with assms receive_empty empty show ?thesis by blast
next
  case (Cons m ms')
  with assms receive_law [of c m ms'] empty message show ?thesis by blast
qed

lemma selection_step:
  assumes "run_tracks carries subseq s"
  shows "\<exists>s'. channel_step snd_op rcv_op a s = Some (Inr s') \<and> run_tracks carries subseq s'"
proof -
  obtain ms where ms: "carries (rs_conf s) ms"
      "subseq (map snd (rs_received s) @ map snd ms) (rs_sent s)"
    and errs: "set (rs_errors s) \<subseteq> {NO_DATA_AVAILABLE}"
    using assms unfolding run_tracks_def by blast
  show ?thesis
  proof (cases a)
    case (Send obj)
    obtain ok c' h where sent: "snd_op obj (rs_conf s) = Inr (ok, c')"
      and kept: "carries c' ms \<or> ok \<and> carries c' (ms @ [(h, obj)])"
      using send_law [OF ms(1), of obj] by blast
    from ms(2) have "subseq ((map snd (rs_received s) @ map snd ms) @ [obj]) (rs_sent s @ [obj])"
      by (rule list_emb_append_mono) simp
    with kept sent ms(2) errs show ?thesis
      by (auto simp: Send run_tracks_def intro: subseq_rev_drop_many exI [of _ "ms @ [(h, obj)]"])
  next
    case Receive
    show ?thesis
      using ms(1)
    proof (cases rule: receive_cases)
      case (empty c')
      with ms(2) errs show ?thesis
        by (auto simp: Receive run_tracks_def)
    next
      case (message m ms' c')
      with ms(2) errs show ?thesis
        by (auto simp: Receive run_tracks_def)
    qed
  qed
qed

lemma run_selection:
  assumes "run_tracks carries subseq s"
  shows "\<exists>s'. channel_run snd_op rcv_op as s = Some (Inr s') \<and> run_tracks carries subseq s'"
  using assms
proof (induction as arbitrary: s)
  case Nil
  then show ?case by simp
next
  case (Cons a as)
  from selection_step [OF Cons.prems, of a] obtain s1
    where "channel_step snd_op rcv_op a s = Some (Inr s1)" "run_tracks carries subseq s1"
    by blast
  with Cons.IH [of s1] show ?case by simp
qed

text \<open>No run faults or hangs, nothing is invented, altered, duplicated or reordered.\<close>

lemma run_subsequence:
  assumes "carries c []"
  shows "\<exists>s. channel_run snd_op rcv_op as (start_run c) = Some (Inr s) \<and>
    subseq (map snd (rs_received s)) (rs_sent s) \<and> set (rs_errors s) \<subseteq> {NO_DATA_AVAILABLE}"
proof -
  have "run_tracks carries subseq (start_run c)"
    using assms by (auto simp: run_tracks_def start_run_def)
  from run_selection [OF this, of as] obtain s
    where run: "channel_run snd_op rcv_op as (start_run c) = Some (Inr s)" and sel: "run_tracks carries subseq s"
    by blast
  then show ?thesis
    unfolding run_tracks_def by (metis prefixI prefix_imp_subseq subseq_order.order_trans)
qed

end

section \<open>Reliable channels\<close>

locale reliable_sender = message_sender +
  assumes reliable_law: "carries c ms \<Longrightarrow> snd_op obj c = Inr (True, c') \<Longrightarrow>
      \<exists>h. h_id h = seq c' \<and> carries c' (ms @ [(h, obj)])"
    and send_failed: "carries c ms \<Longrightarrow> snd_op obj c = Inr (False, c') \<Longrightarrow> carries c' ms"
begin

lemma reliable_cases:
  assumes "carries c ms"
  obtains (sent) h c' where "snd_op obj c = Inr (True, c')" "carries c' (ms @ [(h, obj)])"
      "h_id h = seq c'" "seq c' = seq c + 1"
  | (failed) c' where "snd_op obj c = Inr (False, c')" "carries c' ms"
proof -
  obtain ok c' where res: "snd_op obj c = Inr (ok, c')" "ok \<longrightarrow> seq c' = seq c + 1"
    using send_law [OF assms, of obj] by blast
  show ?thesis
  proof (cases ok)
    case True
    with res have res': "snd_op obj c = Inr (True, c')" and next_seq: "seq c' = seq c + 1"
      by simp_all
    from reliable_law [OF assms res'] obtain h where "h_id h = seq c'" "carries c' (ms @ [(h, obj)])"
      by blast
    then show ?thesis
      using sent res' next_seq by blast
  next
    case False
    with res send_failed [OF assms] failed show ?thesis
      by auto
  qed
qed

end

locale message_channel = lossy_channel snd_op rcv_op carries seq delay + reliable_sender snd_op carries seq
  for snd_op :: "data_object \<Rightarrow> 'c \<Rightarrow> (bool \<times> 'c) res"
    and rcv_op :: "'c \<Rightarrow> (read_result \<times> 'c) res option"
    and carries :: "'c \<Rightarrow> message list \<Rightarrow> bool"
    and seq :: "'c \<Rightarrow> u32"
    and delay :: "'c \<Rightarrow> nat"
begin

text \<open>
  The log of a reliable channel: what was received, followed by what is in transit, is exactly what
  was sent; as long as no write failed, the messages carry consecutive sequence numbers.
\<close>

lemma in_order_step:
  assumes "run_ordered carries seq first s"
  shows "\<exists>s'. channel_step snd_op rcv_op a s = Some (Inr s') \<and> run_ordered carries seq first s'"
proof -
  obtain ms where ms: "carries (rs_conf s) ms" "map snd (rs_received s @ ms) = rs_sent s"
    and num: "rs_failed s = 0 \<longrightarrow> seq (rs_conf s) = first + of_nat (length (rs_sent s)) \<and>
      map (h_id \<circ> fst) (rs_received s @ ms) = numbers first (length (rs_sent s))"
    and errs: "set (rs_errors s) \<subseteq> {NO_DATA_AVAILABLE}"
    using assms unfolding run_ordered_def by (elim exE conjE) (rule that)
  show ?thesis
  proof (cases a)
    case (Send obj)
    from ms(1) show ?thesis
    proof (cases rule: reliable_cases [where obj = obj])
      case (sent h c')
      with num have "rs_failed s = 0 \<longrightarrow>
          map (h_id \<circ> fst) (rs_received s @ ms @ [(h, obj)]) = numbers first (Suc (length (rs_sent s)))"
        by (auto simp: numbers_Suc)
      with sent ms errs num show ?thesis
        by (auto simp: Send run_ordered_def intro!: exI [of _ "ms @ [(h, obj)]"])
    next
      case (failed c')
      with ms errs show ?thesis
        by (auto simp: Send run_ordered_def)
    qed
  next
    case Receive
    from ms(1) show ?thesis
    proof (cases rule: receive_cases)
      case (empty c')
      with ms(2) errs num show ?thesis
        by (auto simp: Receive run_ordered_def)
    next
      case (message m ms' c')
      with ms(2) errs num show ?thesis
        by (auto simp: Receive run_ordered_def intro!: exI [of _ ms'])
    qed
  qed
qed

lemma run_in_order_from:
  assumes "run_ordered carries seq first s"
  shows "\<exists>s'. channel_run snd_op rcv_op as s = Some (Inr s') \<and> run_ordered carries seq first s'"
  using assms
proof (induction as arbitrary: s)
  case Nil
  then show ?case by simp
next
  case (Cons a as)
  from in_order_step [OF Cons.prems, of a] obtain s1
    where "channel_step snd_op rcv_op a s = Some (Inr s1)" "run_ordered carries seq first s1"
    by blast
  with Cons.IH [of s1] show ?case by simp
qed

lemma run_in_order:
  assumes "carries c []"
  shows "\<exists>s. channel_run snd_op rcv_op as (start_run c) = Some (Inr s) \<and>
    run_ordered carries seq (seq c) s"
  by (rule run_in_order_from) (use assms in \<open>simp add: run_ordered_def start_run_def numbers_def\<close>)

text \<open>A finite number of reads delivers everything in transit.\<close>

lemma receive_one:
  assumes "carries c (m # ms)" and "rs_conf s = c"
  shows "\<exists>n s'. channel_run snd_op rcv_op (replicate n Receive) s = Some (Inr s') \<and>
    carries (rs_conf s') ms \<and> rs_received s' = rs_received s @ [m] \<and> rs_sent s' = rs_sent s"
  using assms
proof (induction "delay c" arbitrary: c s rule: less_induct)
  case less
  from receive_law [OF less.prems(1)] obtain r c' where step: "rcv_op c = Some (Inr (r, c'))"
    and r: "r = Inr m \<and> carries c' ms \<or>
      r = Inl NO_DATA_AVAILABLE \<and> carries c' (m # ms) \<and> delay c' < delay c"
    by blast
  from r show ?case
  proof (elim disjE conjE)
    assume "r = Inr m" and "carries c' ms"
    with step less.prems(2) show ?thesis
      by (intro exI [of _ 1]) simp
  next
    assume none: "r = Inl NO_DATA_AVAILABLE" and c': "carries c' (m # ms)" "delay c' < delay c"
    define s1 where "s1 = s\<lparr>rs_conf := c', rs_errors := rs_errors s @ [NO_DATA_AVAILABLE]\<rparr>"
    have "rs_conf s1 = c'" by (simp add: s1_def)
    from less.hyps [OF c'(2) c'(1) this] obtain n s' where
      "channel_run snd_op rcv_op (replicate n Receive) s1 = Some (Inr s')"
      "carries (rs_conf s') ms" "rs_received s' = rs_received s1 @ [m]" "rs_sent s' = rs_sent s1"
      by blast
    with step none less.prems(2) show ?thesis
      by (intro exI [of _ "Suc n"]) (simp add: s1_def)
  qed
qed

lemma drain:
  assumes "carries (rs_conf s) ms"
  shows "\<exists>n s'. channel_run snd_op rcv_op (replicate n Receive) s = Some (Inr s') \<and>
    carries (rs_conf s') [] \<and> rs_received s' = rs_received s @ ms \<and> rs_sent s' = rs_sent s"
  using assms
proof (induction ms arbitrary: s)
  case Nil
  then show ?case by (intro exI [of _ 0]) simp
next
  case (Cons m ms)
  from receive_one [OF Cons.prems refl] obtain n s1 where one:
    "channel_run snd_op rcv_op (replicate n Receive) s = Some (Inr s1)"
    "carries (rs_conf s1) ms" "rs_received s1 = rs_received s @ [m]" "rs_sent s1 = rs_sent s"
    by blast
  from Cons.IH [OF one(2)] obtain n' s' where rest:
    "channel_run snd_op rcv_op (replicate n' Receive) s1 = Some (Inr s')"
    "carries (rs_conf s') []" "rs_received s' = rs_received s1 @ ms" "rs_sent s' = rs_sent s1"
    by blast
  have "channel_run snd_op rcv_op (replicate (n + n') Receive) s = Some (Inr s')"
    by (simp add: replicate_add channel_run_append [OF one(1)] rest(1))
  with one rest show ?case by force
qed

lemma run_then_drain:
  assumes "carries c []"
  shows "\<exists>n s. channel_run snd_op rcv_op (as @ replicate n Receive) (start_run c) = Some (Inr s) \<and>
    map snd (rs_received s) = rs_sent s \<and>
    (rs_failed s = 0 \<longrightarrow> map (h_id \<circ> fst) (rs_received s) = numbers (seq c) (length (rs_sent s))) \<and>
    set (rs_errors s) \<subseteq> {NO_DATA_AVAILABLE}"
proof -
  obtain s ms where run: "channel_run snd_op rcv_op as (start_run c) = Some (Inr s)"
    and ms: "carries (rs_conf s) ms" "map snd (rs_received s @ ms) = rs_sent s"
    using run_in_order [OF assms] unfolding run_ordered_def by blast
  from drain [OF ms(1)] obtain n s' where
    rest: "channel_run snd_op rcv_op (replicate n Receive) s = Some (Inr s')"
    "rs_received s' = rs_received s @ ms" "rs_sent s' = rs_sent s"
    by blast
  then have all: "channel_run snd_op rcv_op (as @ replicate n Receive) (start_run c) = Some (Inr s')"
    and same: "map snd (rs_received s') = rs_sent s'"
    using ms(2) by (simp_all add: channel_run_append [OF run])
  from run_in_order [OF assms, of "as @ replicate n Receive"] all
  obtain ms' where ms': "map snd (rs_received s' @ ms') = rs_sent s'"
      "rs_failed s' = 0 \<longrightarrow>
         map (h_id \<circ> fst) (rs_received s' @ ms') = numbers (seq c) (length (rs_sent s'))"
    and errs: "set (rs_errors s') \<subseteq> {NO_DATA_AVAILABLE}"
    unfolding run_ordered_def by auto
  from ms'(1) same have "ms' = []"
    by (metis append_self_conv map_append map_is_Nil_conv)
  with ms'(2) all same errs show ?thesis
    by (intro exI [of _ n] exI [of _ s']) simp
qed

end

section \<open>Channels without order\<close>

text \<open>
  A transport that may lose, delay, reorder and duplicate messages: \<open>carries c M\<close> says that every message
  that can still arrive is one of \<open>M\<close>, the messages sent so far.
\<close>

locale unordered_channel =
  fixes snd_op :: "data_object \<Rightarrow> 'c \<Rightarrow> (bool \<times> 'c) res"
    and rcv_op :: "'c \<Rightarrow> (read_result \<times> 'c) res option"
    and carries :: "'c \<Rightarrow> message set \<Rightarrow> bool"
    and seq :: "'c \<Rightarrow> u32"
  assumes send_any: "carries c M \<Longrightarrow> \<exists>ok c' h. snd_op obj c = Inr (ok, c') \<and>
      (if ok then seq c' = seq c + 1 \<and> h_id h = seq c' \<and> carries c' (insert (h, obj) M)
       else carries c' M)"
    and receive_any: "carries c M \<Longrightarrow> \<exists>r c'. rcv_op c = Some (Inr (r, c')) \<and> seq c' = seq c \<and>
      carries c' M \<and> (case r of Inr m \<Rightarrow> m \<in> M | Inl e \<Rightarrow> e = NO_DATA_AVAILABLE)"
begin

text \<open>What a run keeps true: everything received is one of the messages \<open>hist\<close> that were sent.\<close>

definition run_genuine :: "u32 \<Rightarrow> message list \<Rightarrow> 'c run_state \<Rightarrow> bool" where
  "run_genuine first hist s \<longleftrightarrow>
     carries (rs_conf s) (set hist) \<and> map snd hist = rs_sent s \<and> set (rs_received s) \<subseteq> set hist \<and>
     (rs_failed s = 0 \<longrightarrow> seq (rs_conf s) = first + of_nat (length (rs_sent s)) \<and>
        map (h_id \<circ> fst) hist = numbers first (length (rs_sent s))) \<and>
     set (rs_errors s) \<subseteq> {NO_DATA_AVAILABLE}"

lemma genuine_step:
  assumes "run_genuine first hist s"
  shows "\<exists>s' hist'. channel_step snd_op rcv_op a s = Some (Inr s') \<and> run_genuine first hist' s'"
proof (cases a)
  case (Send obj)
  from assms have "carries (rs_conf s) (set hist)"
    by (simp add: run_genuine_def)
  from send_any [OF this, of obj] obtain ok c' h where sent: "snd_op obj (rs_conf s) = Inr (ok, c')"
    and c': "if ok then seq c' = seq (rs_conf s) + 1 \<and> h_id h = seq c' \<and> carries c' (insert (h, obj) (set hist))
      else carries c' (set hist)"
    by blast
  show ?thesis
  proof (cases ok)
    case True
    with sent c' assms show ?thesis
      by (intro exI [of _ "s\<lparr>rs_conf := c', rs_sent := rs_sent s @ [obj]\<rparr>"] exI [of _ "hist @ [(h, obj)]"])
        (auto simp: Send run_genuine_def numbers_Suc add.assoc)
  next
    case False
    with sent c' assms show ?thesis
      by (intro exI [of _ "s\<lparr>rs_conf := c', rs_failed := Suc (rs_failed s)\<rparr>"] exI [of _ hist])
        (auto simp: Send run_genuine_def)
  qed
next
  case Receive
  from assms have "carries (rs_conf s) (set hist)"
    by (simp add: run_genuine_def)
  from receive_any [OF this] obtain r c' where "rcv_op (rs_conf s) = Some (Inr (r, c'))"
      "seq c' = seq (rs_conf s)" "carries c' (set hist)"
      "case r of Inr m \<Rightarrow> m \<in> set hist | Inl e \<Rightarrow> e = NO_DATA_AVAILABLE"
    by blast
  with assms show ?thesis
    by (cases r) (auto simp: Receive run_genuine_def)
qed

lemma run_keeps_genuine:
  assumes "run_genuine first hist s"
  shows "\<exists>s' hist'. channel_run snd_op rcv_op as s = Some (Inr s') \<and> run_genuine first hist' s'"
  using assms
proof (induction as arbitrary: s hist)
  case Nil
  then show ?case by auto
next
  case (Cons a as)
  from genuine_step [OF Cons.prems, of a] obtain s1 hist1
    where "channel_step snd_op rcv_op a s = Some (Inr s1)" "run_genuine first hist1 s1"
    by blast
  with Cons.IH [of hist1 s1] show ?case by simp
qed

text \<open>No run faults or hangs, and nothing is invented or altered.\<close>

lemma run_receives_sent:
  assumes "carries c {}"
  shows "\<exists>s hist. channel_run snd_op rcv_op as (start_run c) = Some (Inr s) \<and>
    map snd hist = rs_sent s \<and> set (rs_received s) \<subseteq> set hist \<and>
    (rs_failed s = 0 \<longrightarrow> map (h_id \<circ> fst) hist = numbers (seq c) (length (rs_sent s))) \<and>
    set (rs_errors s) \<subseteq> {NO_DATA_AVAILABLE}"
proof -
  have "run_genuine (seq c) [] (start_run c)"
    using assms by (simp add: run_genuine_def start_run_def numbers_def)
  from run_keeps_genuine [OF this, of as] obtain s hist where
    "channel_run snd_op rcv_op as (start_run c) = Some (Inr s)" and "run_genuine (seq c) hist s"
    by (elim exE conjE) (rule that)
  then show ?thesis
    by (intro exI [of _ s] exI [of _ hist]) (simp add: run_genuine_def)
qed

end

end
