(* ===== verification/Fifo_Channel.thy ===== *)
theory Fifo_Channel
  imports Fifo Channel
begin

text \<open>
  The named pipe end to end.  The locale \<open>pipe_os\<close> states what POSIX promises of a pipe that holds
  less than its capacity: a write of at most \<open>PIPE_BUF\<close> bytes is atomic, a non-blocking read takes
  what is there.  From these laws and the code of \<open>fifo_write\<close> and \<open>fifo_read\<close> the pipe is a
  reliable channel.
\<close>

section \<open>The laws of a pipe\<close>

definition PIPE_BUF :: nat where
  "PIPE_BUF = 4096"

locale pipe_os =
  fixes K :: "'w fifo_os"
    and wfd :: int
    and rfd :: int
    and pipe :: "'w \<Rightarrow> byte list"
  assumes descriptors: "wfd \<noteq> - 1" "rfd \<noteq> - 1"
    and clock_pipe: "os_clock K w = (ts, w') \<Longrightarrow> pipe w' = pipe w"
    and write_pipe: "\<lbrakk>length bs \<le> PIPE_BUF; os_write K wfd bs w = (res, w')\<rbrakk> \<Longrightarrow>
      pipe w' = (if res = - 1 then pipe w else pipe w @ bs)"
    and read_pipe: "n = 0 \<or> pipe w \<noteq> [] \<Longrightarrow>
      \<exists>w'. os_read K rfd n w = (Transferred (take n (pipe w)), w') \<and> pipe w' = drop n (pipe w)"
    and read_empty: "\<lbrakk>pipe w = []; 0 < n\<rbrakk> \<Longrightarrow>
      \<exists>w'. os_read K rfd n w = (Failed EAGAIN, w') \<and> pipe w' = []"

text \<open>Both handlers are open on the pipe, which holds the wire form of the messages in transit.\<close>

definition fifo_carries ::
  "int \<Rightarrow> int \<Rightarrow> ('w \<Rightarrow> byte list) \<Rightarrow> fifo \<times> fifo \<times> 'w \<Rightarrow> message list \<Rightarrow> bool" where
  "fifo_carries wfd rfd pipe = (\<lambda>(sw, sr, w) ms.
     fifo_fd sw = wfd \<and> length (fifo_buffer sw) = BUFFER_SIZE \<and>
     fifo_fd sr = rfd \<and> length (fifo_buffer sr) = BUFFER_SIZE \<and>
     pipe w = concat (map wire ms) \<and> list_all sound_message ms)"

definition fifo_pair_seq :: "fifo \<times> fifo \<times> 'w \<Rightarrow> u32" where
  "fifo_pair_seq = (\<lambda>(sw, sr, w). fifo_last_id sw)"

section \<open>Reading one message\<close>

text \<open>What the read does when the pipe delivers the header and then the body of a sound message.\<close>

lemma fifo_read_message:
  assumes "length (fifo_buffer s) = 528" and "fifo_fd s \<noteq> - 1" and "sound_message (h, obj)"
    and "os_read K (fifo_fd s) 16 w = (Transferred (header_bytes h), w1)"
    and "os_read K (fifo_fd s) (length (object_bytes obj)) w1 = (Transferred (object_bytes obj), w2)"
  shows "\<exists>buf. length buf = 528 \<and>
    fifo_read K (s, w) = Inr (Inr (h, obj), s\<lparr>fifo_buffer := buf\<rparr>, w2)"
proof -
  define buf1 where "buf1 = header_bytes h @ drop 16 (fifo_buffer s)"
  define buf2 where "buf2 = object_bytes obj @ drop (length (object_bytes obj)) buf1"
  have len1: "length buf1 = 528"
    using assms(1) by (simp add: buf1_def)
  have store1: "mem_store (fifo_buffer s) 0 (header_bytes h) = Inr buf1"
    using assms(1) by (simp add: mem_store_ok buf1_def)
  have header: "header_deserialize buf1 0 (u32_of_size 16) = Inr (Some h)"
    using assms(3) by (simp add: deserialize_header [OF len1]) (simp add: buf1_def)
  have store2: "mem_store buf1 0 (object_bytes obj) = Inr buf2"
    using assms(3) len1 by (simp add: mem_store_ok buf2_def)
  have len2: "length buf2 = 528"
    using assms(3) len1 by (simp add: buf2_def)
  have body: "deserialize_data_object (h_type h) buf2 0 (ucast (h_body_size h)) = Inr (Inr obj)"
    using assms(3) len2
    by (subst deserialize_data_object_bytes) (simp_all add: region_def buf2_def)
  have size: "unat (h_body_size h) = length (object_bytes obj)"
    using assms(3) by simp
  have len_h: "length (header_bytes h) = 16"
    by simp
  then have "header_bytes h \<noteq> []"
    by (metis list.size(3) zero_neq_numeral)
  with assms(2,4,5) show ?thesis
    by (intro exI [of _ buf2])
      (simp add: fifo_read_def store1 header size store2 body len2)
qed

section \<open>The pipe is a reliable channel\<close>

lemma fifo_carries_open: "pipe_os K wfd rfd pipe \<Longrightarrow> fifo_carries wfd rfd pipe (sw, sr, w) ms \<Longrightarrow>
    fifo_is_open (sw, w) \<and> fifo_is_open (sr, w)"
  by (simp add: fifo_carries_def fifo_is_open_def pipe_os.descriptors)

context pipe_os
begin

lemma send_fifo:
  assumes "fifo_carries wfd rfd pipe c ms"
  shows "\<exists>ok c' h. channel_send (fifo_iface K) obj c = Inr (ok, c') \<and>
    (ok \<longrightarrow> fifo_pair_seq c' = fifo_pair_seq c + 1 \<and> h_id h = fifo_pair_seq c' \<and>
      fifo_carries wfd rfd pipe c' (ms @ [(h, obj)])) \<and>
    (\<not> ok \<longrightarrow> fifo_carries wfd rfd pipe c' ms)"
proof -
  obtain sw sr w where c: "c = (sw, sr, w)" by (metis prod_cases3)
  have len: "length (fifo_buffer sw) = 528" and fd: "fifo_fd sw = wfd"
    using assms by (simp_all add: c fifo_carries_def)
  have open': "fifo_fd sw \<noteq> - 1"
    using fd descriptors by simp
  obtain ts w1 where clock: "os_clock K w = (ts, w1)" by (cases "os_clock K w")
  obtain res w2 where
    sent: "os_write K (fifo_fd sw) (message_bytes (fifo_last_id sw + 1) ts obj) w1 = (res, w2)"
    by fastforce
  show ?thesis
  proof (cases "length (object_bytes obj) \<le> 512")
    case True
    define h where "h = header_of (fifo_last_id sw + 1) ts obj"
    have "length (message_bytes (fifo_last_id sw + 1) ts obj) \<le> PIPE_BUF"
      using True by (simp add: PIPE_BUF_def)
    from write_pipe [OF this] sent fd clock_pipe [OF clock]
    have "pipe w2 = (if res = - 1 then pipe w else pipe w @ wire (h, obj))"
      by (simp add: h_def message_bytes_def)
    with assms True len show ?thesis
      by (intro exI [of _ "res \<noteq> - 1"] exI exI [of _ h] conjI)
        (auto simp: c channel_send_def fifo_write_eq [OF len open' clock sent] fifo_pair_seq_def
          fifo_carries_def h_def)
  next
    case False
    with assms clock_pipe [OF clock] show ?thesis
      by (intro exI [of _ False]) (simp add: c channel_send_def fifo_write_eq [OF len open' clock sent] fifo_pair_seq_def
          fifo_carries_def)
  qed
qed

lemma receive_fifo:
  assumes "fifo_carries wfd rfd pipe c (m # ms)"
  shows "\<exists>c'. channel_receive (fifo_iface K) c = Some (Inr (Inr m, c')) \<and>
    fifo_pair_seq c' = fifo_pair_seq c \<and> fifo_carries wfd rfd pipe c' ms"
proof -
  obtain sw sr w where c: "c = (sw, sr, w)" by (metis prod_cases3)
  obtain h obj where m: "m = (h, obj)" by (cases m)
  have inv: "length (fifo_buffer sr) = 528" "fifo_fd sr = rfd" "sound_message (h, obj)"
    and content: "pipe w = header_bytes h @ object_bytes obj @ concat (map wire ms)"
    using assms by (simp_all add: c m fifo_carries_def)
  have len_h: "length (header_bytes h) = 16"
    by simp
  then have "pipe w \<noteq> []"
    unfolding content by (metis append_is_Nil_conv list.size(3) zero_neq_numeral)
  from read_pipe [OF disjI2 [OF this], of 16] obtain w1
    where r1: "os_read K rfd 16 w = (Transferred (header_bytes h), w1)"
      and p1: "pipe w1 = object_bytes obj @ concat (map wire ms)"
    by (auto simp: content)
  have "length (object_bytes obj) = 0 \<or> pipe w1 \<noteq> []"
    by (auto simp: p1)
  from read_pipe [OF this] obtain w2
    where r2: "os_read K rfd (length (object_bytes obj)) w1 = (Transferred (object_bytes obj), w2)"
      and p2: "pipe w2 = concat (map wire ms)"
    by (auto simp: p1)
  from inv(2) descriptors(2) have "fifo_fd sr \<noteq> - 1" by simp
  from fifo_read_message [OF inv(1) this inv(3)] r1 r2 inv(2) obtain buf
    where "length buf = 528" "fifo_read K (sr, w) = Inr (Inr (h, obj), sr\<lparr>fifo_buffer := buf\<rparr>, w2)"
    by metis
  with assms p2 show ?thesis
    by (simp add: c m channel_receive_def fifo_pair_seq_def fifo_carries_def)
qed

lemma receive_fifo_empty:
  assumes "fifo_carries wfd rfd pipe c []"
  shows "\<exists>c'. channel_receive (fifo_iface K) c = Some (Inr (Inl NO_DATA_AVAILABLE, c')) \<and>
    fifo_pair_seq c' = fifo_pair_seq c \<and> fifo_carries wfd rfd pipe c' []"
proof -
  obtain sw sr w where c: "c = (sw, sr, w)" by (metis prod_cases3)
  from assms have "pipe w = []" by (simp add: c fifo_carries_def)
  from read_empty [OF this, of 16] obtain w' where "os_read K rfd 16 w = (Failed EAGAIN, w')" "pipe w' = []"
    by auto
  with assms descriptors show ?thesis
    by (simp add: c channel_receive_def fifo_read_def fifo_pair_seq_def fifo_carries_def)
qed

end

sublocale pipe_os \<subseteq> pipe: message_channel "channel_send (fifo_iface K)"
  "channel_receive (fifo_iface K)" "fifo_carries wfd rfd pipe" fifo_pair_seq "\<lambda>_. 0"
proof (unfold_locales, goal_cases)
  case (1 c ms obj)
  from send_fifo [OF 1] show ?case by blast
next
  case (2 c m ms)
  from receive_fifo [OF 2] show ?case by blast
next
  case (3 c)
  from receive_fifo_empty [OF 3] show ?case by blast
next
  case (4 c ms obj c')
  from send_fifo [OF 4(1), of obj] 4(2) show ?case by auto
next
  case (5 c ms obj c')
  from send_fifo [OF 5(1), of obj] 5(2) show ?case by auto
qed

context pipe_os
begin

lemma fifo_session_run:
  assumes "fifo_carries wfd rfd pipe c []"
  shows "\<exists>n s. channel_run (channel_send (fifo_iface K)) (channel_receive (fifo_iface K))
      (as @ replicate n Receive) (start_run c) = Some (Inr s) \<and>
    map snd (rs_received s) = rs_sent s \<and>
    (rs_failed s = 0 \<longrightarrow>
       map (h_id \<circ> fst) (rs_received s) = numbers (fifo_pair_seq c) (length (rs_sent s))) \<and>
    set (rs_errors s) \<subseteq> {NO_DATA_AVAILABLE}"
  by (rule pipe.run_then_drain [OF assms])

end

section \<open>A session\<close>

lemma fifo_opened:
  "fifo_open K (fifo_new path ro, w) = (True, s, w') \<Longrightarrow>
     length (fifo_buffer s) = 528 \<and> fifo_last_id s = 0"
  by (auto simp: fifo_open_def fifo_new_def Let_def split: prod.splits if_splits)

text \<open>
  An executable reference kernel with one pipe, the instance of \<open>pipe_os\<close> the witnesses run on:
  the pipe has a name and Linux's default capacity, and a write that does not fit fails.
\<close>

record pipe_kernel =
  pk_time :: u64
  pk_names :: "string list"
  pk_pipe :: "byte list"

definition pipe_calls :: "pipe_kernel fifo_os" where
  "pipe_calls = \<lparr>
     os_clock = (\<lambda>k. (pk_time k, k\<lparr>pk_time := pk_time k + 1\<rparr>)),
     os_poll = (\<lambda>_ _ k. (if pk_pipe k = [] then 0 else 1, k)),
     os_unlink = (\<lambda>path k. k\<lparr>pk_names := removeAll path (pk_names k)\<rparr>),
     os_mkfifo = (\<lambda>path _ k.
       if path \<in> set (pk_names k) then (- 1, k)
       else (0, k\<lparr>pk_names := path # pk_names k, pk_pipe := []\<rparr>)),
     os_open = (\<lambda>path flags k.
       (if path \<in> set (pk_names k) then (if O_NONBLOCK \<in> set flags then 4 else 3) else - 1, k)),
     os_close = (\<lambda>_ k. k),
     os_write = (\<lambda>_ bs k.
       if length (pk_pipe k) + length bs \<le> 65536
       then (int (length bs), k\<lparr>pk_pipe := pk_pipe k @ bs\<rparr>) else (- 1, k)),
     os_read = (\<lambda>_ n k.
       if pk_pipe k = [] \<and> 0 < n then (Failed EAGAIN, k)
       else (Transferred (take n (pk_pipe k)), k\<lparr>pk_pipe := drop n (pk_pipe k)\<rparr>))\<rparr>"

definition pipe_boot :: pipe_kernel where
  "pipe_boot = \<lparr>pk_time = 1000, pk_names = [], pk_pipe = []\<rparr>"

interpretation kernel_pipe: pipe_os pipe_calls 3 4 pk_pipe
  by unfold_locales (auto simp: pipe_calls_def split: if_splits)

text \<open>C1. The named pipe end to end: after the reading handler created and opened the pipe and the
  writing handler opened it, any interleaving of writes and reads neither faults nor hangs; a read
  fails only for lack of data; and once a finite number of further reads has run, exactly the
  objects whose write returned true have been received, in order, unchanged, and - if no write
  failed - with the sequence numbers 1, 2, 3 and so on.\<close>

theorem fifo_delivers:
  assumes "pipe_os K wfd rfd pipe"
    and "fifo_open K (fifo_new path True, w) = (True, sr, w1)"
    and "fifo_open K (fifo_new path False, w1) = (True, sw, w2)"
    and "fifo_fd sr = rfd" and "fifo_fd sw = wfd" and "pipe w2 = []"
  shows "\<exists>n s. channel_run (channel_send (fifo_iface K)) (channel_receive (fifo_iface K))
      (as @ replicate n Receive) (start_run (sw, sr, w2)) = Some (Inr s) \<and>
    map snd (rs_received s) = rs_sent s \<and>
    (rs_failed s = 0 \<longrightarrow> map (h_id \<circ> fst) (rs_received s) = numbers 0 (length (rs_sent s))) \<and>
    set (rs_errors s) \<subseteq> {NO_DATA_AVAILABLE}"
  using pipe_os.fifo_session_run [OF assms(1), of "(sw, sr, w2)" as]
    fifo_opened [OF assms(2)] fifo_opened [OF assms(3)] assms(4-6)
  by (simp add: fifo_carries_def fifo_pair_seq_def)

theorem fifo_delivers_witness:
  "let (_, sr, w1) = fifo_open pipe_calls (fifo_new ''/tmp/ipc'' True, pipe_boot);
       (_, sw, w2) = fifo_open pipe_calls (fifo_new ''/tmp/ipc'' False, w1)
   in \<exists>n s. channel_run (channel_send (fifo_iface pipe_calls)) (channel_receive (fifo_iface pipe_calls))
      ([Send Ping, Receive, Send Ping] @ replicate n Receive) (start_run (sw, sr, w2)) = Some (Inr s) \<and>
    map snd (rs_received s) = rs_sent s \<and>
    (rs_failed s = 0 \<longrightarrow> map (h_id \<circ> fst) (rs_received s) = numbers 0 (length (rs_sent s))) \<and>
    set (rs_errors s) \<subseteq> {NO_DATA_AVAILABLE}"
proof -
  obtain sr w1 where r: "fifo_open pipe_calls (fifo_new ''/tmp/ipc'' True, pipe_boot) = (True, sr, w1)"
      "fifo_fd sr = 4" "w1 = pipe_boot\<lparr>pk_names := [''/tmp/ipc'']\<rparr>"
    by (simp add: fifo_open_def fifo_new_def pipe_calls_def pipe_boot_def)
  obtain sw w2 where s: "fifo_open pipe_calls (fifo_new ''/tmp/ipc'' False, w1) = (True, sw, w2)"
      "fifo_fd sw = 3" "pk_pipe w2 = []"
    by (simp add: r(3) fifo_open_def fifo_new_def pipe_calls_def pipe_boot_def)
  show ?thesis
    using fifo_delivers [OF kernel_pipe.pipe_os_axioms r(1) s(1) r(2) s(2) s(3)]
    by (simp only: r(1) s(1) Let_def case_prod_conv)
qed

section \<open>What a read makes of arbitrary bytes\<close>

context pipe_os
begin

lemma fifo_read_bytes:
  assumes buffer: "length (fifo_buffer s) = 528" and fd: "fifo_fd s = rfd"
    and content: "pipe w = hdr @ body @ rest" and hdr: "length hdr = 16"
    and body: "length body = unat (h_body_size (header_of_bytes hdr))"
  shows "if length body \<le> 528
    then \<exists>buf w'. fifo_read K (s, w) =
        Inr (of_body (header_of_bytes hdr) (decode_object (h_type (header_of_bytes hdr)) body),
             s\<lparr>fifo_buffer := buf\<rparr>, w') \<and> length buf = 528 \<and> pipe w' = rest
    else fifo_read K (s, w) = Inl Out_Of_Bounds"
proof -
  define buf1 where "buf1 = hdr @ drop 16 (fifo_buffer s)"
  have "pipe w \<noteq> []"
    using hdr by (auto simp: content)
  from read_pipe [OF disjI2 [OF this], of 16] obtain w1
    where r1: "os_read K rfd 16 w = (Transferred hdr, w1)" and p1: "pipe w1 = body @ rest"
    using hdr by (auto simp: content)
  have "length body = 0 \<or> pipe w1 \<noteq> []"
    by (auto simp: p1)
  from read_pipe [OF this] obtain w2
    where r2: "os_read K rfd (length body) w1 = (Transferred body, w2)" and p2: "pipe w2 = rest"
    by (auto simp: p1)
  have len1: "length buf1 = 528" and store1: "mem_store (fifo_buffer s) 0 hdr = Inr buf1"
    using buffer hdr by (simp_all add: buf1_def mem_store_ok)
  have header: "header_deserialize buf1 0 (u32_of_size 16) = Inr (Some (header_of_bytes hdr))"
    using hdr by (simp add: deserialize_header [OF len1]) (simp add: buf1_def)
  show ?thesis
  proof (cases "length body \<le> 528")
    case True
    define buf2 where "buf2 = body @ drop (length body) buf1"
    have store2: "mem_store buf1 0 body = Inr buf2" and len2: "length buf2 = 528"
      using True len1 by (simp_all add: mem_store_ok buf2_def)
    have data: "deserialize_data_object t buf2 0 (ucast (h_body_size (header_of_bytes hdr))) =
        Inr (decode_object t body)" for t
      using True len2 body
      by (subst deserialize_data_object_bytes) (simp_all add: region_def buf2_def)
    have "fifo_read K (s, w) =
        Inr (of_body (header_of_bytes hdr) (decode_object (h_type (header_of_bytes hdr)) body),
             s\<lparr>fifo_buffer := buf2\<rparr>, w2)"
      using fd descriptors r1 r2 hdr body
      by (auto simp: fifo_read_def store1 header store2 data)
    with True len2 p2 show ?thesis by auto
  next
    case False
    then have "mem_store buf1 0 body = Inl Out_Of_Bounds"
      using len1 by (simp add: mem_store_def)
    with False show ?thesis
      using fd descriptors r1 r2 hdr body
      by (auto simp: fifo_read_def store1 header)
  qed
qed

end

text \<open>C27. A read from the pipe on arbitrary bytes: if the header announces at most 528 bytes and they
  are there, the read consumes exactly header and body, keeps the size of its buffer, and its result
  is determined by those bytes; if the header announces more than the buffer holds, the body is
  written past the end of the buffer.\<close>

theorem fifo_read_spec:
  assumes "pipe_os K wfd rfd pipe" and "length (fifo_buffer s) = BUFFER_SIZE" and "fifo_fd s = rfd"
    and "pipe w = hdr @ body @ rest" and "length hdr = sizeof_header"
    and "length body = unat (h_body_size (header_of_bytes hdr))"
  shows "if length body \<le> BUFFER_SIZE
    then \<exists>buf w'. fifo_read K (s, w) =
        Inr (of_body (header_of_bytes hdr) (decode_object (h_type (header_of_bytes hdr)) body),
             s\<lparr>fifo_buffer := buf\<rparr>, w') \<and> length buf = BUFFER_SIZE \<and> pipe w' = rest
    else fifo_read K (s, w) = Inl Out_Of_Bounds"
  using pipe_os.fifo_read_bytes [OF assms(1) _ assms(3,4) _ assms(6)] assms(2,5)
  unfolding BUFFER_SIZE_val sizeof_header_val by blast

text \<open>The witness runs into the overflow: a header of a binary object of 600 bytes.\<close>

definition overlong_header :: data_header where
  "overlong_header = \<lparr>h_id = 1, h_type = BINARY_DATA, h_body_size = 600, h_timestamp = 0\<rparr>"

theorem fifo_read_spec_witness:
  "fifo_read pipe_calls ((fifo_new ''/tmp/ipc'' True)\<lparr>fifo_fd := 4\<rparr>,
     pipe_boot\<lparr>pk_pipe := header_bytes overlong_header @ replicate 600 0\<rparr>) = Inl Out_Of_Bounds"
  using fifo_read_spec [OF kernel_pipe.pipe_os_axioms,
      of "(fifo_new ''/tmp/ipc'' True)\<lparr>fifo_fd := 4\<rparr>"
        "pipe_boot\<lparr>pk_pipe := header_bytes overlong_header @ replicate 600 0\<rparr>"
        "header_bytes overlong_header" "replicate 600 0" "[]"]
  by (simp add: fifo_new_def overlong_header_def)


section \<open>Properties\<close>

text \<open>A write to an open pipe stages the header with the next sequence number, the time stamp, the
  type and the size of the object in front of its encoding, hands exactly these bytes to the pipe,
  and reports the pipe's answer; an object that does not fit changes nothing but the clock.\<close>

lemma fifo_write_spec:
  assumes "length (fifo_buffer s) = BUFFER_SIZE" and "fifo_fd s \<noteq> - 1"
  shows "fifo_write K obj (s, w) =
    (let (ts, w1) = os_clock K w; ident = fifo_last_id s + 1;
         (res, w2) = os_write K (fifo_fd s) (message_bytes ident ts obj) w1 in
     if length (object_bytes obj) \<le> body_capacity
     then Inr (res \<noteq> - 1,
       s\<lparr>fifo_last_id := ident, fifo_buffer := staged ident ts obj (fifo_buffer s)\<rparr>, w2)
     else Inr (False, s, w1))"
proof -
  obtain ts w1 where clock: "os_clock K w = (ts, w1)"
    by (cases "os_clock K w")
  obtain res w2 where
    sent: "os_write K (fifo_fd s) (message_bytes (fifo_last_id s + 1) ts obj) w1 = (res, w2)"
    by fastforce
  show ?thesis
    using fifo_write_eq [OF _ assms(2) clock sent] assms(1)
    by (simp only: BUFFER_SIZE_val body_capacity_val clock sent Let_def case_prod_conv)
qed

end
