(* ===== verification/Message_Queue_Channel.thy ===== *)
theory Message_Queue_Channel
  imports Message_Queue Channel
begin

text \<open>
  The POSIX message queue end to end.  The locale \<open>mqueue_os\<close> states what the operating system
  promises of a queue whose messages all have one priority: they leave in the order they came, each
  as a whole.  From these laws and the code of \<open>mq_write\<close> and \<open>mq_read\<close> the queue is a reliable
  channel.
\<close>

section \<open>The laws of a message queue\<close>

locale mqueue_os =
  fixes K :: "'w mq_os"
    and wq :: int
    and rq :: int
    and queue :: "'w \<Rightarrow> byte list list"
  assumes descriptors: "wq \<noteq> - 1" "rq \<noteq> - 1"
    and clock_queue: "os_clock K w = (ts, w') \<Longrightarrow> queue w' = queue w"
    and send_queue: "\<lbrakk>length bs \<le> BUFFER_SIZE; os_mq_send K wq bs 0 w = (res, w')\<rbrakk> \<Longrightarrow>
      queue w' = (if res = - 1 then queue w else queue w @ [bs])"
    and receive_queue: "\<lbrakk>queue w = m # q; length m \<le> n\<rbrakk> \<Longrightarrow>
      \<exists>w'. os_mq_receive K rq n w = (Transferred m, w') \<and> queue w' = q"
    and receive_none: "queue w = [] \<Longrightarrow>
      \<exists>w'. os_mq_receive K rq n w = (Failed EAGAIN, w') \<and> queue w' = []"

text \<open>Both handlers are open on the queue, which holds the wire form of the messages in transit.\<close>

definition mq_carries ::
  "int \<Rightarrow> int \<Rightarrow> ('w \<Rightarrow> byte list list) \<Rightarrow> message_queue \<times> message_queue \<times> 'w \<Rightarrow> message list \<Rightarrow> bool"
  where
  "mq_carries wq rq queue = (\<lambda>(sw, sr, w) ms.
     mq_mqd sw = wq \<and> length (mq_buffer sw) = BUFFER_SIZE \<and>
     mq_mqd sr = rq \<and> length (mq_buffer sr) = BUFFER_SIZE \<and>
     queue w = map wire ms \<and> list_all sound_message ms)"

definition mq_pair_seq :: "message_queue \<times> message_queue \<times> 'w \<Rightarrow> u32" where
  "mq_pair_seq = (\<lambda>(sw, sr, w). mq_last_id sw)"

section \<open>What a read makes of a message\<close>

text \<open>
  The message is stored at the start of the buffer, so the sixteen bytes of the header are those of
  the message only if it has that many; otherwise they end in old content, and the size check fails.
\<close>

lemma mq_read_short:
  assumes "length (mq_buffer s) = 528" and "mq_mqd s \<noteq> - 1"
    and "os_mq_receive K (mq_mqd s) 528 w = (Transferred m, w')"
    and "length m < 16"
  shows "mq_read K (s, w) = Inl Assertion_Failed"
proof -
  have "length (m @ drop (length m) (mq_buffer s)) = 528"
    using assms by simp
  note header = deserialize_header [OF this]
  have "\<not> body_size_matches h (length m)" for h
    using assms(4) by (simp add: body_size_matches_iff)
  then show ?thesis
    using assms by (simp add: mq_read_def mem_store_ok header)
qed

lemma mq_read_message:
  assumes "length (mq_buffer s) = 528" and "mq_mqd s \<noteq> - 1"
    and "os_mq_receive K (mq_mqd s) 528 w = (Transferred (hdr @ body), w')"
    and "length hdr = 16" and "length body \<le> 512"
  shows "mq_read K (s, w) =
    (if unat (h_body_size (header_of_bytes hdr)) = length body
     then Inr (of_body (header_of_bytes hdr) (decode_object (h_type (header_of_bytes hdr)) body),
       s\<lparr>mq_buffer := hdr @ body @ drop (16 + length body) (mq_buffer s)\<rparr>, w')
     else Inl Assertion_Failed)"
proof -
  let ?buf = "hdr @ body @ drop (16 + length body) (mq_buffer s)"
  have len: "length ?buf = 528"
    using assms by simp
  have store: "mem_store (mq_buffer s) 0 (hdr @ body) = Inr ?buf"
    using assms by (simp add: mem_store_ok)
  have header: "header_deserialize ?buf 0 (u32_of_size 16) = Inr (Some (header_of_bytes hdr))"
    using assms(4) by (simp add: deserialize_header [OF len])
  have match: "body_size_matches h (length (hdr @ body)) \<longleftrightarrow> unat (h_body_size h) = length body" for h
    using assms(4,5) by (simp add: body_size_matches_iff)
  have data: "unat (h_body_size (header_of_bytes hdr)) = length body \<Longrightarrow>
      deserialize_data_object t ?buf 16 (ucast (h_body_size (header_of_bytes hdr))) =
      Inr (decode_object t body)" for t
    using len assms(4) by (subst deserialize_data_object_bytes) (simp_all add: region_def)
  show ?thesis
    using assms(2,3) match [of "header_of_bytes hdr"] data
    by (simp add: mq_read_def store header del: length_append)
qed

section \<open>The queue is a reliable channel\<close>

context mqueue_os
begin

lemma send_mq:
  assumes "mq_carries wq rq queue c ms"
  shows "\<exists>ok c' h. channel_send (mq_iface K) obj c = Inr (ok, c') \<and>
    (ok \<longrightarrow> mq_pair_seq c' = mq_pair_seq c + 1 \<and> h_id h = mq_pair_seq c' \<and>
      mq_carries wq rq queue c' (ms @ [(h, obj)])) \<and>
    (\<not> ok \<longrightarrow> mq_carries wq rq queue c' ms)"
proof -
  obtain sw sr w where c: "c = (sw, sr, w)" by (metis prod_cases3)
  have len: "length (mq_buffer sw) = 528" and fd: "mq_mqd sw = wq"
    using assms by (simp_all add: c mq_carries_def)
  have open': "mq_mqd sw \<noteq> - 1"
    using fd descriptors by simp
  obtain ts w1 where clock: "os_clock K w = (ts, w1)" by (cases "os_clock K w")
  obtain res w2 where
    sent: "os_mq_send K (mq_mqd sw) (message_bytes (mq_last_id sw + 1) ts obj) 0 w1 = (res, w2)"
    by fastforce
  show ?thesis
  proof (cases "length (object_bytes obj) \<le> 512")
    case True
    define h where "h = header_of (mq_last_id sw + 1) ts obj"
    have "length (message_bytes (mq_last_id sw + 1) ts obj) \<le> BUFFER_SIZE"
      using True by simp
    from send_queue [OF this] sent fd clock_queue [OF clock]
    have "queue w2 = (if res = - 1 then queue w else queue w @ [wire (h, obj)])"
      by (simp add: h_def message_bytes_def)
    with assms True len show ?thesis
      by (intro exI [of _ "res \<noteq> - 1"] exI exI [of _ h] conjI)
        (auto simp: c channel_send_def mq_write_eq [OF len open' clock sent] mq_pair_seq_def
          mq_carries_def h_def)
  next
    case False
    with assms clock_queue [OF clock] show ?thesis
      by (intro exI [of _ False])
        (simp add: c channel_send_def mq_write_eq [OF len open' clock sent] mq_carries_def)
  qed
qed

lemma receive_mq:
  assumes "mq_carries wq rq queue c (m # ms)"
  shows "\<exists>c'. channel_receive (mq_iface K) c = Some (Inr (Inr m, c')) \<and>
    mq_pair_seq c' = mq_pair_seq c \<and> mq_carries wq rq queue c' ms"
proof -
  obtain sw sr w where c: "c = (sw, sr, w)" by (metis prod_cases3)
  obtain h obj where m: "m = (h, obj)" by (cases m)
  have inv: "length (mq_buffer sr) = 528" "mq_mqd sr = rq" "sound_message (h, obj)"
    and content: "queue w = (header_bytes h @ object_bytes obj) # map wire ms"
    using assms by (simp_all add: c m mq_carries_def)
  have size: "unat (h_body_size h) = length (object_bytes obj)" "length (object_bytes obj) \<le> 512"
    using inv(3) by simp_all
  then have "length (header_bytes h @ object_bytes obj) \<le> 528"
    by simp
  from receive_queue [OF content this] obtain w1
    where r: "os_mq_receive K (mq_mqd sr) 528 w = (Transferred (header_bytes h @ object_bytes obj), w1)"
      and q: "queue w1 = map wire ms"
    using inv(2) by auto
  have "mq_mqd sr \<noteq> - 1" using inv(2) descriptors(2) by simp
  from mq_read_message [OF inv(1) this r _ size(2)] inv(3) size(1) obtain buf
    where "mq_read K (sr, w) = Inr (Inr (h, obj), sr\<lparr>mq_buffer := buf\<rparr>, w1)" "length buf = 528"
    using inv(1) by simp
  with assms q show ?thesis
    by (simp add: c m channel_receive_def mq_pair_seq_def mq_carries_def)
qed

lemma receive_mq_empty:
  assumes "mq_carries wq rq queue c []"
  shows "\<exists>c'. channel_receive (mq_iface K) c = Some (Inr (Inl NO_DATA_AVAILABLE, c')) \<and>
    mq_pair_seq c' = mq_pair_seq c \<and> mq_carries wq rq queue c' []"
proof -
  obtain sw sr w where c: "c = (sw, sr, w)" by (metis prod_cases3)
  from assms have "queue w = []" by (simp add: c mq_carries_def)
  from receive_none [OF this] obtain w'
    where "os_mq_receive K rq 528 w = (Failed EAGAIN, w')" "queue w' = []"
    by blast
  with assms descriptors show ?thesis
    by (simp add: c channel_receive_def mq_read_def mq_pair_seq_def mq_carries_def)
qed

end

sublocale mqueue_os \<subseteq> mqueue: message_channel "channel_send (mq_iface K)"
  "channel_receive (mq_iface K)" "mq_carries wq rq queue" mq_pair_seq "\<lambda>_. 0"
proof (unfold_locales, goal_cases)
  case (1 c ms obj)
  from send_mq [OF 1] show ?case by blast
next
  case (2 c m ms)
  from receive_mq [OF 2] show ?case by blast
next
  case (3 c)
  from receive_mq_empty [OF 3] show ?case by blast
next
  case (4 c ms obj c')
  from send_mq [OF 4(1), of obj] 4(2) show ?case by auto
next
  case (5 c ms obj c')
  from send_mq [OF 5(1), of obj] 5(2) show ?case by auto
qed

context mqueue_os
begin

lemma mqueue_session_run:
  assumes "mq_carries wq rq queue c []"
  shows "\<exists>n s. channel_run (channel_send (mq_iface K)) (channel_receive (mq_iface K))
      (as @ replicate n Receive) (start_run c) = Some (Inr s) \<and>
    map snd (rs_received s) = rs_sent s \<and>
    (rs_failed s = 0 \<longrightarrow>
       map (h_id \<circ> fst) (rs_received s) = numbers (mq_pair_seq c) (length (rs_sent s))) \<and>
    set (rs_errors s) \<subseteq> {NO_DATA_AVAILABLE}"
  by (rule mqueue.run_then_drain [OF assms])

end

section \<open>A session\<close>

lemma mq_opened:
  "mq_open K (mq_new path ro, w) = (True, s, w') \<Longrightarrow> length (mq_buffer s) = 528 \<and> mq_last_id s = 0"
  by (auto simp: mq_open_def mq_new_def Let_def split: prod.splits if_splits)

text \<open>
  An executable reference kernel with one queue: it honours the limits the handler asks for when
  it creates the queue, and rejects a message that does not fit.
\<close>

record mq_kernel =
  qk_time :: u64
  qk_limits :: "mq_attr option"
  qk_queue :: "byte list list"

definition mq_calls :: "mq_kernel mq_os" where
  "mq_calls = \<lparr>
     os_clock = (\<lambda>k. (qk_time k, k\<lparr>qk_time := qk_time k + 1\<rparr>)),
     os_poll = (\<lambda>_ _ k. (if qk_queue k = [] then 0 else 1, k)),
     os_mq_unlink = (\<lambda>_ k. k\<lparr>qk_limits := None\<rparr>),
     os_mq_open = (\<lambda>_ flags _ attr k.
       if qk_limits k = None
       then if O_CREAT \<in> set flags then (5, k\<lparr>qk_limits := Some attr, qk_queue := []\<rparr>) else (- 1, k)
       else (6, k)),
     os_mq_close = (\<lambda>_ k. k),
     os_mq_send = (\<lambda>_ bs _ k.
       case qk_limits k of
         Some attr \<Rightarrow>
           if length bs \<le> mq_msgsize attr \<and> length (qk_queue k) < mq_maxmsg attr
           then (0, k\<lparr>qk_queue := qk_queue k @ [bs]\<rparr>) else (- 1, k)
       | None \<Rightarrow> (- 1, k)),
     os_mq_receive = (\<lambda>_ n k.
       case qk_queue k of
         [] \<Rightarrow> (Failed EAGAIN, k)
       | m # q \<Rightarrow> if length m \<le> n then (Transferred m, k\<lparr>qk_queue := q\<rparr>)
                  else (Failed (Other_Errno 90), k))\<rparr>"

definition mq_boot :: mq_kernel where
  "mq_boot = \<lparr>qk_time = 1000, qk_limits = None, qk_queue = []\<rparr>"

interpretation kernel_mqueue: mqueue_os mq_calls 6 5 qk_queue
  by unfold_locales (auto simp: mq_calls_def split: if_splits option.splits)

text \<open>C21. The message queue end to end: after the reading handler created the queue and the writing
  handler opened it, any interleaving of writes and reads neither faults nor hangs, and a finite
  number of further reads delivers exactly the objects whose write returned true, in order,
  unchanged, and numbered consecutively if no write failed.\<close>

theorem mqueue_delivers:
  assumes "mqueue_os K wq rq queue"
    and "mq_open K (mq_new path True, w) = (True, sr, w1)"
    and "mq_open K (mq_new path False, w1) = (True, sw, w2)"
    and "mq_mqd sr = rq" and "mq_mqd sw = wq" and "queue w2 = []"
  shows "\<exists>n s. channel_run (channel_send (mq_iface K)) (channel_receive (mq_iface K))
      (as @ replicate n Receive) (start_run (sw, sr, w2)) = Some (Inr s) \<and>
    map snd (rs_received s) = rs_sent s \<and>
    (rs_failed s = 0 \<longrightarrow> map (h_id \<circ> fst) (rs_received s) = numbers 0 (length (rs_sent s))) \<and>
    set (rs_errors s) \<subseteq> {NO_DATA_AVAILABLE}"
  using mqueue_os.mqueue_session_run [OF assms(1), of "(sw, sr, w2)" as]
    mq_opened [OF assms(2)] mq_opened [OF assms(3)] assms(4-6)
  by (simp add: mq_carries_def mq_pair_seq_def)

theorem mqueue_delivers_witness:
  "let (_, sr, w1) = mq_open mq_calls (mq_new ''/ipc'' True, mq_boot);
       (_, sw, w2) = mq_open mq_calls (mq_new ''/ipc'' False, w1)
   in \<exists>n s. channel_run (channel_send (mq_iface mq_calls)) (channel_receive (mq_iface mq_calls))
      ([Send Ping, Receive, Send Ping] @ replicate n Receive) (start_run (sw, sr, w2)) = Some (Inr s) \<and>
    map snd (rs_received s) = rs_sent s \<and>
    (rs_failed s = 0 \<longrightarrow> map (h_id \<circ> fst) (rs_received s) = numbers 0 (length (rs_sent s))) \<and>
    set (rs_errors s) \<subseteq> {NO_DATA_AVAILABLE}"
proof -
  obtain sr w1 where r: "mq_open mq_calls (mq_new ''/ipc'' True, mq_boot) = (True, sr, w1)"
      "mq_mqd sr = 5"
      "w1 = mq_boot\<lparr>qk_limits := Some \<lparr>mq_msgsize = 528, mq_maxmsg = QUEUE_SIZE\<rparr>\<rparr>"
    by (simp add: mq_open_def mq_new_def mq_calls_def mq_boot_def)
  obtain sw w2 where s: "mq_open mq_calls (mq_new ''/ipc'' False, w1) = (True, sw, w2)"
      "mq_mqd sw = 6" "qk_queue w2 = []"
    by (simp add: r(3) mq_open_def mq_new_def mq_calls_def mq_boot_def)
  show ?thesis
    using mqueue_delivers [OF kernel_mqueue.mqueue_os_axioms r(1) s(1) r(2) s(2) s(3)]
    by (simp only: r(1) s(1) Let_def case_prod_conv)
qed

text \<open>A read from the queue of an arbitrary message: the size check passes exactly when the message
  holds a header and the body that header announces, and the result is then determined by those
  bytes; any other message, in particular one shorter than a header, ends the reader.\<close>

lemma mq_read_spec:
  assumes "length (mq_buffer s) = BUFFER_SIZE" and "mq_mqd s \<noteq> - 1"
    and "os_mq_receive K (mq_mqd s) BUFFER_SIZE w = (Transferred m, w')" and "length m \<le> BUFFER_SIZE"
  shows "mq_read K (s, w) =
    (let hdr = take sizeof_header m; body = drop sizeof_header m; h = header_of_bytes hdr in
     if sizeof_header \<le> length m \<and> unat (h_body_size h) = length body
     then Inr (of_body h (decode_object (h_type h) body),
       s\<lparr>mq_buffer := m @ drop (length m) (mq_buffer s)\<rparr>, w')
     else Inl Assertion_Failed)"
proof (cases "length m < 16")
  case True
  with mq_read_short [of s K w m w'] assms show ?thesis
    by (simp add: Let_def)
next
  case False
  with mq_read_message [of s K w "take 16 m" "drop 16 m" w'] assms show ?thesis
    by (simp add: Let_def flip: append_assoc)
qed

section \<open>Properties\<close>

text \<open>A write to an open queue sends one message of priority zero that consists of the header with the
  next sequence number and the encoding of the object; an object that does not fit is not sent.\<close>

lemma mq_write_spec:
  assumes "length (mq_buffer s) = BUFFER_SIZE" and "mq_mqd s \<noteq> - 1"
  shows "mq_write K obj (s, w) =
    (let (ts, w1) = os_clock K w; ident = mq_last_id s + 1;
         (res, w2) = os_mq_send K (mq_mqd s) (message_bytes ident ts obj) 0 w1 in
     if length (object_bytes obj) \<le> body_capacity
     then Inr (res \<noteq> - 1,
       s\<lparr>mq_last_id := ident, mq_buffer := staged ident ts obj (mq_buffer s)\<rparr>, w2)
     else Inr (False, s, w1))"
proof -
  obtain ts w1 where clock: "os_clock K w = (ts, w1)"
    by (cases "os_clock K w")
  obtain res w2 where
    sent: "os_mq_send K (mq_mqd s) (message_bytes (mq_last_id s + 1) ts obj) 0 w1 = (res, w2)"
    by fastforce
  show ?thesis
    using mq_write_eq [OF _ assms(2) clock sent] assms(1)
    by (simp only: BUFFER_SIZE_val body_capacity_val clock sent Let_def case_prod_conv)
qed

end
