(* ===== verification/Datagram_Channel.thy ===== *)
theory Datagram_Channel
  imports Datagram_Socket Channel
begin

text \<open>
  Datagram sockets end to end.  Three contracts of the system, from the weakest to the strongest:
  \<open>inet_dgram_os\<close> is that of internet sockets (udp(7)), whose datagrams arrive as a whole or not at all
  and unaltered, but may be lost, delayed, duplicated and reordered; \<open>dgram_os\<close> is that of sockets that
  may lose datagrams but keep their order; \<open>reliable_dgram_os\<close> is that of Unix sockets (unix(7)), where a
  datagram that was accepted arrives.  The first gives a channel that invents nothing, the second a lossy
  channel, on which the benchmarks' treatment of losses is shown, the third a reliable channel.
\<close>

section \<open>The laws of datagram sockets\<close>

locale dgram_os =
  fixes K :: "'w sock_os"
    and wfd :: int
    and rfd :: int
    and addr :: sockaddr
    and queue :: "'w \<Rightarrow> byte list list"
  assumes descriptors: "wfd \<noteq> - 1" "rfd \<noteq> - 1"
    and clock_queue: "os_clock K w = (ts, w') \<Longrightarrow> queue w' = queue w"
    and sendto_queue: "\<lbrakk>length bs \<le> BUFFER_SIZE; os_sendto K wfd bs addr w = (res, w')\<rbrakk> \<Longrightarrow>
      queue w' = queue w \<or> res \<noteq> - 1 \<and> queue w' = queue w @ [bs]"
    and recvfrom_queue: "queue w = m # q \<Longrightarrow>
      \<exists>w'. os_recvfrom K rfd n w = (Transferred (take n m), w') \<and> queue w' = q"
    and recvfrom_none: "queue w = [] \<Longrightarrow>
      \<exists>w'. os_recvfrom K rfd n w = (Failed EAGAIN, w') \<and> queue w' = []"

locale reliable_dgram_os = dgram_os +
  assumes sendto_reliable:
    "\<lbrakk>length bs \<le> BUFFER_SIZE; os_sendto K wfd bs addr w = (res, w'); res \<noteq> - 1\<rbrakk> \<Longrightarrow>
      queue w' = queue w @ [bs]"

text \<open>
  \<open>network w\<close> is the set of the datagrams that may yet arrive from the writer, the only one who sends to
  the reader's port.
\<close>

locale inet_dgram_os =
  fixes K :: "'w sock_os"
    and wfd :: int
    and rfd :: int
    and addr :: sockaddr
    and network :: "'w \<Rightarrow> byte list set"
  assumes open_descriptors: "wfd \<noteq> - 1" "rfd \<noteq> - 1"
    and clock_network: "os_clock K w = (ts, w') \<Longrightarrow> network w' \<subseteq> network w"
    and sendto_network: "\<lbrakk>length bs \<le> BUFFER_SIZE; os_sendto K wfd bs addr w = (res, w')\<rbrakk> \<Longrightarrow>
      network w' \<subseteq> (if res = - 1 then network w else insert bs (network w))"
    and recvfrom_network: "os_recvfrom K rfd n w = (r, w') \<Longrightarrow> network w' \<subseteq> network w \<and>
      (r = Failed EAGAIN \<or> (\<exists>d \<in> network w. r = Transferred (take n d)))"

definition inet_carries ::
  "int \<Rightarrow> int \<Rightarrow> sockaddr \<Rightarrow> ('w \<Rightarrow> byte list set) \<Rightarrow>
   dgram_socket \<times> dgram_socket \<times> 'w \<Rightarrow> message set \<Rightarrow> bool" where
  "inet_carries wfd rfd addr network = (\<lambda>(sw, sr, w) M.
     dg_sfd sw = wfd \<and> length (dg_buffer sw) = BUFFER_SIZE \<and> dg_address sw = addr \<and>
     is_Sockaddr_Un addr = dg_unix sw \<and>
     dg_sfd sr = rfd \<and> length (dg_buffer sr) = BUFFER_SIZE \<and>
     network w \<subseteq> wire ` M \<and> (\<forall>m \<in> M. sound_message m))"

definition dgram_carries ::
  "int \<Rightarrow> int \<Rightarrow> sockaddr \<Rightarrow> ('w \<Rightarrow> byte list list) \<Rightarrow>
   dgram_socket \<times> dgram_socket \<times> 'w \<Rightarrow> message list \<Rightarrow> bool" where
  "dgram_carries wfd rfd addr queue = (\<lambda>(sw, sr, w) ms.
     dg_sfd sw = wfd \<and> length (dg_buffer sw) = BUFFER_SIZE \<and> dg_address sw = addr \<and>
     is_Sockaddr_Un addr = dg_unix sw \<and>
     dg_sfd sr = rfd \<and> length (dg_buffer sr) = BUFFER_SIZE \<and>
     queue w = map wire ms \<and> list_all sound_message ms)"

definition dgram_pair_seq :: "dgram_socket \<times> dgram_socket \<times> 'w \<Rightarrow> u32" where
  "dgram_pair_seq = (\<lambda>(sw, sr, w). dg_last_id sw)"

section \<open>What a read makes of a datagram\<close>

lemma dgram_read_short:
  assumes "length (dg_buffer s) = 528" and "dg_sfd s \<noteq> - 1"
    and "os_recvfrom K (dg_sfd s) 528 w = (Transferred m, w')" and "length m < 16"
  shows "dgram_read K (s, w) = Inl Assertion_Failed"
proof -
  have "length (m @ drop (length m) (dg_buffer s)) = 528"
    using assms by simp
  note header = deserialize_header [OF this]
  have "\<not> body_size_matches h (length m)" for h
    using assms(4) by (simp add: body_size_matches_iff)
  then show ?thesis
    using assms by (simp add: dgram_read_def mem_store_ok header)
qed

lemma dgram_read_message:
  assumes "length (dg_buffer s) = 528" and "dg_sfd s \<noteq> - 1"
    and "os_recvfrom K (dg_sfd s) 528 w = (Transferred (hdr @ body), w')"
    and "length hdr = 16" and "length body \<le> 512"
  shows "dgram_read K (s, w) =
    (if unat (h_body_size (header_of_bytes hdr)) = length body
     then Inr (of_body (header_of_bytes hdr) (decode_object (h_type (header_of_bytes hdr)) body),
       s\<lparr>dg_buffer := hdr @ body @ drop (16 + length body) (dg_buffer s)\<rparr>, w')
     else Inl Assertion_Failed)"
proof -
  let ?buf = "hdr @ body @ drop (16 + length body) (dg_buffer s)"
  have len: "length ?buf = 528"
    using assms by simp
  have store: "mem_store (dg_buffer s) 0 (hdr @ body) = Inr ?buf"
    using assms by (simp add: mem_store_ok)
  have header: "header_deserialize ?buf 0 (u32_of_size 16) = Inr (Some (header_of_bytes hdr))"
    using assms(4) by (simp add: deserialize_header [OF len])
  have match: "body_size_matches h (length (hdr @ body)) \<longleftrightarrow> unat (h_body_size h) = length body" for h
    using assms(4,5) by (simp add: body_size_matches_iff)
  have data: "unat (h_body_size (header_of_bytes hdr)) = length body \<Longrightarrow>
      deserialize_data_object t ?buf 16 (ucast (h_body_size (header_of_bytes hdr))) =
      Inr (decode_object t body)" for t
    using len assms(4) by (subst deserialize_data_object_bytes) (simp_all add: region_def)
  show ?thesis
    using assms(2,3) match [of "header_of_bytes hdr"] data
    by (simp add: dgram_read_def store header del: length_append)
qed

section \<open>Datagram sockets are channels\<close>

context dgram_os
begin

lemma send_dgram:
  assumes "dgram_carries wfd rfd addr queue c ms"
  shows "\<exists>ok c' h. channel_send (dgram_iface K) obj c = Inr (ok, c') \<and>
    (ok \<longrightarrow> dgram_pair_seq c' = dgram_pair_seq c + 1 \<and> h_id h = dgram_pair_seq c') \<and>
    (dgram_carries wfd rfd addr queue c' ms \<or>
     ok \<and> dgram_carries wfd rfd addr queue c' (ms @ [(h, obj)]))"
proof -
  obtain sw sr w where c: "c = (sw, sr, w)" by (metis prod_cases3)
  have len: "length (dg_buffer sw) = 528" and fd: "dg_sfd sw = wfd"
    and addr: "dg_address sw = addr" "is_Sockaddr_Un (dg_address sw) = dg_unix sw"
    using assms by (simp_all add: c dgram_carries_def)
  have open': "dg_sfd sw \<noteq> - 1"
    using fd descriptors by simp
  obtain ts w1 where clock: "os_clock K w = (ts, w1)" by (cases "os_clock K w")
  obtain res w2 where sent: "os_sendto K (dg_sfd sw)
      (message_bytes (dg_last_id sw + 1) ts obj) (dg_address sw) w1 = (res, w2)"
    by fastforce
  note write_eq = dgram_write_eq [OF len open' addr(2) clock sent]
  show ?thesis
  proof (cases "length (object_bytes obj) \<le> 512")
    case True
    define h where "h = header_of (dg_last_id sw + 1) ts obj"
    have "length (message_bytes (dg_last_id sw + 1) ts obj) \<le> BUFFER_SIZE"
      using True by simp
    from sendto_queue [OF this, of w1 res w2] sent fd addr clock_queue [OF clock]
    have "queue w2 = queue w \<or> res \<noteq> - 1 \<and> queue w2 = queue w @ [wire (h, obj)]"
      by (simp add: h_def message_bytes_def)
    with assms True len show ?thesis
      by (intro exI [of _ "res \<noteq> - 1"] exI exI [of _ h] conjI)
        (auto simp: c channel_send_def write_eq dgram_pair_seq_def dgram_carries_def h_def)
  next
    case False
    with assms show ?thesis
      by (intro exI [of _ False])
        (simp add: c channel_send_def write_eq dgram_carries_def)
  qed
qed

lemma receive_dgram:
  assumes "dgram_carries wfd rfd addr queue c (m # ms)"
  shows "\<exists>c'. channel_receive (dgram_iface K) c = Some (Inr (Inr m, c')) \<and>
    dgram_pair_seq c' = dgram_pair_seq c \<and> dgram_carries wfd rfd addr queue c' ms"
proof -
  obtain sw sr w where c: "c = (sw, sr, w)" by (metis prod_cases3)
  obtain h obj where m: "m = (h, obj)" by (cases m)
  have inv: "length (dg_buffer sr) = 528" "dg_sfd sr = rfd" "sound_message (h, obj)"
    and content: "queue w = (header_bytes h @ object_bytes obj) # map wire ms"
    using assms by (simp_all add: c m dgram_carries_def)
  have size: "unat (h_body_size h) = length (object_bytes obj)" "length (object_bytes obj) \<le> 512"
    using inv(3) by simp_all
  from recvfrom_queue [OF content, of 528] size(2) obtain w1
    where r: "os_recvfrom K (dg_sfd sr) 528 w = (Transferred (header_bytes h @ object_bytes obj), w1)"
      and q: "queue w1 = map wire ms"
    using inv(2) by auto
  have "dg_sfd sr \<noteq> - 1" using inv(2) descriptors(2) by simp
  from dgram_read_message [OF inv(1) this r _ size(2)] inv(3) size(1) obtain buf
    where "dgram_read K (sr, w) = Inr (Inr (h, obj), sr\<lparr>dg_buffer := buf\<rparr>, w1)" "length buf = 528"
    using inv(1) by simp
  with assms q show ?thesis
    by (simp add: c m channel_receive_def dgram_pair_seq_def dgram_carries_def)
qed

lemma receive_dgram_empty:
  assumes "dgram_carries wfd rfd addr queue c []"
  shows "\<exists>c'. channel_receive (dgram_iface K) c = Some (Inr (Inl NO_DATA_AVAILABLE, c')) \<and>
    dgram_pair_seq c' = dgram_pair_seq c \<and> dgram_carries wfd rfd addr queue c' []"
proof -
  obtain sw sr w where c: "c = (sw, sr, w)" by (metis prod_cases3)
  from assms have "queue w = []" by (simp add: c dgram_carries_def)
  from recvfrom_none [OF this] obtain w'
    where "os_recvfrom K rfd 528 w = (Failed EAGAIN, w')" "queue w' = []"
    by blast
  with assms descriptors show ?thesis
    by (simp add: c channel_receive_def dgram_read_def dgram_pair_seq_def dgram_carries_def)
qed

end

sublocale dgram_os \<subseteq> dgram_lossy: lossy_channel "channel_send (dgram_iface K)"
  "channel_receive (dgram_iface K)" "dgram_carries wfd rfd addr queue" dgram_pair_seq "\<lambda>_. 0"
proof (unfold_locales, goal_cases)
  case (1 c ms obj)
  from send_dgram [OF 1] show ?case by blast
next
  case (2 c m ms)
  from receive_dgram [OF 2] show ?case by blast
next
  case (3 c)
  from receive_dgram_empty [OF 3] show ?case by blast
qed

context reliable_dgram_os
begin

lemma send_dgram_reliable:
  assumes "dgram_carries wfd rfd addr queue c ms"
    and "channel_send (dgram_iface K) obj c = Inr (ok, c')"
  shows "if ok then \<exists>h. h_id h = dgram_pair_seq c' \<and> dgram_carries wfd rfd addr queue c' (ms @ [(h, obj)])
    else dgram_carries wfd rfd addr queue c' ms"
proof -
  obtain sw sr w where c: "c = (sw, sr, w)" by (metis prod_cases3)
  have len: "length (dg_buffer sw) = 528" and fd: "dg_sfd sw = wfd"
    and addr: "dg_address sw = addr" "is_Sockaddr_Un (dg_address sw) = dg_unix sw"
    using assms(1) by (simp_all add: c dgram_carries_def)
  have open': "dg_sfd sw \<noteq> - 1"
    using fd descriptors by simp
  obtain ts w1 where clock: "os_clock K w = (ts, w1)" by (cases "os_clock K w")
  obtain res w2 where sent: "os_sendto K (dg_sfd sw)
      (message_bytes (dg_last_id sw + 1) ts obj) (dg_address sw) w1 = (res, w2)"
    by fastforce
  note write_eq = dgram_write_eq [OF len open' addr(2) clock sent]
  show ?thesis
  proof (cases "length (object_bytes obj) \<le> 512 \<and> res \<noteq> - 1")
    case True
    then have "length (message_bytes (dg_last_id sw + 1) ts obj) \<le> BUFFER_SIZE"
      by simp
    from sendto_reliable [OF this, of w1 res w2] sent fd addr clock_queue [OF clock] True
    have "queue w2 = queue w @ [message_bytes (dg_last_id sw + 1) ts obj]"
      by simp
    with assms True len show ?thesis
      by (auto simp: c channel_send_def write_eq dgram_pair_seq_def dgram_carries_def
          message_bytes_def intro!: exI [of _ "header_of (dg_last_id sw + 1) ts obj"])
  next
    case False
    then have "\<not> ok"
      using assms(2) by (auto simp: c channel_send_def write_eq split: if_splits)
    with send_dgram [OF assms(1), of obj] assms(2) show ?thesis
      by auto
  qed
qed

end

sublocale reliable_dgram_os \<subseteq> dgram_reliable: message_channel "channel_send (dgram_iface K)"
  "channel_receive (dgram_iface K)" "dgram_carries wfd rfd addr queue" dgram_pair_seq "\<lambda>_. 0"
proof (unfold_locales, goal_cases)
  case (1 c ms obj c')
  from send_dgram_reliable [OF 1] show ?case by simp
next
  case (2 c ms obj c')
  from send_dgram_reliable [OF 2] show ?case by simp
qed

section \<open>Internet sockets invent nothing\<close>

context inet_dgram_os
begin

lemma send_inet:
  assumes "inet_carries wfd rfd addr network c M"
  shows "\<exists>ok c' h. channel_send (dgram_iface K) obj c = Inr (ok, c') \<and>
    (if ok then dgram_pair_seq c' = dgram_pair_seq c + 1 \<and> h_id h = dgram_pair_seq c' \<and>
       inet_carries wfd rfd addr network c' (insert (h, obj) M)
     else inet_carries wfd rfd addr network c' M)"
proof -
  obtain sw sr w where c: "c = (sw, sr, w)" by (metis prod_cases3)
  have len: "length (dg_buffer sw) = 528" and fd: "dg_sfd sw = wfd"
    and addr: "dg_address sw = addr" "is_Sockaddr_Un (dg_address sw) = dg_unix sw"
    and sent_before: "network w \<subseteq> wire ` M"
    using assms by (simp_all add: c inet_carries_def)
  have open': "dg_sfd sw \<noteq> - 1"
    using fd open_descriptors by simp
  obtain ts w1 where clock: "os_clock K w = (ts, w1)" by (cases "os_clock K w")
  obtain res w2 where sent: "os_sendto K (dg_sfd sw)
      (message_bytes (dg_last_id sw + 1) ts obj) (dg_address sw) w1 = (res, w2)"
    by fastforce
  note write_eq = dgram_write_eq [OF len open' addr(2) clock sent]
  show ?thesis
  proof (cases "length (object_bytes obj) \<le> 512")
    case True
    define h where "h = header_of (dg_last_id sw + 1) ts obj"
    have "length (message_bytes (dg_last_id sw + 1) ts obj) \<le> BUFFER_SIZE"
      using True by simp
    from sendto_network [OF this, of w1 res w2] sent fd addr clock_network [OF clock] sent_before
    have net: "network w2 \<subseteq> wire ` (if res = - 1 then M else insert (h, obj) M)"
      by (auto simp: h_def message_bytes_def split: if_splits)
    have "sound_message (h, obj)"
      using True by (simp add: h_def)
    with net assms True len show ?thesis
      by (intro exI [of _ "res \<noteq> - 1"] exI exI [of _ h] conjI)
        (auto simp: c channel_send_def write_eq dgram_pair_seq_def inet_carries_def h_def
          simp del: sound_message.simps wire.simps)
  next
    case False
    with assms show ?thesis
      by (intro exI [of _ False])
        (simp add: c channel_send_def write_eq inet_carries_def)
  qed
qed

lemma receive_inet:
  assumes "inet_carries wfd rfd addr network c M"
  shows "\<exists>r c'. channel_receive (dgram_iface K) c = Some (Inr (r, c')) \<and>
    dgram_pair_seq c' = dgram_pair_seq c \<and> inet_carries wfd rfd addr network c' M \<and>
    (case r of Inr m \<Rightarrow> m \<in> M | Inl e \<Rightarrow> e = NO_DATA_AVAILABLE)"
proof -
  obtain sw sr w where c: "c = (sw, sr, w)" by (metis prod_cases3)
  have inv: "length (dg_buffer sr) = 528" "dg_sfd sr = rfd" and net: "network w \<subseteq> wire ` M"
    using assms by (simp_all add: c inet_carries_def)
  have fd: "dg_sfd sr \<noteq> - 1" using inv(2) open_descriptors(2) by simp
  obtain r w1 where r: "os_recvfrom K (dg_sfd sr) 528 w = (r, w1)"
    by fastforce
  note left = recvfrom_network [OF r [unfolded inv(2)]]
  have kept: "inet_carries wfd rfd addr network (sw, s, w1) M"
    if "dg_sfd s = dg_sfd sr" "length (dg_buffer s) = 528" for s
    using assms that left by (auto simp: c inet_carries_def simp del: sound_message.simps)
  show ?thesis
  proof (cases "r = Failed EAGAIN")
    case True
    with r fd kept [OF refl inv(1)] show ?thesis
      by (simp add: c channel_receive_def dgram_read_def dgram_pair_seq_def)
  next
    case False
    with left net obtain m where m: "m \<in> M" "r = Transferred (take 528 (wire m))"
      by auto
    obtain h obj where hobj: "m = (h, obj)" by (cases m)
    have sound: "sound_message (h, obj)"
      using assms m(1) by (auto simp: c hobj inet_carries_def)
    then have size: "unat (h_body_size h) = length (object_bytes obj)" "length (object_bytes obj) \<le> 512"
      by simp_all
    have "os_recvfrom K (dg_sfd sr) 528 w = (Transferred (header_bytes h @ object_bytes obj), w1)"
      using r m(2) size(2) by (simp add: hobj)
    from dgram_read_message [OF inv(1) fd this _ size(2)] sound size(1) obtain buf
      where "dgram_read K (sr, w) = Inr (Inr (h, obj), sr\<lparr>dg_buffer := buf\<rparr>, w1)" "length buf = 528"
      using inv(1) by simp
    with m(1) kept [of "sr\<lparr>dg_buffer := buf\<rparr>"] show ?thesis
      by (simp add: c hobj channel_receive_def dgram_pair_seq_def)
  qed
qed

end

sublocale inet_dgram_os \<subseteq> dgram_unordered: unordered_channel "channel_send (dgram_iface K)"
  "channel_receive (dgram_iface K)" "inet_carries wfd rfd addr network" dgram_pair_seq
proof (unfold_locales, goal_cases)
  case (1 c M obj)
  from send_inet [OF 1] show ?case .
next
  case (2 c M)
  from receive_inet [OF 2] show ?case .
qed

context dgram_os
begin

lemma dgram_session_selection:
  assumes "dgram_carries wfd rfd addr queue c []"
  shows "\<exists>s. channel_run (channel_send (dgram_iface K)) (channel_receive (dgram_iface K)) as
      (start_run c) = Some (Inr s) \<and>
    subseq (map snd (rs_received s)) (rs_sent s) \<and> set (rs_errors s) \<subseteq> {NO_DATA_AVAILABLE}"
  by (rule dgram_lossy.run_subsequence [OF assms])

end

context inet_dgram_os
begin

lemma inet_session_run:
  assumes "inet_carries wfd rfd addr network c {}"
  shows "\<exists>s hist. channel_run (channel_send (dgram_iface K)) (channel_receive (dgram_iface K)) as
      (start_run c) = Some (Inr s) \<and>
    map snd hist = rs_sent s \<and> set (rs_received s) \<subseteq> set hist \<and>
    (rs_failed s = 0 \<longrightarrow>
       map (h_id \<circ> fst) hist = numbers (dgram_pair_seq c) (length (rs_sent s))) \<and>
    set (rs_errors s) \<subseteq> {NO_DATA_AVAILABLE}"
  by (rule dgram_unordered.run_receives_sent [OF assms])

end

context reliable_dgram_os
begin

lemma dgram_session_run:
  assumes "dgram_carries wfd rfd addr queue c []"
  shows "\<exists>n s. channel_run (channel_send (dgram_iface K)) (channel_receive (dgram_iface K))
      (as @ replicate n Receive) (start_run c) = Some (Inr s) \<and>
    map snd (rs_received s) = rs_sent s \<and>
    (rs_failed s = 0 \<longrightarrow>
       map (h_id \<circ> fst) (rs_received s) = numbers (dgram_pair_seq c) (length (rs_sent s))) \<and>
    set (rs_errors s) \<subseteq> {NO_DATA_AVAILABLE}"
  by (rule dgram_reliable.run_then_drain [OF assms])

end

section \<open>Sessions\<close>

lemma dgram_opened_unix:
  "dgram_open K (dgram_new_unix path server, w) = (True, s, w') \<Longrightarrow>
     length (dg_buffer s) = 528 \<and> dg_last_id s = 0 \<and> dg_unix s \<and>
     dg_address s = Sockaddr_Un (strncpy_path path)"
  by (auto simp: dgram_open_def dgram_new_unix_def dgram_create_server_def dgram_create_client_def
      dgram_build_address_def Let_def split: prod.splits if_splits)

lemma dgram_opened_client:
  "\<lbrakk>dgram_open K (dgram_new_inet address port False, w) = (True, s, w');
    os_inet_pton K address = (res, parsed)\<rbrakk> \<Longrightarrow>
     length (dg_buffer s) = 528 \<and> dg_last_id s = 0 \<and> \<not> dg_unix s \<and>
     dg_address s = Sockaddr_In parsed (htons port)"
  by (auto simp: dgram_open_def dgram_new_inet_def dgram_create_client_def dgram_build_address_def
      Let_def split: prod.splits if_splits)

lemma dgram_opened_server:
  "dgram_open K (dgram_new_inet address port True, w) = (True, s, w') \<Longrightarrow>
     length (dg_buffer s) = 528 \<and> dg_last_id s = 0 \<and>
     dg_address s = Sockaddr_In INADDR_ANY (htons port)"
  by (auto simp: dgram_open_def dgram_new_inet_def dgram_create_server_def dgram_build_address_def
      Let_def split: prod.splits if_splits)

text \<open>
  An executable reference kernel with one receiving socket.  The flag says whether its sockets are
  reliable: with a full queue a Unix socket reports the failure, an internet socket drops the
  datagram and reports success.
\<close>

record dgram_kernel =
  dk_time :: u64
  dk_bound :: "sockaddr option"
  dk_queue :: "byte list list"

definition dgram_calls :: "bool \<Rightarrow> dgram_kernel sock_os" where
  "dgram_calls reliable = \<lparr>
     os_clock = (\<lambda>k. (dk_time k, k\<lparr>dk_time := dk_time k + 1\<rparr>)),
     os_poll = (\<lambda>_ _ k. (if dk_queue k = [] then 0 else 1, k)),
     os_remove = (\<lambda>_ k. k),
     os_socket = (\<lambda>_ _ nonblock k. (if nonblock then 5 else 6, k)),
     os_set_reuseaddr = (\<lambda>_ _ k. k),
     os_bind = (\<lambda>_ addr k.
       if dk_bound k = None then (0, k\<lparr>dk_bound := Some addr, dk_queue := []\<rparr>) else (- 1, k)),
     os_listen = (\<lambda>_ _ k. (- 1, k)),
     os_connect = (\<lambda>_ _ k. (- 1, k)),
     os_accept4 = (\<lambda>_ k. (- 1, k)),
     os_sock_close = (\<lambda>fd k. if fd = 5 then k\<lparr>dk_bound := None\<rparr> else k),
     os_send = (\<lambda>_ _ k. (- 1, k)),
     os_recv = (\<lambda>_ _ k. (Failed (Other_Errno 107), k)),
     os_sendto = (\<lambda>_ bs addr k.
       if dk_bound k \<noteq> None \<and> length (dk_queue k) < 10
       then (int (length bs), k\<lparr>dk_queue := dk_queue k @ [bs]\<rparr>)
       else (if reliable then - 1 else int (length bs), k)),
     os_recvfrom = (\<lambda>_ n k.
       case dk_queue k of
         [] \<Rightarrow> (Failed EAGAIN, k)
       | m # q \<Rightarrow> (Transferred (take n m), k\<lparr>dk_queue := q\<rparr>)),
     os_inet_pton = (\<lambda>address. if address = ''127.0.0.1'' then (1, 0x0100007F) else (0, 0))\<rparr>"

definition dgram_boot :: dgram_kernel where
  "dgram_boot = \<lparr>dk_time = 1000, dk_bound = None, dk_queue = []\<rparr>"

interpretation kernel_dgram: dgram_os "dgram_calls reliable" 6 5 addr dk_queue for reliable addr
  by unfold_locales (auto simp: dgram_calls_def split: if_splits)

text \<open>
  The same kernel with a network that reorders and duplicates: a read takes the last datagram that
  arrived, and at every other instant leaves it in the network as well.
\<close>

definition udp_calls :: "dgram_kernel sock_os" where
  "udp_calls = (dgram_calls False)\<lparr>os_recvfrom := (\<lambda>_ n k.
     if dk_queue k = [] then (Failed EAGAIN, k)
     else (Transferred (take n (last (dk_queue k))),
       k\<lparr>dk_time := dk_time k + 1,
         dk_queue := if even (unat (dk_time k)) then dk_queue k else butlast (dk_queue k)\<rparr>))\<rparr>"

interpretation kernel_udp: inet_dgram_os udp_calls 6 5 addr "\<lambda>k. set (dk_queue k)" for addr
  by unfold_locales (auto simp: udp_calls_def dgram_calls_def dest: in_set_butlastD split: if_splits)

interpretation kernel_unix_dgram: reliable_dgram_os "dgram_calls True" 6 5 addr dk_queue for addr
  by unfold_locales (auto simp: dgram_calls_def split: if_splits)

text \<open>C22. Unix datagram sockets end to end: after the server bound its path and the client opened its
  socket for the same path, any interleaving of writes and reads neither faults nor hangs, and a
  finite number of further reads delivers exactly the objects whose write returned true, in order,
  unchanged, and numbered consecutively if no write failed.\<close>

theorem unix_dgram_delivers:
  assumes "reliable_dgram_os K wfd rfd (Sockaddr_Un (strncpy_path path)) queue"
    and "dgram_open K (dgram_new_unix path True, w) = (True, sr, w1)"
    and "dgram_open K (dgram_new_unix path False, w1) = (True, sw, w2)"
    and "dg_sfd sr = rfd" and "dg_sfd sw = wfd" and "queue w2 = []"
  shows "\<exists>n s. channel_run (channel_send (dgram_iface K)) (channel_receive (dgram_iface K))
      (as @ replicate n Receive) (start_run (sw, sr, w2)) = Some (Inr s) \<and>
    map snd (rs_received s) = rs_sent s \<and>
    (rs_failed s = 0 \<longrightarrow> map (h_id \<circ> fst) (rs_received s) = numbers 0 (length (rs_sent s))) \<and>
    set (rs_errors s) \<subseteq> {NO_DATA_AVAILABLE}"
  using reliable_dgram_os.dgram_session_run [OF assms(1), of "(sw, sr, w2)" as]
    dgram_opened_unix [OF assms(2)] dgram_opened_unix [OF assms(3)] assms(4-6)
  by (simp add: dgram_carries_def dgram_pair_seq_def)

theorem unix_dgram_delivers_witness:
  "let (_, sr, w1) = dgram_open (dgram_calls True) (dgram_new_unix ''/tmp/s'' True, dgram_boot);
       (_, sw, w2) = dgram_open (dgram_calls True) (dgram_new_unix ''/tmp/s'' False, w1)
   in \<exists>n s. channel_run (channel_send (dgram_iface (dgram_calls True)))
      (channel_receive (dgram_iface (dgram_calls True)))
      ([Send Ping, Receive, Send Ping] @ replicate n Receive) (start_run (sw, sr, w2)) = Some (Inr s) \<and>
    map snd (rs_received s) = rs_sent s \<and>
    (rs_failed s = 0 \<longrightarrow> map (h_id \<circ> fst) (rs_received s) = numbers 0 (length (rs_sent s))) \<and>
    set (rs_errors s) \<subseteq> {NO_DATA_AVAILABLE}"
proof -
  obtain sr w1 where
    r: "dgram_open (dgram_calls True) (dgram_new_unix ''/tmp/s'' True, dgram_boot) = (True, sr, w1)"
      "dg_sfd sr = 5" "dk_queue w1 = []"
    by (simp add: dgram_open_def dgram_create_server_def dgram_build_address_def dgram_new_unix_def
        dgram_calls_def dgram_boot_def Let_def)
  obtain sw w2 where
    s: "dgram_open (dgram_calls True) (dgram_new_unix ''/tmp/s'' False, w1) = (True, sw, w2)"
      "dg_sfd sw = 6" "dk_queue w2 = []"
    by (simp add: r(3) dgram_open_def dgram_create_client_def dgram_build_address_def
        dgram_new_unix_def dgram_calls_def Let_def)
  show ?thesis
    using unix_dgram_delivers [OF kernel_unix_dgram.reliable_dgram_os_axioms r(1) s(1) r(2) s(2) s(3)]
    by (simp only: r(1) s(1) Let_def case_prod_conv)
qed

text \<open>C23. Internet datagram sockets end to end, on a network that may lose, delay, duplicate and reorder
  datagrams: after the server bound the port and the client opened a socket for the same port, no
  interleaving of writes and reads faults or hangs, and whatever is received is - header and object
  unchanged - one of the messages whose write returned true.  If no write failed, the sequence number
  in the received header tells which one: the messages written carry the numbers one, two and so on, so
  the receiver can recognise duplicates, losses and a wrong order.  A read fails only for lack of
  data.\<close>

theorem inet_dgram_genuine:
  assumes "inet_dgram_os K wfd rfd (Sockaddr_In parsed (htons port)) network"
    and "dgram_open K (dgram_new_inet any port True, w) = (True, sr, w1)"
    and "dgram_open K (dgram_new_inet address port False, w1) = (True, sw, w2)"
    and "os_inet_pton K address = (1, parsed)"
    and "dg_sfd sr = rfd" and "dg_sfd sw = wfd" and "network w2 = {}"
  shows "\<exists>s hist. channel_run (channel_send (dgram_iface K)) (channel_receive (dgram_iface K)) as
      (start_run (sw, sr, w2)) = Some (Inr s) \<and>
    map snd hist = rs_sent s \<and> set (rs_received s) \<subseteq> set hist \<and>
    (rs_failed s = 0 \<longrightarrow> map (h_id \<circ> fst) hist = numbers 0 (length (rs_sent s))) \<and>
    set (rs_errors s) \<subseteq> {NO_DATA_AVAILABLE}"
  using inet_dgram_os.inet_session_run [OF assms(1), of "(sw, sr, w2)" as]
    dgram_opened_server [OF assms(2)] dgram_opened_client [OF assms(3,4)] assms(5-7)
  by (simp add: inet_carries_def dgram_pair_seq_def)

theorem inet_dgram_genuine_witness:
  "let (_, sr, w1) = dgram_open udp_calls (dgram_new_inet '''' 8080 True, dgram_boot);
       (_, sw, w2) = dgram_open udp_calls (dgram_new_inet ''127.0.0.1'' 8080 False, w1)
   in \<exists>s hist. channel_run (channel_send (dgram_iface udp_calls)) (channel_receive (dgram_iface udp_calls))
      (replicate 12 (Send Ping) @ replicate 12 Receive) (start_run (sw, sr, w2)) = Some (Inr s) \<and>
    map snd hist = rs_sent s \<and> set (rs_received s) \<subseteq> set hist \<and>
    (rs_failed s = 0 \<longrightarrow> map (h_id \<circ> fst) hist = numbers 0 (length (rs_sent s))) \<and>
    set (rs_errors s) \<subseteq> {NO_DATA_AVAILABLE}"
proof -
  obtain sr w1 where
    r: "dgram_open udp_calls (dgram_new_inet '''' 8080 True, dgram_boot) = (True, sr, w1)"
      "dg_sfd sr = 5" "dk_queue w1 = []"
    by (simp add: dgram_open_def dgram_create_server_def dgram_build_address_def dgram_new_inet_def
        udp_calls_def dgram_calls_def dgram_boot_def Let_def)
  obtain sw w2 where
    s: "dgram_open udp_calls (dgram_new_inet ''127.0.0.1'' 8080 False, w1) = (True, sw, w2)"
      "dg_sfd sw = 6" "set (dk_queue w2) = {}"
    by (simp add: r(3) dgram_open_def dgram_create_client_def dgram_build_address_def
        dgram_new_inet_def udp_calls_def dgram_calls_def Let_def)
  have pton: "os_inet_pton udp_calls ''127.0.0.1'' = (1, 0x0100007F)"
    by (simp add: udp_calls_def dgram_calls_def)
  show ?thesis
    using inet_dgram_genuine [OF kernel_udp.inet_dgram_os_axioms r(1) s(1) pton r(2) s(2) s(3)]
    by (simp only: r(1) s(1) Let_def case_prod_conv)
qed

text \<open>C29. A read of an arbitrary datagram: the size check passes exactly when the datagram holds a
  header and the body that header announces, and the result is then determined by those bytes; any
  other datagram that reaches the socket, in particular one shorter than a header, ends the
  receiving process.\<close>

theorem dgram_read_spec:
  assumes "length (dg_buffer s) = BUFFER_SIZE" and "dg_sfd s \<noteq> - 1"
    and "os_recvfrom K (dg_sfd s) BUFFER_SIZE w = (Transferred m, w')" and "length m \<le> BUFFER_SIZE"
  shows "dgram_read K (s, w) =
    (let hdr = take sizeof_header m; body = drop sizeof_header m; h = header_of_bytes hdr in
     if sizeof_header \<le> length m \<and> unat (h_body_size h) = length body
     then Inr (of_body h (decode_object (h_type h) body),
       s\<lparr>dg_buffer := m @ drop (length m) (dg_buffer s)\<rparr>, w')
     else Inl Assertion_Failed)"
proof (cases "length m < 16")
  case True
  with dgram_read_short [of s K w m w'] assms show ?thesis
    by (simp add: Let_def)
next
  case False
  with dgram_read_message [of s K w "take 16 m" "drop 16 m" w'] assms show ?thesis
    by (simp add: Let_def flip: append_assoc)
qed

theorem dgram_read_spec_witness:
  "dgram_read (dgram_calls False) ((dgram_new_inet '''' 8080 True)\<lparr>dg_sfd := 5\<rparr>,
     dgram_boot\<lparr>dk_queue := [[1, 2, 3]]\<rparr>) = Inl Assertion_Failed"
  by (subst dgram_read_spec [where m = "[1, 2, 3]" and w' = dgram_boot])
    (simp_all add: dgram_new_inet_def dgram_calls_def dgram_boot_def Let_def)


section \<open>Properties\<close>

text \<open>A write to an open datagram socket sends one datagram, the header with the next sequence number
  followed by the encoding of the object, to the socket's address; an object that does not fit is
  not sent and not even the clock is read.\<close>

lemma dgram_write_spec:
  assumes "length (dg_buffer s) = BUFFER_SIZE" and "dg_sfd s \<noteq> - 1"
    and "is_Sockaddr_Un (dg_address s) = dg_unix s"
  shows "dgram_write K obj (s, w) =
    (let (ts, w1) = os_clock K w; ident = dg_last_id s + 1;
         (res, w2) = os_sendto K (dg_sfd s) (message_bytes ident ts obj) (dg_address s) w1 in
     if length (object_bytes obj) \<le> body_capacity
     then Inr (res \<noteq> - 1,
       s\<lparr>dg_last_id := ident, dg_buffer := staged ident ts obj (dg_buffer s)\<rparr>, w2)
     else Inr (False, s, w))"
proof -
  obtain ts w1 where clock: "os_clock K w = (ts, w1)"
    by (cases "os_clock K w")
  obtain res w2 where
    sent: "os_sendto K (dg_sfd s) (message_bytes (dg_last_id s + 1) ts obj) (dg_address s) w1 = (res, w2)"
    by fastforce
  show ?thesis
    using dgram_write_eq [OF _ assms(2) assms(3) clock sent] assms(1)
    by (simp only: BUFFER_SIZE_val body_capacity_val clock sent Let_def case_prod_conv)
qed

end
