(* ===== verification/Stream_Channel.thy ===== *)
theory Stream_Channel
  imports Stream_Socket Channel
begin

text \<open>
  Stream sockets end to end.  A connection carries bytes, not messages: a \<open>recv\<close> may deliver any
  non-empty part of what is in flight, and may report \<open>EAGAIN\<close> although bytes are in flight.  The
  locale \<open>stream_receiver\<close> states this for one end, with a measure \<open>stall\<close> that bounds how long the
  operating system can put a receiver off, and \<open>stream_os\<close> adds the other end.  Under these laws the
  two receive loops terminate and reassemble the message.
\<close>

section \<open>The laws of a connection\<close>

locale stream_receiver =
  fixes K :: "'w sock_os"
    and rfd :: int
    and flight :: "'w \<Rightarrow> byte list"
    and stall :: "'w \<Rightarrow> nat"
  assumes receiver_open: "rfd \<noteq> - 1"
    and recv_flight: "\<lbrakk>flight w \<noteq> []; 0 < n\<rbrakk> \<Longrightarrow> \<exists>r w'. os_recv K rfd n w = (r, w') \<and>
      (r = Failed EAGAIN \<and> flight w' = flight w \<and> stall w' < stall w \<or>
       (\<exists>k. r = Transferred (take k (flight w)) \<and> 0 < k \<and> k \<le> n \<and> k \<le> length (flight w) \<and>
            flight w' = drop k (flight w)))"

locale stream_os = stream_receiver K rfd flight stall
  for K :: "'w sock_os"
    and wfd :: int
    and rfd :: int
    and flight :: "'w \<Rightarrow> byte list"
    and stall :: "'w \<Rightarrow> nat" +
  assumes sender_open: "wfd \<noteq> - 1"
    and clock_flight: "os_clock K w = (ts, w') \<Longrightarrow> flight w' = flight w"
    and send_flight: "\<lbrakk>length bs \<le> BUFFER_SIZE; os_send K wfd bs w = (res, w')\<rbrakk> \<Longrightarrow>
      flight w' = (if res = - 1 then flight w else flight w @ bs)"
    and recv_idle: "\<lbrakk>flight w = []; 0 < n\<rbrakk> \<Longrightarrow>
      \<exists>w'. os_recv K rfd n w = (Failed EAGAIN, w') \<and> flight w' = []"

definition stream_carries ::
  "int \<Rightarrow> int \<Rightarrow> ('w \<Rightarrow> byte list) \<Rightarrow> stream_socket \<times> stream_socket \<times> 'w \<Rightarrow> message list \<Rightarrow> bool" where
  "stream_carries wfd rfd flight = (\<lambda>(sw, sr, w) ms.
     st_sfd sw = wfd \<and> length (st_buffer sw) = BUFFER_SIZE \<and>
     st_cfd sr = rfd \<and> length (st_buffer sr) = BUFFER_SIZE \<and>
     flight w = concat (map wire ms) \<and> list_all sound_message ms)"

definition stream_pair_seq :: "stream_socket \<times> stream_socket \<times> 'w \<Rightarrow> u32" where
  "stream_pair_seq = (\<lambda>(sw, sr, w). st_last_id sw)"

definition stream_pair_stall :: "('w \<Rightarrow> nat) \<Rightarrow> stream_socket \<times> stream_socket \<times> 'w \<Rightarrow> nat" where
  "stream_pair_stall stall = (\<lambda>(sw, sr, w). stall w)"

section \<open>The receive loops\<close>

text \<open>Storing the next part of the bytes still to come, as both loops do.\<close>

lemma store_part:
  assumes "length buf = 528" and "amount + k \<le> 528" and "k \<le> length todo"
  shows "mem_store buf amount (take k todo) =
    Inr (take amount buf @ take k todo @ drop (amount + k) buf)"
  using assms by (simp add: mem_store_ok min_absorb2)

lemma stored_parts:
  assumes "length buf = 528" and "amount + k \<le> wanted" and "wanted \<le> 528"
    and "amount + length todo = wanted" and "k \<le> length todo"
    and "buf1 = take amount buf @ take k todo @ drop (amount + k) buf"
  shows "length buf1 = 528 \<and>
    take (amount + k) buf1 @ drop k todo @ drop wanted buf1 = take amount buf @ todo @ drop wanted buf"
proof -
  have "length buf1 = 528"
    using assms by (simp add: min_absorb2)
  moreover have "take (amount + k) buf1 = take amount buf @ take k todo"
    using assms by (simp add: min_absorb2)
  moreover have "drop wanted buf1 = drop wanted buf"
    using assms by (simp add: min_absorb2)
  ultimately show ?thesis
    by simp
qed

text \<open>The measure of both loops: the bytes still to come, then the system's power to stall.\<close>

lemma part_is_progress:
  assumes "0 < k" and "k \<le> length todo"
  shows "((length (drop k todo), m), length todo, n) \<in> less_than <*lex*> less_than"
proof -
  have "length todo - k < length todo"
    using assms by linarith
  then show ?thesis by simp
qed

context stream_receiver
begin

lemmas progress = wf_induct_rule [OF wf_lex_prod [OF wf_less_than wf_less_than], case_names step]

lemma recv_body_gets:
  assumes "flight w = todo @ rest" and "amount + length todo = wanted"
    and "length buf = 528" and "wanted \<le> 528"
  shows "\<exists>w'. recv_body K rfd wanted amount buf w =
      Some (Inr (None, take amount buf @ todo @ drop wanted buf, w')) \<and> flight w' = rest"
  using assms
proof (induction "(length todo, stall w)" arbitrary: amount buf w todo rule: progress)
  case step
  show ?case
  proof (cases "todo = []")
    case True
    with step.prems show ?thesis
      by (subst recv_body.simps) simp
  next
    case False
    then have more: "amount < wanted" and busy: "flight w \<noteq> []"
      using step.prems by auto
    from recv_flight [OF busy, of "wanted - amount"] more obtain r w1
      where recv: "os_recv K rfd (wanted - amount) w = (r, w1)"
        and r: "r = Failed EAGAIN \<and> flight w1 = flight w \<and> stall w1 < stall w \<or>
          (\<exists>k. r = Transferred (take k (flight w)) \<and> 0 < k \<and> k \<le> wanted - amount \<and>
               k \<le> length (flight w) \<and> flight w1 = drop k (flight w))"
      by auto
    from r show ?thesis
    proof (elim disjE conjE exE)
      assume r1: "r = Failed EAGAIN" and w1: "flight w1 = flight w" "stall w1 < stall w"
      have "((length todo, stall w1), length todo, stall w) \<in> less_than <*lex*> less_than"
        using w1(2) by simp
      from step.hyps [OF this] step.prems w1(1) more show ?thesis
        by (subst recv_body.simps) (simp add: recv r1)
    next
      fix k
      assume r1: "r = Transferred (take k (flight w))" and k: "0 < k" "k \<le> wanted - amount"
        and w1: "flight w1 = drop k (flight w)"
      have part: "take k (flight w) = take k todo" "flight w1 = drop k todo @ rest"
        and bound: "k \<le> length todo" "amount + k \<le> wanted"
        using step.prems k w1 more by simp_all
      define buf1 where "buf1 = take amount buf @ take k todo @ drop (amount + k) buf"
      from stored_parts [OF step.prems(3) bound(2) step.prems(4,2) bound(1) buf1_def]
      have buf1: "length buf1 = 528"
        "take (amount + k) buf1 @ drop k todo @ drop wanted buf1 =
         take amount buf @ todo @ drop wanted buf" by simp_all
      have store: "mem_store buf amount (take k todo) = Inr buf1"
        using step.prems bound by (simp add: store_part buf1_def)
      note smaller = part_is_progress [of k todo "stall w1" "stall w", OF k(1) bound(1)]
      have "amount + k + length (drop k todo) = wanted"
        using step.prems bound by simp
      from step.hyps [OF smaller part(2) this buf1(1) step.prems(4)] obtain w'
        where "recv_body K rfd wanted (amount + k) buf1 w1 =
            Some (Inr (None, take (amount + k) buf1 @ drop k todo @ drop wanted buf1, w'))"
          and "flight w' = rest" by blast
      with buf1(2) more k bound show ?thesis
        by (subst recv_body.simps) (simp add: recv r1 part(1) store min_absorb2)
    qed
  qed
qed

text \<open>A body longer than the buffer is received until the first part that does not fit.\<close>

lemma recv_body_overflows:
  assumes "flight w = todo @ rest" and "amount + length todo = wanted"
    and "length buf = 528" and "amount \<le> 528" and "528 < wanted"
  shows "recv_body K rfd wanted amount buf w = Some (Inl Out_Of_Bounds)"
  using assms
proof (induction "(length todo, stall w)" arbitrary: amount buf w todo rule: progress)
  case step
  have more: "amount < wanted" and busy: "flight w \<noteq> []"
    using step.prems by auto
  from recv_flight [OF busy, of "wanted - amount"] more obtain r w1
    where recv: "os_recv K rfd (wanted - amount) w = (r, w1)"
      and r: "r = Failed EAGAIN \<and> flight w1 = flight w \<and> stall w1 < stall w \<or>
        (\<exists>k. r = Transferred (take k (flight w)) \<and> 0 < k \<and> k \<le> wanted - amount \<and>
             k \<le> length (flight w) \<and> flight w1 = drop k (flight w))"
    by auto
  from r show ?case
  proof (elim disjE conjE exE)
    assume r1: "r = Failed EAGAIN" and w1: "flight w1 = flight w" "stall w1 < stall w"
    have "((length todo, stall w1), length todo, stall w) \<in> less_than <*lex*> less_than"
      using w1(2) by simp
    from step.hyps [OF this] step.prems w1(1) more show ?thesis
      by (subst recv_body.simps) (simp add: recv r1)
  next
    fix k
    assume r1: "r = Transferred (take k (flight w))" and k: "0 < k" "k \<le> wanted - amount"
      and w1: "flight w1 = drop k (flight w)"
    have part: "take k (flight w) = take k todo" "flight w1 = drop k todo @ rest"
      and bound: "k \<le> length todo" "k \<le> length todo"
      using step.prems k w1 more by simp_all
    show ?thesis
    proof (cases "amount + k \<le> 528")
      case True
      define buf1 where "buf1 = take amount buf @ take k todo @ drop (amount + k) buf"
      have store: "mem_store buf amount (take k todo) = Inr buf1" and len: "length buf1 = 528"
        using step.prems bound True by (simp_all add: store_part buf1_def min_absorb2)
      note smaller = part_is_progress [of k todo "stall w1" "stall w", OF k(1) bound(1)]
      from step.hyps [OF smaller part(2) _ len True] step.prems bound
      have "recv_body K rfd wanted (amount + k) buf1 w1 = Some (Inl Out_Of_Bounds)"
        by auto
      with more k bound show ?thesis
        by (subst recv_body.simps) (simp add: recv r1 part(1) store min_absorb2)
    next
      case False
      then have "mem_store buf amount (take k todo) = Inl Out_Of_Bounds"
        using step.prems bound by (simp add: mem_store_def min_absorb2)
      with more show ?thesis
        by (subst recv_body.simps) (simp add: recv r1 part(1))
    qed
  qed
qed

end

context stream_receiver
begin

text \<open>
  The header loop receives the whole header once it has received a part of it; before that it may
  give up, with everything still in flight.
\<close>

lemma recv_header_gets:
  assumes "flight w = todo @ rest" and "amount + length todo = 16" and "todo \<noteq> []"
    and "length buf = 528"
  shows "(\<exists>w'. recv_header K rfd amount buf w =
        Some (Inr (None, take amount buf @ todo @ drop 16 buf, w')) \<and> flight w' = rest) \<or>
    amount = 0 \<and> (\<exists>w'. recv_header K rfd amount buf w =
        Some (Inr (Some NO_DATA_AVAILABLE, buf, w')) \<and> flight w' = flight w \<and> stall w' < stall w)"
  using assms
proof (induction "(length todo, stall w)" arbitrary: amount buf w todo rule: progress)
  case step
  have more: "amount < 16" and busy: "flight w \<noteq> []"
    using step.prems by (auto simp: length_greater_0_conv [symmetric] simp del: length_greater_0_conv)
  from recv_flight [OF busy, of "16 - amount"] more obtain r w1
    where recv: "os_recv K rfd (16 - amount) w = (r, w1)"
      and r: "r = Failed EAGAIN \<and> flight w1 = flight w \<and> stall w1 < stall w \<or>
        (\<exists>k. r = Transferred (take k (flight w)) \<and> 0 < k \<and> k \<le> 16 - amount \<and>
             k \<le> length (flight w) \<and> flight w1 = drop k (flight w))"
    by auto
  from r show ?case
  proof (elim disjE conjE exE)
    assume r1: "r = Failed EAGAIN" and w1: "flight w1 = flight w" "stall w1 < stall w"
    show ?thesis
    proof (cases "amount = 0")
      case True
      with w1 show ?thesis
        by (subst (1 2) recv_header.simps) (use recv r1 in simp)
    next
      case False
      have "((length todo, stall w1), length todo, stall w) \<in> less_than <*lex*> less_than"
        using w1(2) by simp
      from step.hyps [OF this, of amount buf] step.prems w1(1) False show ?thesis
        by (subst recv_header.simps) (simp add: recv r1)
    qed
  next
    fix k
    assume r1: "r = Transferred (take k (flight w))" and k: "0 < k" "k \<le> 16 - amount"
      and w1: "flight w1 = drop k (flight w)"
    have part: "take k (flight w) = take k todo" "flight w1 = drop k todo @ rest"
      and bound: "k \<le> length todo" "amount + k \<le> 16"
      using step.prems k w1 more by simp_all
    define buf1 where "buf1 = take amount buf @ take k todo @ drop (amount + k) buf"
    have "(16 :: nat) \<le> 528" by simp
    from stored_parts [OF step.prems(4) bound(2) this step.prems(2) bound(1) buf1_def]
    have buf1: "length buf1 = 528"
      "take (amount + k) buf1 @ drop k todo @ drop 16 buf1 = take amount buf @ todo @ drop 16 buf"
      by simp_all
    have store: "mem_store buf amount (take k todo) = Inr buf1"
      using step.prems bound by (simp add: store_part buf1_def)
    show ?thesis
    proof (cases "amount + k < 16")
      case True
      have "amount + k + length (drop k todo) = 16" and "drop k todo \<noteq> []"
        using step.prems bound True by simp_all
      from step.hyps [OF part_is_progress [OF k(1) bound(1)] part(2) this buf1(1)] k(1)
      obtain w' where "recv_header K rfd (amount + k) buf1 w1 =
          Some (Inr (None, take (amount + k) buf1 @ drop k todo @ drop 16 buf1, w'))"
        and "flight w' = rest" by auto
      with buf1(2) k bound True show ?thesis
        by (subst recv_header.simps) (simp add: recv r1 part(1) store min_absorb2)
    next
      case False
      with bound step.prems have all: "k = length todo" by simp
      have "mem_store buf amount todo = Inr (take amount buf @ todo @ drop 16 buf)"
        using step.prems by (simp add: mem_store_ok)
      with part(2) step.prems show ?thesis
        by (intro disjI1) (subst recv_header.simps, simp add: recv r1 part(1) all)
    qed
  qed
qed

text \<open>
  One read with a header and the body it announces in flight: it returns, and either nothing was
  consumed, or the result is determined by the bytes - or the body does not fit the buffer.
\<close>

lemma stream_read_bytes:
  assumes buffer: "length (st_buffer s) = 528" and fd: "st_cfd s = rfd"
    and content: "flight w = hdr @ body @ rest" and hdr: "length hdr = 16"
    and body: "length body = unat (h_body_size (header_of_bytes hdr))"
  shows "(\<exists>w'. stream_read K (s, w) = Some (Inr (Inl NO_DATA_AVAILABLE, s, w')) \<and>
      flight w' = flight w \<and> stall w' < stall w) \<or>
    (if length body \<le> 528
     then \<exists>buf w'. stream_read K (s, w) = Some (Inr
         (of_body (header_of_bytes hdr) (decode_object (h_type (header_of_bytes hdr)) body),
          s\<lparr>st_buffer := buf\<rparr>, w')) \<and> length buf = 528 \<and> flight w' = rest
     else stream_read K (s, w) = Some (Inl Out_Of_Bounds))"
proof -
  have nonempty: "hdr \<noteq> []" and "0 + length hdr = 16"
    using hdr by auto
  from recv_header_gets [OF content this(2,1) buffer] show ?thesis
  proof (elim disjE conjE exE)
    fix w1
    assume "recv_header K rfd 0 (st_buffer s) w = Some (Inr (Some NO_DATA_AVAILABLE, st_buffer s, w1))"
      and "flight w1 = flight w" "stall w1 < stall w"
    with fd receiver_open show ?thesis
      by (simp add: stream_read_def)
  next
    fix w1
    define buf1 where "buf1 = hdr @ drop 16 (st_buffer s)"
    assume "recv_header K rfd 0 (st_buffer s) w =
        Some (Inr (None, take 0 (st_buffer s) @ hdr @ drop 16 (st_buffer s), w1))"
      and p1: "flight w1 = body @ rest"
    then have h1: "recv_header K rfd 0 (st_buffer s) w = Some (Inr (None, buf1, w1))"
      by (simp add: buf1_def)
    have len1: "length buf1 = 528"
      using buffer hdr by (simp add: buf1_def)
    have header: "header_deserialize buf1 0 (u32_of_size 16) = Inr (Some (header_of_bytes hdr))"
      using hdr by (simp add: deserialize_header [OF len1]) (simp add: buf1_def)
    have wanted: "0 + length body = unat (h_body_size (header_of_bytes hdr))"
      using body by simp
    show ?thesis
    proof (cases "length body \<le> 528")
      case True
      define buf2 where "buf2 = body @ drop (length body) buf1"
      have len2: "length buf2 = 528"
        using True len1 by (simp add: buf2_def)
      from recv_body_gets [OF p1 wanted len1] True body obtain w2
        where b: "recv_body K rfd (unat (h_body_size (header_of_bytes hdr))) 0 buf1 w1 =
            Some (Inr (None, buf2, w2))" and p2: "flight w2 = rest"
        by (auto simp: buf2_def)
      have "deserialize_data_object t buf2 0 (ucast (h_body_size (header_of_bytes hdr))) =
          Inr (decode_object t body)" for t
        using True len2 body
        by (subst deserialize_data_object_bytes) (simp_all add: region_def buf2_def)
      with fd receiver_open True len2 p2 show ?thesis
        by (auto simp: stream_read_def h1 header b)
    next
      case False
      from recv_body_overflows [OF p1 wanted len1] False body
      have "recv_body K rfd (unat (h_body_size (header_of_bytes hdr))) 0 buf1 w1 =
          Some (Inl Out_Of_Bounds)" by simp
      with fd receiver_open False show ?thesis
        by (simp add: stream_read_def h1 header)
    qed
  qed
qed

end

section \<open>A connection is a reliable channel\<close>

context stream_os
begin

lemma send_stream:
  assumes "stream_carries wfd rfd flight c ms"
  shows "\<exists>ok c' h. channel_send (stream_iface K) obj c = Inr (ok, c') \<and>
    (ok \<longrightarrow> stream_pair_seq c' = stream_pair_seq c + 1 \<and> h_id h = stream_pair_seq c' \<and>
      stream_carries wfd rfd flight c' (ms @ [(h, obj)])) \<and>
    (\<not> ok \<longrightarrow> stream_carries wfd rfd flight c' ms)"
proof -
  obtain sw sr w where c: "c = (sw, sr, w)" by (metis prod_cases3)
  have len: "length (st_buffer sw) = 528" and fd: "st_sfd sw = wfd"
    using assms by (simp_all add: c stream_carries_def)
  have open': "st_sfd sw \<noteq> - 1"
    using fd sender_open by simp
  obtain ts w1 where clock: "os_clock K w = (ts, w1)" by (cases "os_clock K w")
  obtain res w2 where
    sent: "os_send K (st_sfd sw) (message_bytes (st_last_id sw + 1) ts obj) w1 = (res, w2)"
    by fastforce
  show ?thesis
  proof (cases "length (object_bytes obj) \<le> 512")
    case True
    define h where "h = header_of (st_last_id sw + 1) ts obj"
    have "length (message_bytes (st_last_id sw + 1) ts obj) \<le> BUFFER_SIZE"
      using True by simp
    from send_flight [OF this, of w1 res w2] sent fd clock_flight [OF clock]
    have "flight w2 = (if res = - 1 then flight w else flight w @ wire (h, obj))"
      by (simp add: h_def message_bytes_def)
    with assms True len show ?thesis
      by (intro exI [of _ "res \<noteq> - 1"] exI exI [of _ h] conjI)
        (auto simp: c channel_send_def stream_write_eq [OF len open' clock sent] stream_pair_seq_def
          stream_carries_def h_def)
  next
    case False
    with assms clock_flight [OF clock] show ?thesis
      by (intro exI [of _ False])
        (simp add: c channel_send_def stream_write_eq [OF len open' clock sent] stream_carries_def)
  qed
qed

lemma receive_stream:
  assumes "stream_carries wfd rfd flight c (m # ms)"
  shows "\<exists>r c'. channel_receive (stream_iface K) c = Some (Inr (r, c')) \<and>
    stream_pair_seq c' = stream_pair_seq c \<and>
    (r = Inr m \<and> stream_carries wfd rfd flight c' ms \<or>
     r = Inl NO_DATA_AVAILABLE \<and> stream_carries wfd rfd flight c' (m # ms) \<and>
       stream_pair_stall stall c' < stream_pair_stall stall c)"
proof -
  obtain sw sr w where c: "c = (sw, sr, w)" by (metis prod_cases3)
  obtain h obj where m: "m = (h, obj)" by (cases m)
  have inv: "length (st_buffer sr) = 528" "st_cfd sr = rfd" "sound_message (h, obj)"
    and content: "flight w = header_bytes h @ object_bytes obj @ concat (map wire ms)"
    using assms by (simp_all add: c m stream_carries_def)
  have size: "length (object_bytes obj) = unat (h_body_size (header_of_bytes (header_bytes h)))"
      "length (object_bytes obj) \<le> 528"
    and obj: "decode_object (h_type h) (object_bytes obj) = Inr obj" "canonical_type (h_type h)"
    using inv(3) by simp_all
  have "length (header_bytes h) = 16" by simp
  from stream_read_bytes [OF inv(1,2) content this size(1)] size(2)
  show ?thesis
  proof (elim disjE exE conjE)
    fix w'
    assume "stream_read K (sr, w) = Some (Inr (Inl NO_DATA_AVAILABLE, sr, w'))"
      and "flight w' = flight w" "stall w' < stall w"
    with assms show ?thesis
      by (simp add: c channel_receive_def stream_pair_seq_def stream_pair_stall_def
          stream_carries_def)
  next
    assume "if length (object_bytes obj) \<le> 528
     then \<exists>buf w'. stream_read K (sr, w) = Some (Inr
         (of_body (header_of_bytes (header_bytes h))
            (decode_object (h_type (header_of_bytes (header_bytes h))) (object_bytes obj)),
          sr\<lparr>st_buffer := buf\<rparr>, w')) \<and> length buf = 528 \<and> flight w' = concat (map wire ms)
     else stream_read K (sr, w) = Some (Inl Out_Of_Bounds)"
    with size(2) obj obtain buf w' where "length buf = 528" "flight w' = concat (map wire ms)"
      "stream_read K (sr, w) = Some (Inr (Inr (h, obj), sr\<lparr>st_buffer := buf\<rparr>, w'))"
      by auto
    with assms show ?thesis
      by (simp add: c m channel_receive_def stream_pair_seq_def stream_carries_def)
  qed
qed

lemma receive_stream_empty:
  assumes "stream_carries wfd rfd flight c []"
  shows "\<exists>c'. channel_receive (stream_iface K) c = Some (Inr (Inl NO_DATA_AVAILABLE, c')) \<and>
    stream_pair_seq c' = stream_pair_seq c \<and> stream_carries wfd rfd flight c' []"
proof -
  obtain sw sr w where c: "c = (sw, sr, w)" by (metis prod_cases3)
  from assms have "flight w = []" by (simp add: c stream_carries_def)
  from recv_idle [OF this, of 16] obtain w'
    where "os_recv K rfd 16 w = (Failed EAGAIN, w')" "flight w' = []"
    by auto
  then have "recv_header K rfd 0 (st_buffer sr) w =
      Some (Inr (Some NO_DATA_AVAILABLE, st_buffer sr, w'))"
    by (subst recv_header.simps) simp
  with assms receiver_open \<open>flight w' = []\<close> show ?thesis
    by (simp add: c channel_receive_def stream_read_def stream_pair_seq_def stream_carries_def)
qed

end

sublocale stream_os \<subseteq> connection: message_channel "channel_send (stream_iface K)"
  "channel_receive (stream_iface K)" "stream_carries wfd rfd flight" stream_pair_seq
  "stream_pair_stall stall"
proof (unfold_locales, goal_cases)
  case (1 c ms obj)
  from send_stream [OF 1] show ?case by blast
next
  case (2 c m ms)
  from receive_stream [OF 2] show ?case .
next
  case (3 c)
  from receive_stream_empty [OF 3] show ?case by blast
next
  case (4 c ms obj c')
  from send_stream [OF 4(1), of obj] 4(2) show ?case by auto
next
  case (5 c ms obj c')
  from send_stream [OF 5(1), of obj] 5(2) show ?case by auto
qed

context stream_os
begin

lemma stream_session_run:
  assumes "stream_carries wfd rfd flight c []"
  shows "\<exists>n s. channel_run (channel_send (stream_iface K)) (channel_receive (stream_iface K))
      (as @ replicate n Receive) (start_run c) = Some (Inr s) \<and>
    map snd (rs_received s) = rs_sent s \<and>
    (rs_failed s = 0 \<longrightarrow>
       map (h_id \<circ> fst) (rs_received s) = numbers (stream_pair_seq c) (length (rs_sent s))) \<and>
    set (rs_errors s) \<subseteq> {NO_DATA_AVAILABLE}"
  by (rule connection.run_then_drain [OF assms])

end

section \<open>Sessions\<close>

lemma stream_opened:
  assumes "stream_open K (s0, w) = (True, s, w')" and "st_sfd s0 = - 1"
    and "length (st_buffer s0) = 528" and "st_last_id s0 = 0"
  shows "length (st_buffer s) = 528 \<and> st_last_id s = 0 \<and> st_cfd s = st_cfd s0"
proof -
  obtain c s1 w1 where
    "(if st_server s0 then stream_create_server K (s0, w) else stream_create_client K (s0, w)) =
      (c, s1, w1)" by (metis surj_pair)
  with assms have "s = s1 \<and> stream_created s0 c s1"
    using stream_create_server_frame [of K s0 w] stream_create_client_frame [of K s0 w]
    by (auto simp: stream_open_def Let_def split: if_splits)
  with assms show ?thesis
    by (simp add: stream_created_def)
qed

text \<open>
  An executable reference kernel with one connection, as unhelpful as the laws allow: it delivers at
  most seven bytes at a time and before each delivery puts the receiver off twice, \<open>poll\<close> with a timeout
  and \<open>recv\<close> with \<open>EAGAIN\<close>.
\<close>

record stream_kernel =
  sk_time :: u64
  sk_listening :: bool
  sk_pending :: bool
  sk_flight :: "byte list"
  sk_stall :: nat

definition stream_calls :: "stream_kernel sock_os" where
  "stream_calls = \<lparr>
     os_clock = (\<lambda>k. (sk_time k, k\<lparr>sk_time := sk_time k + 1\<rparr>)),
     os_poll = (\<lambda>fds _ k.
       if map pfd_fd fds = [5] then (if sk_pending k then 1 else 0, k)
       else if sk_flight k = [] then (0, k)
       else if 0 < sk_stall k then (0, k\<lparr>sk_stall := sk_stall k - 1\<rparr>)
       else (1, k)),
     os_remove = (\<lambda>_ k. k),
     os_socket = (\<lambda>_ _ nonblock k. (if nonblock then 5 else 6, k)),
     os_set_reuseaddr = (\<lambda>_ _ k. k),
     os_bind = (\<lambda>_ _ k. (0, k)),
     os_listen = (\<lambda>_ _ k. (0, k\<lparr>sk_listening := True\<rparr>)),
     os_connect = (\<lambda>_ _ k.
       if sk_listening k then (0, k\<lparr>sk_pending := True, sk_flight := []\<rparr>) else (- 1, k)),
     os_accept4 = (\<lambda>_ k. if sk_pending k then (7, k\<lparr>sk_pending := False\<rparr>) else (- 1, k)),
     os_sock_close = (\<lambda>_ k. k),
     os_send = (\<lambda>_ bs k.
       if length (sk_flight k) + length bs \<le> 65536
       then (int (length bs), k\<lparr>sk_flight := sk_flight k @ bs\<rparr>) else (- 1, k)),
     os_recv = (\<lambda>_ n k.
       if sk_flight k = [] then (Failed EAGAIN, k)
       else if 0 < sk_stall k then (Failed EAGAIN, k\<lparr>sk_stall := sk_stall k - 1\<rparr>)
       else let n = min 7 n in
         (Transferred (take n (sk_flight k)), k\<lparr>sk_flight := drop n (sk_flight k), sk_stall := 2\<rparr>)),
     os_sendto = (\<lambda>_ _ _ k. (- 1, k)),
     os_recvfrom = (\<lambda>_ _ k. (Failed (Other_Errno 95), k)),
     os_inet_pton = (\<lambda>address. if address = ''127.0.0.1'' then (1, 0x0100007F) else (0, 0))\<rparr>"

definition stream_boot :: stream_kernel where
  "stream_boot = \<lparr>sk_time = 1000, sk_listening = False, sk_pending = False, sk_flight = [],
     sk_stall = 2\<rparr>"

interpretation kernel_stream: stream_os stream_calls 6 7 sk_flight sk_stall
proof (unfold_locales, goal_cases)
  case (2 k n)
  show ?case
  proof (cases "0 < sk_stall k")
    case True
    with 2 show ?thesis by (simp add: stream_calls_def)
  next
    case False
    with 2 show ?thesis
      by (auto simp: stream_calls_def Let_def min_def
          intro!: exI [of _ "min (min 7 n) (length (sk_flight k))"])
  qed
qed (auto simp: stream_calls_def split: if_splits)

text \<open>C2. Stream sockets end to end, for both domains: after the server listened, the client connected
  and the server accepted the connection, any interleaving of writes and reads neither faults nor
  hangs, however the connection splits the bytes and however often it puts the receiver off; and a
  finite number of further reads delivers exactly the objects whose write returned true, in order,
  unchanged, and numbered consecutively if no write failed.\<close>

theorem stream_delivers:
  assumes "stream_os K wfd rfd flight stall"
    and "server = (if local_domain then stream_new_unix path True else stream_new_inet path port True)"
    and "client = (if local_domain then stream_new_unix path False else stream_new_inet addr port False)"
    and "stream_open K (server, w) = (True, sr0, w1)"
    and "stream_open K (client, w1) = (True, sw, w2)"
    and "stream_accept K (sr0, w2) = (True, sr, w3)"
    and "st_cfd sr = rfd" and "st_sfd sw = wfd" and "flight w3 = []"
  shows "\<exists>n s. channel_run (channel_send (stream_iface K)) (channel_receive (stream_iface K))
      (as @ replicate n Receive) (start_run (sw, sr, w3)) = Some (Inr s) \<and>
    map snd (rs_received s) = rs_sent s \<and>
    (rs_failed s = 0 \<longrightarrow> map (h_id \<circ> fst) (rs_received s) = numbers 0 (length (rs_sent s))) \<and>
    set (rs_errors s) \<subseteq> {NO_DATA_AVAILABLE}"
  using stream_os.stream_session_run [OF assms(1), of "(sw, sr, w3)" as]
    stream_opened [OF assms(4)] stream_opened [OF assms(5)] stream_accept_frame [OF assms(6)]
    assms(2,3,7-9)
  by (simp add: stream_carries_def stream_pair_seq_def stream_new_unix_def stream_new_inet_def
      split: if_splits)

theorem stream_delivers_witness:
  "let (_, sr0, w1) = stream_open stream_calls (stream_new_inet '''' 8080 True, stream_boot);
       (_, sw, w2) = stream_open stream_calls (stream_new_inet ''127.0.0.1'' 8080 False, w1);
       (_, sr, w3) = stream_accept stream_calls (sr0, w2)
   in \<exists>n s. channel_run (channel_send (stream_iface stream_calls))
      (channel_receive (stream_iface stream_calls))
      ([Send Ping, Receive, Send Ping] @ replicate n Receive) (start_run (sw, sr, w3)) = Some (Inr s) \<and>
    map snd (rs_received s) = rs_sent s \<and>
    (rs_failed s = 0 \<longrightarrow> map (h_id \<circ> fst) (rs_received s) = numbers 0 (length (rs_sent s))) \<and>
    set (rs_errors s) \<subseteq> {NO_DATA_AVAILABLE}"
proof -
  obtain sr0 w1 where
    r: "stream_open stream_calls (stream_new_inet '''' 8080 True, stream_boot) = (True, sr0, w1)"
      "st_sfd sr0 = 5" "st_cfd sr0 = - 1" "sk_listening w1"
    by (simp add: stream_open_def stream_create_server_def stream_build_address_def
        stream_new_inet_def stream_calls_def stream_boot_def Let_def)
  obtain sw w2 where
    s: "stream_open stream_calls (stream_new_inet ''127.0.0.1'' 8080 False, w1) = (True, sw, w2)"
      "st_sfd sw = 6" "sk_pending w2" "sk_flight w2 = []"
    using r(4)
    by (simp add: stream_open_def stream_create_client_def stream_build_address_def
        stream_new_inet_def stream_calls_def Let_def)
  obtain sr w3 where
    a: "stream_accept stream_calls (sr0, w2) = (True, sr, w3)" "st_cfd sr = 7" "sk_flight w3 = []"
    using r s by (simp add: stream_accept_def poll_def stream_calls_def Let_def)
  show ?thesis
    using stream_delivers [where local_domain = False, OF kernel_stream.stream_os_axioms refl refl,
        unfolded if_False, OF r(1) s(1) a(1,2) s(2) a(3)]
    by (simp only: r(1) s(1) a(1) Let_def case_prod_conv)
qed

text \<open>C28. A read from a connection on arbitrary bytes, with a header and the body it announces in
  flight: the read returns; either it found nothing yet and consumed nothing, or it consumed exactly
  the header and the body, and its result is determined by them; but a body that the header announces
  as longer than the buffer is received past the end of the buffer.\<close>

theorem stream_read_spec:
  assumes "stream_receiver K rfd flight stall"
    and "length (st_buffer s) = BUFFER_SIZE" and "st_cfd s = rfd"
    and "flight w = hdr @ body @ rest" and "length hdr = sizeof_header"
    and "length body = unat (h_body_size (header_of_bytes hdr))"
  shows "(\<exists>w'. stream_read K (s, w) = Some (Inr (Inl NO_DATA_AVAILABLE, s, w')) \<and>
      flight w' = flight w \<and> stall w' < stall w) \<or>
    (if length body \<le> BUFFER_SIZE
     then \<exists>buf w'. stream_read K (s, w) = Some (Inr
         (of_body (header_of_bytes hdr) (decode_object (h_type (header_of_bytes hdr)) body),
          s\<lparr>st_buffer := buf\<rparr>, w')) \<and> length buf = BUFFER_SIZE \<and> flight w' = rest
     else stream_read K (s, w) = Some (Inl Out_Of_Bounds))"
  using stream_receiver.stream_read_bytes [OF assms(1) _ assms(3,4) _ assms(6)] assms(2,5)
  unfolding BUFFER_SIZE_val sizeof_header_val by blast

text \<open>The witness is the overflow again, with a header that announces 600 bytes.\<close>

definition overlong_body :: data_header where
  "overlong_body = \<lparr>h_id = 1, h_type = BINARY_DATA, h_body_size = 600, h_timestamp = 0\<rparr>"

theorem stream_read_spec_witness:
  "stream_read stream_calls ((stream_new_unix ''/tmp/s'' True)\<lparr>st_cfd := 7\<rparr>,
     stream_boot\<lparr>sk_flight := header_bytes overlong_body @ replicate 600 0, sk_stall := 0\<rparr>) =
   Some (Inl Out_Of_Bounds)"
  using stream_read_spec [OF kernel_stream.stream_receiver_axioms,
      of "(stream_new_unix ''/tmp/s'' True)\<lparr>st_cfd := 7\<rparr>"
        "stream_boot\<lparr>sk_flight := header_bytes overlong_body @ replicate 600 0, sk_stall := 0\<rparr>"
        "header_bytes overlong_body" "replicate 600 0" "[]"]
  by (simp add: stream_new_unix_def overlong_body_def)


section \<open>Properties\<close>

text \<open>A write to an open stream socket sends the header with the next sequence number and the encoding
  of the object in one call; an object that does not fit is not sent.\<close>

lemma stream_write_spec:
  assumes "length (st_buffer s) = BUFFER_SIZE" and "st_sfd s \<noteq> - 1"
  shows "stream_write K obj (s, w) =
    (let (ts, w1) = os_clock K w; ident = st_last_id s + 1;
         (res, w2) = os_send K (st_sfd s) (message_bytes ident ts obj) w1 in
     if length (object_bytes obj) \<le> body_capacity
     then Inr (res \<noteq> - 1,
       s\<lparr>st_last_id := ident, st_buffer := staged ident ts obj (st_buffer s)\<rparr>, w2)
     else Inr (False, s, w1))"
proof -
  obtain ts w1 where clock: "os_clock K w = (ts, w1)"
    by (cases "os_clock K w")
  obtain res w2 where
    sent: "os_send K (st_sfd s) (message_bytes (st_last_id s + 1) ts obj) w1 = (res, w2)"
    by fastforce
  show ?thesis
    using stream_write_eq [OF _ assms(2) clock sent] assms(1)
    by (simp only: BUFFER_SIZE_val body_capacity_val clock sent Let_def case_prod_conv)
qed

end
