(* ===== verification/Semaphores.thy ===== *)
theory Semaphores
  imports Comm_Interface
begin

text \<open>
  What shared memory and the shared file have in common: POSIX semaphores as calls of the operating
  system, their names, and the laws of a pair of counting semaphores that guard a ring of slots.
\<close>

text \<open>
  Pointers are \<open>None\<close> when null; \<open>SEM_FAILED\<close> is the null pointer on Linux, the platform of the
  program.
\<close>

type_synonym pointer = "nat option"

text \<open>
  Semaphore calls that can fail return \<open>None\<close> for success and the \<open>errno\<close> otherwise.
\<close>

record 'w sem_os = "'w os_base" +
  os_sem_unlink :: "string \<Rightarrow> 'w \<Rightarrow> 'w"
  os_sem_open :: "string \<Rightarrow> open_flag list \<Rightarrow> nat \<Rightarrow> 'w \<Rightarrow> pointer \<times> 'w"
  os_sem_close :: "pointer \<Rightarrow> 'w \<Rightarrow> 'w"
  os_realtime :: "'w \<Rightarrow> (int \<times> int) option \<times> 'w"
  os_sem_wait :: "pointer \<Rightarrow> 'w \<Rightarrow> errno option \<times> 'w"
  os_sem_trywait :: "pointer \<Rightarrow> 'w \<Rightarrow> errno option \<times> 'w"
  os_sem_timedwait :: "pointer \<Rightarrow> int \<times> int \<Rightarrow> 'w \<Rightarrow> errno option \<times> 'w"
  os_sem_post :: "pointer \<Rightarrow> 'w \<Rightarrow> 'w"
  os_sem_getvalue :: "pointer \<Rightarrow> 'w \<Rightarrow> int option"

text \<open>
  \<open>name_.substr(name_.rfind('/') + 1) + "_sem"\<close>: what follows the last slash, the whole name if
  there is none.
\<close>

definition sem_prefix :: "string \<Rightarrow> string" where
  "sem_prefix name = rev (takeWhile (\<lambda>c. c \<noteq> CHR ''/'') (rev name)) @ ''_sem''"

text \<open>
  \<open>view w\<close> is the guarded content and the values of the reader's and the writer's semaphore.  A wait
  succeeds only if the value is positive; a wait that ends without success - by a signal - changes
  nothing.
\<close>

locale semaphore_pair =
  fixes K :: "('w, 'z) sem_os_scheme"
    and rsem :: "pointer set"
    and wsem :: "pointer set"
    and view :: "'w \<Rightarrow> 'c \<times> nat \<times> nat"
  assumes clock_view: "os_clock K w = (ts, w') \<Longrightarrow> view w' = view w"
    and wait_view: "\<lbrakk>p \<in> wsem; view w = (m, f, v); os_sem_wait K p w = (res, w')\<rbrakk> \<Longrightarrow>
      if res = None then 0 < v \<and> view w' = (m, f, v - 1) else view w' = view w"
    and trywait_view: "\<lbrakk>p \<in> rsem; view w = (m, f, v)\<rbrakk> \<Longrightarrow>
      \<exists>w'. os_sem_trywait K p w = (if f = 0 then Some EAGAIN else None, w') \<and> view w' = (m, f - 1, v)"
    and post_reader_view: "\<lbrakk>p \<in> rsem; view w = (m, f, v)\<rbrakk> \<Longrightarrow>
      view (os_sem_post K p w) = (m, f + 1, v)"
    and post_writer_view: "\<lbrakk>p \<in> wsem; view w = (m, f, v)\<rbrakk> \<Longrightarrow>
      view (os_sem_post K p w) = (m, f, v + 1)"
begin

lemma trywait_cases:
  assumes "p \<in> rsem" and "view w = (m, f, v)"
  obtains (empty) w' where "f = 0" "os_sem_trywait K p w = (Some EAGAIN, w')" "view w' = view w"
  | (filled) w' where "0 < f" "os_sem_trywait K p w = (None, w')" "view w' = (m, f - 1, v)"
  using trywait_view [OF assms] assms(2) empty filled by (cases "f = 0") auto

end

section \<open>Positions in a ring\<close>

lemma ring_positions_differ:
  assumes "i < n" and "n < (64 :: nat)"
  shows "(r + i) mod 64 \<noteq> (r + n) mod 64"
proof
  assume "(r + i) mod 64 = (r + n) mod 64"
  then have "(r + n) mod 64 = (r + i) mod 64" by simp
  then have "64 dvd (r + n) - (r + i)"
    using assms(1) by (subst (asm) mod_eq_dvd_iff_nat) simp_all
  then have "64 dvd n - i" by simp
  with assms show False
    by (auto dest: dvd_imp_le)
qed

lemma next_offset:
  assumes "0 \<le> off" and "off < (64 :: int)"
  shows "0 \<le> (off + 1) mod 64 \<and> (off + 1) mod 64 < 64 \<and> nat ((off + 1) mod 64) = (nat off + 1) mod 64"
  using assms by (simp add: nat_mod_distrib nat_add_distrib)

lemma slot_end:
  assumes "j < (64 :: nat)"
  shows "j * 528 + 528 \<le> 33792"
proof -
  have "j * 528 \<le> 63 * 528" using assms by (intro mult_le_mono1) simp
  then show ?thesis by simp
qed

end
