(* ===== verification/Shared_Memory.thy ===== *)
theory Shared_Memory
  imports Semaphores
begin

text \<open>
  The shared memory handler (include/handler/shared_memory.hpp, src/handler/shared_memory.cpp): a
  ring of 64 slots in a mapped file or shared memory object, with a semaphore that counts the filled
  slots and one that counts the free ones.  State, methods, and the contract of
  \<open>ICommunicationHandler\<close> for every behaviour of the system calls.
\<close>

section \<open>State and operating system\<close>

definition TOTAL_AMOUNT :: int where
  "TOTAL_AMOUNT = 64"

definition TOTAL_SIZE :: nat where
  "TOTAL_SIZE = BUFFER_SIZE * nat TOTAL_AMOUNT"

lemma TOTAL_AMOUNT_val [simp]: "TOTAL_AMOUNT = 64"
  by (simp add: TOTAL_AMOUNT_def)

lemma TOTAL_SIZE_val [simp]: "TOTAL_SIZE = 33792"
  by (simp add: TOTAL_SIZE_def)

record shared_memory =
  sm_name :: string
  sm_server :: bool
  sm_file :: bool
  sm_fd :: int
  sm_offset :: int
  sm_address :: pointer
  sm_reader :: pointer
  sm_writer :: pointer
  sm_last_id :: u32
  sm_buffer :: buffer

text \<open>
  A memory mapping is accessed through \<open>os_mem_read\<close> and \<open>os_mem_write\<close> with the address of the
  mapping, an offset into it, and the number of bytes or the bytes.
\<close>

record 'w shm_os = "'w sem_os" +
  os_file_remove :: "string \<Rightarrow> 'w \<Rightarrow> 'w"
  os_file_open :: "string \<Rightarrow> open_flag list \<Rightarrow> 'w \<Rightarrow> int \<times> 'w"
  os_shm_unlink :: "string \<Rightarrow> 'w \<Rightarrow> 'w"
  os_shm_open :: "string \<Rightarrow> open_flag list \<Rightarrow> 'w \<Rightarrow> int \<times> 'w"
  os_ftruncate :: "int \<Rightarrow> nat \<Rightarrow> 'w \<Rightarrow> int \<times> 'w"
  os_mmap :: "nat \<Rightarrow> int \<Rightarrow> 'w \<Rightarrow> pointer \<times> 'w"
  os_munmap :: "pointer \<Rightarrow> nat \<Rightarrow> 'w \<Rightarrow> 'w"
  os_fd_close :: "int \<Rightarrow> 'w \<Rightarrow> 'w"
  os_mem_read :: "nat \<Rightarrow> nat \<Rightarrow> nat \<Rightarrow> 'w \<Rightarrow> byte list"
  os_mem_write :: "nat \<Rightarrow> nat \<Rightarrow> byte list \<Rightarrow> 'w \<Rightarrow> 'w"

definition shm_new :: "string \<Rightarrow> bool \<Rightarrow> bool \<Rightarrow> shared_memory" where
  "shm_new name server file =
     \<lparr>sm_name = name, sm_server = server, sm_file = file, sm_fd = - 1, sm_offset = 0,
      sm_address = None, sm_reader = None, sm_writer = None, sm_last_id = 0,
      sm_buffer = replicate BUFFER_SIZE 0\<rparr>"

text \<open>
  Accesses to the mapping.  The bounds check is the model's: outside of \<open>TOTAL_SIZE\<close> bytes, or
  through a null pointer, the access is undefined.
\<close>

definition map_write ::
  "'w shm_os \<Rightarrow> pointer \<Rightarrow> nat \<Rightarrow> byte list \<Rightarrow> 'w \<Rightarrow> 'w res" where
  "map_write K addr off bs w =
     (case addr of
        None \<Rightarrow> Inl Out_Of_Bounds
      | Some a \<Rightarrow> if off + length bs \<le> TOTAL_SIZE then Inr (os_mem_write K a off bs w)
                  else Inl Out_Of_Bounds)"

definition map_read :: "'w shm_os \<Rightarrow> pointer \<Rightarrow> nat \<Rightarrow> nat \<Rightarrow> 'w \<Rightarrow> byte list res" where
  "map_read K addr off n w =
     (case addr of
        None \<Rightarrow> Inl Out_Of_Bounds
      | Some a \<Rightarrow> if off + n \<le> TOTAL_SIZE then Inr (os_mem_read K a off n w)
                  else Inl Out_Of_Bounds)"

section \<open>Opening and closing\<close>

definition shm_close :: "'w shm_os \<Rightarrow> shared_memory \<times> 'w \<Rightarrow> bool \<times> (shared_memory \<times> 'w)" where
  "shm_close K = (\<lambda>(s, w).
     if sm_fd s = - 1 then (False, s, w)
     else
       let w = os_munmap K (sm_address s) TOTAL_SIZE w; s = s\<lparr>sm_address := None\<rparr>;
           w = os_fd_close K (sm_fd s) w; s = s\<lparr>sm_fd := - 1\<rparr>;
           w = os_sem_close K (sm_reader s) w;
           w = os_sem_close K (sm_writer s) w;
           w = (if sm_server s
                then
                  let w = (if sm_file s then os_file_remove K (sm_name s) w
                           else os_shm_unlink K (sm_name s) w);
                      w = os_sem_unlink K (sem_prefix (sm_name s) @ ''r'') w
                  in os_sem_unlink K (sem_prefix (sm_name s) @ ''w'') w
                else w)
       in (True, s, w))"

text \<open>The descriptor that \<open>open\<close> obtains, from a file or from a shared memory object.\<close>

definition shm_open_fd :: "'w shm_os \<Rightarrow> shared_memory \<Rightarrow> 'w \<Rightarrow> int \<times> 'w" where
  "shm_open_fd K s w =
     (if sm_file s
      then if sm_server s
        then let w = os_file_remove K (sm_name s) w in os_file_open K (sm_name s) [O_RDWR, O_CREAT] w
        else os_file_open K (sm_name s) [O_RDWR] w
      else if sm_server s
        then let w = os_shm_unlink K (sm_name s) w in os_shm_open K (sm_name s) [O_RDWR, O_CREAT] w
        else os_shm_open K (sm_name s) [O_RDWR] w)"

text \<open>The second half of \<open>open\<close>: the semaphores.\<close>

definition shm_open_semaphores ::
  "'w shm_os \<Rightarrow> shared_memory \<times> 'w \<Rightarrow> bool \<times> (shared_memory \<times> 'w)" where
  "shm_open_semaphores K = (\<lambda>(s, w).
     let prefix = sem_prefix (sm_name s);
         w = (if sm_server s
              then let w = os_sem_unlink K (prefix @ ''r'') w in os_sem_unlink K (prefix @ ''w'') w
              else w);
         flag = (if sm_server s then [O_CREAT] else []);
         (r, w) = os_sem_open K (prefix @ ''r'') flag 0 w;
         s = s\<lparr>sm_reader := r\<rparr> in
     if r = None then (False, snd (shm_close K (s, w)))
     else
       let (v, w) = os_sem_open K (prefix @ ''w'') flag (nat TOTAL_AMOUNT) w;
           s = s\<lparr>sm_writer := v\<rparr> in
       if v = None then (False, snd (shm_close K (s, w)))
       else (True, s, w))"

definition shm_open :: "'w shm_os \<Rightarrow> shared_memory \<times> 'w \<Rightarrow> bool \<times> (shared_memory \<times> 'w)" where
  "shm_open K = (\<lambda>(s, w).
     if sm_fd s \<noteq> - 1 then (True, s, w)
     else
       let (fd, w) = shm_open_fd K s w; s = s\<lparr>sm_fd := fd\<rparr> in
       if fd = - 1 then (False, s, w)
       else
         let (res, w) = (if sm_server s then os_ftruncate K (sm_fd s) TOTAL_SIZE w else (0, w)) in
         if res = - 1 then (False, snd (shm_close K (s, w)))
         else
           let (addr, w) = os_mmap K TOTAL_SIZE (sm_fd s) w in
           if addr = None then (False, snd (shm_close K (s, w)))
           else shm_open_semaphores K (s\<lparr>sm_address := addr\<rparr>, w))"

definition shm_destroy :: "'w shm_os \<Rightarrow> shared_memory \<times> 'w \<Rightarrow> shared_memory \<times> 'w" where
  "shm_destroy K = (\<lambda>(s, w). if sm_fd s \<noteq> - 1 then snd (shm_close K (s, w)) else (s, w))"

definition shm_is_open :: "shared_memory \<times> 'w \<Rightarrow> bool" where
  "shm_is_open = (\<lambda>(s, w). sm_fd s \<noteq> - 1)"

section \<open>Transferring messages\<close>

text \<open>
  \<open>WAIT_TIME\<close> is not a macro, so the preprocessor takes the branch with the timeout; the semaphore
  is given back at once, as waiting must not consume the message.
\<close>

definition shm_await_data :: "'w shm_os \<Rightarrow> shared_memory \<times> 'w \<Rightarrow> bool \<times> (shared_memory \<times> 'w)" where
  "shm_await_data K = (\<lambda>(s, w).
     if sm_fd s = - 1 then (False, s, w)
     else
       case os_realtime K w of
         (None, w) \<Rightarrow> (False, s, w)
       | (Some (sec, nsec), w) \<Rightarrow>
           let (res, w) = os_sem_timedwait K (sm_reader s) (sec + WAIT_TIME div 1000, nsec) w in
           if res \<noteq> None then (False, s, w)
           else (True, s, os_sem_post K (sm_reader s) w))"

definition shm_has_data :: "'w shm_os \<Rightarrow> shared_memory \<times> 'w \<Rightarrow> bool \<times> (shared_memory \<times> 'w)" where
  "shm_has_data K = (\<lambda>(s, w).
     if sm_fd s = - 1 then (False, s, w)
     else (case os_sem_getvalue K (sm_reader s) w of None \<Rightarrow> False | Some v \<Rightarrow> v > 0, s, w))"

definition shm_write ::
  "'w shm_os \<Rightarrow> data_object \<Rightarrow> shared_memory \<times> 'w \<Rightarrow> (bool \<times> (shared_memory \<times> 'w)) res" where
  "shm_write K obj = (\<lambda>(s, w).
     if sm_fd s = - 1 then Inr (False, s, w)
     else
       let (timestamp, w) = get_timestamp K w in
       and_then (obj_serialize obj (sm_buffer s) sizeof_header
                  (u32_of_size (BUFFER_SIZE - sizeof_header))) (\<lambda>(n, buf).
       let s = s\<lparr>sm_buffer := buf\<rparr> in
       if n = - 1 then Inr (False, s, w)
       else
         let s = s\<lparr>sm_last_id := sm_last_id s + 1\<rparr>;
             header = message_header (sm_last_id s) obj n timestamp in
         and_then (header_serialize header (sm_buffer s) 0 (u32_of_size sizeof_header)) (\<lambda>(_, buf).
         let s = s\<lparr>sm_buffer := buf\<rparr>;
             (res, w) = os_sem_wait K (sm_writer s) w in
         if res \<noteq> None then Inr (False, s, w)
         else
           and_then (mem_load (sm_buffer s) 0 (sizeof_header + nat n)) (\<lambda>bytes.
           and_then (map_write K (sm_address s) (nat (sm_offset s) * BUFFER_SIZE) bytes w) (\<lambda>w.
           let s = s\<lparr>sm_offset := (sm_offset s + 1) mod TOTAL_AMOUNT\<rparr>;
               w = os_sem_post K (sm_reader s) w in
           Inr (True, s, w))))))"

definition shm_read ::
  "'w shm_os \<Rightarrow> shared_memory \<times> 'w \<Rightarrow> (read_result \<times> (shared_memory \<times> 'w)) res" where
  "shm_read K = (\<lambda>(s, w).
     if sm_fd s = - 1 then Inr (Inl CONNECTION_CLOSED, s, w)
     else
       let (res, w) = os_sem_trywait K (sm_reader s) w in
       case res of
         Some e \<Rightarrow> Inr (Inl (if e = EAGAIN then NO_DATA_AVAILABLE else READ_ERROR), s, w)
       | None \<Rightarrow>
           and_then (map_read K (sm_address s) (nat (sm_offset s) * BUFFER_SIZE) BUFFER_SIZE w)
             (\<lambda>bytes.
           and_then (mem_store (sm_buffer s) 0 bytes) (\<lambda>buf.
           let s = s\<lparr>sm_buffer := buf, sm_offset := (sm_offset s + 1) mod TOTAL_AMOUNT\<rparr>;
               w = os_sem_post K (sm_writer s) w in
           and_then (header_deserialize (sm_buffer s) 0 (u32_of_size sizeof_header)) (\<lambda>optional.
           case optional of
             None \<Rightarrow> Inr (Inl INVALID_HEADER, s, w)
           | Some header \<Rightarrow>
               assert_then (unat (h_body_size header) \<le> BUFFER_SIZE - sizeof_header)
                 (and_then (deserialize_data_object (h_type header) (sm_buffer s) sizeof_header
                             (ucast (h_body_size header))) (\<lambda>data.
                  Inr (of_body header data, s, w)))))))"

definition shm_iface :: "'w shm_os \<Rightarrow> (shared_memory \<times> 'w) comm_iface" where
  "shm_iface K =
     \<lparr>c_open = shm_open K, c_close = shm_close K, c_is_open = shm_is_open,
      c_await_data = shm_await_data K, c_has_data = shm_has_data K,
      c_write = shm_write K, c_read = (\<lambda>h. Some (shm_read K h))\<rparr>"

lemmas shm_defs = shm_open_def shm_close_def shm_is_open_def shm_await_data_def shm_has_data_def

lemma shm_iface_simps [simp]:
  "c_open (shm_iface K) = shm_open K" "c_close (shm_iface K) = shm_close K"
  "c_is_open (shm_iface K) = shm_is_open" "c_await_data (shm_iface K) = shm_await_data K"
  "c_has_data (shm_iface K) = shm_has_data K" "c_write (shm_iface K) = shm_write K"
  "c_read (shm_iface K) h = Some (shm_read K h)"
  by (simp_all add: shm_iface_def)

section \<open>The contract of the interface\<close>

text \<open>The offset names a slot, and an open handler has a mapping.\<close>

definition shm_inv :: "shared_memory \<times> 'w \<Rightarrow> bool" where
  "shm_inv = (\<lambda>(s, w). length (sm_buffer s) = BUFFER_SIZE \<and>
     0 \<le> sm_offset s \<and> sm_offset s < TOTAL_AMOUNT \<and> (sm_fd s \<noteq> - 1 \<longrightarrow> sm_address s \<noteq> None))"

definition shm_seq :: "shared_memory \<times> 'w \<Rightarrow> u32" where
  "shm_seq = (\<lambda>(s, w). sm_last_id s)"

lemma shm_new_inv: "shm_inv (shm_new name server file, w) \<and> \<not> shm_is_open (shm_new name server file, w)"
  by (simp add: shm_inv_def shm_is_open_def shm_new_def)

text \<open>The slot of a valid offset lies inside of the mapping.\<close>

lemma slot_in_bounds:
  assumes "0 \<le> off" and "off < 64" and "n \<le> 528"
  shows "nat off * 528 + n \<le> 33792"
proof -
  have "nat off \<le> 63" using assms by simp
  then have "nat off * 528 \<le> 63 * 528" by (rule mult_le_mono1)
  with assms(3) show ?thesis by simp
qed

lemma shm_write_eq:
  assumes "length (sm_buffer s) = 528" and "sm_fd s \<noteq> - 1" and "sm_address s = Some a"
    and "0 \<le> sm_offset s" and "sm_offset s < 64"
    and "os_clock K w = (ts, w1)" and "os_sem_wait K (sm_writer s) w1 = (res, w2)"
  shows "shm_write K obj (s, w) =
    (let ident = sm_last_id s + 1;
         s' = s\<lparr>sm_last_id := ident, sm_buffer := staged ident ts obj (sm_buffer s)\<rparr> in
     if 512 < length (object_bytes obj) then Inr (False, s, w1)
     else if res \<noteq> None then Inr (False, s', w2)
     else Inr (True, s'\<lparr>sm_offset := (sm_offset s + 1) mod 64\<rparr>,
       os_sem_post K (sm_reader s)
         (os_mem_write K a (nat (sm_offset s) * 528) (message_bytes ident ts obj) w2)))"
proof (cases "length (object_bytes obj) \<le> 512")
  case True
  have "nat (sm_offset s) * 528 + (16 + length (object_bytes obj)) \<le> 33792"
    using True assms(4,5) by (intro slot_in_bounds) simp_all
  with True assms show ?thesis
    by (simp add: shm_write_def get_timestamp_def framing map_write_def Let_def)
next
  case False
  with assms show ?thesis
    by (simp add: shm_write_def get_timestamp_def framing Let_def)
qed

lemma shm_write_result:
  assumes "shm_inv h"
  shows "\<exists>b h'. shm_write K obj h = Inr (b, h') \<and> shm_inv h' \<and> shm_is_open h' = shm_is_open h \<and>
    (b \<longrightarrow> shm_is_open h \<and> length (object_bytes obj) \<le> body_capacity \<and> shm_seq h' = shm_seq h + 1)"
proof -
  obtain s w where h: "h = (s, w)" by (cases h)
  have inv: "length (sm_buffer s) = 528" "0 \<le> sm_offset s" "sm_offset s < 64"
    using assms by (simp_all add: h shm_inv_def)
  show ?thesis
  proof (cases "sm_fd s = - 1")
    case True
    with assms show ?thesis
      by (auto simp: h shm_write_def shm_is_open_def)
  next
    case False
    then obtain a where a: "sm_address s = Some a"
      using assms by (auto simp: h shm_inv_def)
    obtain ts w1 where clock: "os_clock K w = (ts, w1)" by (cases "os_clock K w")
    obtain res w2 where wait: "os_sem_wait K (sm_writer s) w1 = (res, w2)" by fastforce
    show ?thesis
      using shm_write_eq [OF inv(1) False a inv(2,3) clock wait, of obj] False a inv
      by (auto simp: h shm_inv_def shm_is_open_def shm_seq_def Let_def split: if_splits)
  qed
qed

lemma shm_read_result:
  assumes "shm_inv h" and "shm_read K h = Inr (r, h')"
  shows "shm_inv h' \<and> shm_is_open h' = shm_is_open h \<and> shm_seq h' = shm_seq h \<and> typed_result r"
  using assms
  by (auto simp: shm_inv_def shm_is_open_def shm_seq_def shm_read_def framing res_simps Let_def
      dest!: mem_store_length typed_of_body split: prod.splits option.splits if_splits)

lemma shm_closed_calls:
  assumes "\<not> shm_is_open h"
  shows "shm_write K obj h = Inr (False, h)" and "shm_read K h = Inr (Inl CONNECTION_CLOSED, h)"
    and "shm_await_data K h = (False, h)" and "shm_close K h = (False, h)"
  using assms by (cases h; simp add: shm_defs shm_write_def shm_read_def)+

lemma shm_close_frame [simp]:
  "sm_buffer (fst (snd (shm_close K (s, w)))) = sm_buffer s"
  "sm_last_id (fst (snd (shm_close K (s, w)))) = sm_last_id s"
  "sm_offset (fst (snd (shm_close K (s, w)))) = sm_offset s"
  "sm_fd (fst (snd (shm_close K (s, w)))) = - 1"
  "fst (shm_close K (s, w)) = (sm_fd s \<noteq> - 1)"
  by (simp_all add: shm_close_def Let_def)

lemma shm_open_frame:
  assumes "shm_open K (s, w) = (b, s', w')" and "sm_fd s = - 1"
  shows "sm_buffer s' = sm_buffer s \<and> sm_last_id s' = sm_last_id s \<and> sm_offset s' = sm_offset s \<and>
    (if b then sm_fd s' \<noteq> - 1 \<and> sm_address s' \<noteq> None else sm_fd s' = - 1)"
proof -
  have close: "snd (shm_close K (t, v)) = (s', w') \<Longrightarrow>
      sm_buffer s' = sm_buffer t \<and> sm_last_id s' = sm_last_id t \<and> sm_offset s' = sm_offset t \<and>
      sm_fd s' = - 1" for t v
    using shm_close_frame [of K t v] by simp
  show ?thesis
    using assms
    by (auto simp: shm_open_def shm_open_semaphores_def Let_def split: prod.splits if_splits
        dest!: close)
qed

lemma shm_lifecycle:
  assumes "shm_inv h"
  shows "shm_open K h = (b, h') \<Longrightarrow> shm_inv h' \<and> shm_is_open h' = b \<and> shm_seq h' = shm_seq h"
    and "shm_is_open h \<Longrightarrow> shm_open K h = (True, h)"
    and "shm_close K h = (b, h') \<Longrightarrow>
      shm_inv h' \<and> \<not> shm_is_open h' \<and> b = shm_is_open h \<and> shm_seq h' = shm_seq h"
    and "shm_await_data K h = (b, h') \<Longrightarrow>
      shm_inv h' \<and> shm_is_open h' = shm_is_open h \<and> shm_seq h' = shm_seq h"
    and "shm_has_data K h = (b, h') \<Longrightarrow>
      shm_inv h' \<and> shm_is_open h' = shm_is_open h \<and> shm_seq h' = shm_seq h"
proof -
  obtain s w where h: "h = (s, w)" by (cases h)
  show "shm_open K h = (b, h') \<Longrightarrow> shm_inv h' \<and> shm_is_open h' = b \<and> shm_seq h' = shm_seq h"
  proof (cases "sm_fd s = - 1")
    case True
    assume "shm_open K h = (b, h')"
    with True shm_open_frame [of K s w b "fst h'" "snd h'"] assms show ?thesis
      by (cases h') (auto simp: h shm_inv_def shm_is_open_def shm_seq_def split: if_splits)
  next
    case False
    assume "shm_open K h = (b, h')"
    with False assms show ?thesis
      by (auto simp: h shm_open_def shm_is_open_def)
  qed
qed (use assms in \<open>auto simp: shm_defs shm_inv_def shm_seq_def Let_def
      split: prod.splits if_splits option.splits\<close>)

lemmas shm_contract = shm_lifecycle shm_closed_calls shm_read_result shm_write_result

interpretation shm: comm_handler "shm_iface K" shm_inv shm_seq body_capacity
  for K :: "'w shm_os"
  by unfold_locales (unfold shm_iface_simps option.inject, (rule shm_contract; assumption)+)

end
