(* ===== verification/Shared_Memory_Channel.thy ===== *)
theory Shared_Memory_Channel
  imports Shared_Memory Channel
begin

text \<open>
  Shared memory end to end.  The locale \<open>ring_os\<close> states what the operating system promises of the
  mapping and the two counting semaphores; from these laws and the code of \<open>shm_write\<close> and
  \<open>shm_read\<close> the ring of 64 slots is a reliable channel.
\<close>

section \<open>Slots of the ring\<close>

definition slot :: "byte list \<Rightarrow> nat \<Rightarrow> byte list" where
  "slot m j = take 528 (drop (j * 528) m)"

definition splice :: "byte list \<Rightarrow> nat \<Rightarrow> byte list \<Rightarrow> byte list" where
  "splice m off bs = take off m @ bs @ drop (off + length bs) m"

lemma length_splice [simp]: "off + length bs \<le> length m \<Longrightarrow> length (splice m off bs) = length m"
  by (simp add: splice_def)

lemma length_slot: "j < 64 \<Longrightarrow> length m = 33792 \<Longrightarrow> length (slot m j) = 528"
  using slot_end [of j] by (simp add: slot_def)

lemma slot_splice_same:
  assumes "j < 64" and "length m = 33792" and "length bs \<le> 528"
  shows "slot (splice m (j * 528) bs) j = bs @ drop (length bs) (slot m j)"
proof -
  have "length (take (j * 528) m) = j * 528"
    using slot_end [OF assms(1)] assms(2) by simp
  then show ?thesis
    using assms(3) by (simp add: slot_def splice_def drop_take add.commute)
qed

lemma slot_splice_other:
  assumes "j < 64" and "k < 64" and "j \<noteq> k" and "length m = 33792" and "length bs \<le> 528"
  shows "slot (splice m (j * 528) bs) k = slot m k"
proof (cases "k < j")
  case True
  then have "k * 528 + 528 \<le> j * 528"
    using mult_le_mono1 [of "k + 1" j 528] by simp
  then show ?thesis
    using slot_end [OF assms(1)] assms(4) by (simp add: slot_def splice_def take_drop min_absorb2)
next
  case False
  with assms(3) have "j * 528 + 528 \<le> k * 528"
    using mult_le_mono1 [of "j + 1" k 528] by simp
  with assms(5) have le: "j * 528 + length bs \<le> k * 528"
    by simp
  have "drop (k * 528) (splice m (j * 528) bs) = drop (k * 528) m"
    using slot_end [OF assms(1)] assms(4) le by (simp add: splice_def)
  then show ?thesis
    by (simp add: slot_def)
qed

section \<open>The laws of the ring\<close>

locale ring_os = semaphore_pair K rsem wsem view
  for K :: "'w shm_os"
    and maps :: "nat set"
    and rsem :: "pointer set"
    and wsem :: "pointer set"
    and view :: "'w \<Rightarrow> byte list \<times> nat \<times> nat" +
  assumes mem_read_view: "\<lbrakk>a \<in> maps; view w = (m, f, v); off + n \<le> length m\<rbrakk> \<Longrightarrow>
      os_mem_read K a off n w = take n (drop off m)"
    and mem_write_view: "\<lbrakk>a \<in> maps; view w = (m, f, v); off + length bs \<le> length m\<rbrakk> \<Longrightarrow>
      view (os_mem_write K a off bs w) = (splice m off bs, f, v)"

text \<open>
  The messages in transit lie in consecutive slots, from the reader's offset up to the writer's; the
  semaphores count them and the free slots.
\<close>

definition ring_holds :: "byte list \<Rightarrow> nat \<Rightarrow> message list \<Rightarrow> bool" where
  "ring_holds m r ms \<longleftrightarrow> (\<forall>i < length ms. \<exists>pad. slot m ((r + i) mod 64) = wire (ms ! i) @ pad)"

definition attached :: "nat set \<Rightarrow> pointer set \<Rightarrow> pointer set \<Rightarrow> shared_memory \<Rightarrow> bool" where
  "attached maps rsem wsem s \<longleftrightarrow>
     sm_fd s \<noteq> - 1 \<and> length (sm_buffer s) = BUFFER_SIZE \<and> sm_address s \<in> Some ` maps \<and>
     sm_reader s \<in> rsem \<and> sm_writer s \<in> wsem \<and> 0 \<le> sm_offset s \<and> sm_offset s < TOTAL_AMOUNT"

definition ring_carries ::
  "nat set \<Rightarrow> pointer set \<Rightarrow> pointer set \<Rightarrow> ('w \<Rightarrow> byte list \<times> nat \<times> nat) \<Rightarrow>
   shared_memory \<times> shared_memory \<times> 'w \<Rightarrow> message list \<Rightarrow> bool" where
  "ring_carries maps rsem wsem view = (\<lambda>(sw, sr, w) ms.
     attached maps rsem wsem sw \<and> attached maps rsem wsem sr \<and> list_all sound_message ms \<and>
     nat (sm_offset sw) = (nat (sm_offset sr) + length ms) mod 64 \<and>
     (case view w of (m, f, v) \<Rightarrow>
        length m = TOTAL_SIZE \<and> f = length ms \<and> f + v = 64 \<and> ring_holds m (nat (sm_offset sr)) ms))"

definition ring_pair_seq :: "shared_memory \<times> shared_memory \<times> 'w \<Rightarrow> u32" where
  "ring_pair_seq = (\<lambda>(sw, sr, w). sm_last_id sw)"

lemma ring_holds_empty [simp]: "ring_holds m r []"
  by (simp add: ring_holds_def)

lemma ring_holds_write:
  assumes holds: "ring_holds m r ms" and len: "length m = 33792" and room: "length ms < 64"
    and bs: "wire x = bs" "length bs \<le> 528"
  shows "ring_holds (splice m ((r + length ms) mod 64 * 528) bs) r (ms @ [x])"
  unfolding ring_holds_def
proof (intro allI impI)
  fix i assume i: "i < length (ms @ [x])"
  show "\<exists>pad. slot (splice m ((r + length ms) mod 64 * 528) bs) ((r + i) mod 64) =
      wire ((ms @ [x]) ! i) @ pad"
  proof (cases "i = length ms")
    case True
    with bs len show ?thesis
      by (simp add: slot_splice_same)
  next
    case False
    with i have lt: "i < length ms" by simp
    then have "(r + length ms) mod 64 \<noteq> (r + i) mod 64"
      using ring_positions_differ [OF lt room] by metis
    with lt holds len bs(2) show ?thesis
      by (simp add: slot_splice_other nth_append ring_holds_def)
  qed
qed

lemma ring_holds_tail:
  assumes "ring_holds m r (x # ms)"
  shows "ring_holds m ((r + 1) mod 64) ms"
proof -
  have "((r + 1) mod 64 + i) mod 64 = (r + Suc i) mod 64" for i
    by (simp add: mod_add_left_eq)
  with assms show ?thesis
    by (fastforce simp: ring_holds_def)
qed

section \<open>What a read makes of a slot\<close>

lemma shm_read_slot:
  assumes "sm_fd s \<noteq> - 1" and "length (sm_buffer s) = 528" and "sm_address s = Some a"
    and "0 \<le> sm_offset s" and "sm_offset s < 64"
    and "os_sem_trywait K (sm_reader s) w = (None, w1)"
    and "os_mem_read K a (nat (sm_offset s) * 528) 528 w1 = bytes" and "length bytes = 528"
  shows "shm_read K (s, w) =
    (let h = header_of_bytes (take 16 bytes);
         size = unat (h_body_size h) in
     if size \<le> 512
     then Inr (of_body h (decode_object (h_type h) (take size (drop 16 bytes))),
       s\<lparr>sm_buffer := bytes, sm_offset := (sm_offset s + 1) mod 64\<rparr>, os_sem_post K (sm_writer s) w1)
     else Inl Assertion_Failed)"
proof -
  let ?h = "header_of_bytes (take 16 bytes)"
  have "nat (sm_offset s) * 528 + 528 \<le> 33792"
    using assms(4,5) by (intro slot_in_bounds) simp_all
  then have read: "map_read K (Some a) (nat (sm_offset s) * 528) 528 w1 = Inr bytes"
    using assms(7) by (simp add: map_read_def)
  have store: "mem_store (sm_buffer s) 0 bytes = Inr bytes"
    using assms(2,8) by (simp add: mem_store_ok)
  have header: "header_deserialize bytes 0 (u32_of_size 16) = Inr (Some ?h)"
    by (rule deserialize_header [OF assms(8)])
  show ?thesis
  proof (cases "unat (h_body_size ?h) \<le> 512")
    case True
    then have "deserialize_data_object t bytes 16 (ucast (h_body_size ?h)) =
        Inr (decode_object t (take (unat (h_body_size ?h)) (drop 16 bytes)))" for t
      using assms(8) by (subst deserialize_data_object_bytes) (simp_all add: region_def)
    with True assms(1,3,6) show ?thesis
      by (simp add: shm_read_def read store header Let_def)
  next
    case False
    with assms(1,3,6) show ?thesis
      by (simp add: shm_read_def read store header Let_def)
  qed
qed

section \<open>The ring is a reliable channel\<close>

context ring_os
begin

lemma send_ring:
  assumes "ring_carries maps rsem wsem view c ms"
  shows "\<exists>ok c' h. channel_send (shm_iface K) obj c = Inr (ok, c') \<and>
    (ok \<longrightarrow> ring_pair_seq c' = ring_pair_seq c + 1 \<and> h_id h = ring_pair_seq c' \<and>
      ring_carries maps rsem wsem view c' (ms @ [(h, obj)])) \<and>
    (\<not> ok \<longrightarrow> ring_carries maps rsem wsem view c' ms)"
proof -
  obtain sw sr w where c: "c = (sw, sr, w)" by (metis prod_cases3)
  obtain m f v where view: "view w = (m, f, v)" by (metis prod_cases3)
  obtain a where a: "sm_address sw = Some a" "a \<in> maps"
    and ptr: "sm_writer sw \<in> wsem" "sm_reader sw \<in> rsem"
    and sw: "sm_fd sw \<noteq> - 1" "length (sm_buffer sw) = 528" "0 \<le> sm_offset sw" "sm_offset sw < 64"
    using assms by (auto simp: c ring_carries_def attached_def)
  have ring: "length m = 33792" "f = length ms" "f + v = 64" "ring_holds m (nat (sm_offset sr)) ms"
    and wo: "nat (sm_offset sw) = (nat (sm_offset sr) + length ms) mod 64"
    using assms by (simp_all add: c ring_carries_def view)
  obtain ts w1 where clock: "os_clock K w = (ts, w1)" by (cases "os_clock K w")
  obtain res w2 where wait: "os_sem_wait K (sm_writer sw) w1 = (res, w2)" by fastforce
  have view1: "view w1 = (m, f, v)"
    using clock_view [OF clock] view by simp
  note waited = wait_view [OF ptr(1) view1 wait]
  note write_eq = shm_write_eq [OF sw(2,1) a(1) sw(3,4) clock wait, of obj]
  define h where "h = header_of (sm_last_id sw + 1) ts obj"
  show ?thesis
  proof (cases "length (object_bytes obj) \<le> 512 \<and> res = None")
    case True
    then have room: "length ms < 64" and view2: "view w2 = (m, f, v - 1)" "0 < v"
      using waited ring(2,3) by auto
    let ?bs = "message_bytes (sm_last_id sw + 1) ts obj"
    have wire: "wire (h, obj) = ?bs" "length ?bs \<le> 528"
      using True by (simp_all add: h_def message_bytes_def)
    have fits: "nat (sm_offset sw) * 528 + length ?bs \<le> length m"
      using slot_in_bounds [OF sw(3,4) wire(2)] ring(1) by simp
    let ?w3 = "os_mem_write K a (nat (sm_offset sw) * 528) ?bs w2"
    define sw' where "sw' = sw\<lparr>sm_last_id := sm_last_id sw + 1,
      sm_buffer := staged (sm_last_id sw + 1) ts obj (sm_buffer sw),
      sm_offset := (sm_offset sw + 1) mod 64\<rparr>"
    define w4 where "w4 = os_sem_post K (sm_reader sw) ?w3"
    let ?m = "splice m (nat (sm_offset sw) * 528) ?bs"
    have sent: "channel_send (shm_iface K) obj c = Inr (True, sw', sr, w4)"
      using True by (simp add: c channel_send_def write_eq Let_def sw'_def w4_def)
    have view4: "view w4 = (?m, f + 1, v - 1)"
      unfolding w4_def
      by (rule post_reader_view [OF ptr(2) mem_write_view [OF a(2) view2(1) fits]])
    have "ring_holds ?m (nat (sm_offset sr)) (ms @ [(h, obj)])"
      unfolding wo by (rule ring_holds_write [OF ring(4,1) room wire])
    moreover have "nat (sm_offset sw') = (nat (sm_offset sr) + length (ms @ [(h, obj)])) mod 64"
      using next_offset [OF sw(3,4)] by (simp add: wo mod_Suc_eq sw'_def)
    moreover have "attached maps rsem wsem sw'"
      using assms True by (simp add: c ring_carries_def attached_def sw'_def)
    moreover have "sound_message (h, obj)"
      using True by (simp add: h_def)
    moreover have "length ?m = 33792"
      using fits ring(1) by simp
    ultimately have "ring_carries maps rsem wsem view (sw', sr, w4) (ms @ [(h, obj)])"
      using assms ring(2,3) view2(2)
      by (simp add: c ring_carries_def view4 del: sound_message.simps)
    moreover have "ring_pair_seq (sw', sr, w4) = ring_pair_seq c + 1"
      and "h_id h = ring_pair_seq (sw', sr, w4)"
      by (simp_all add: c ring_pair_seq_def sw'_def h_def)
    ultimately show ?thesis
      using sent by blast
  next
    case False
    have "view w2 = (m, f, v)" if "res \<noteq> None"
      using waited that view1 by simp
    with False assms view view1 sw show ?thesis
      by (intro exI [of _ False])
        (auto simp: c channel_send_def write_eq Let_def ring_carries_def attached_def)
  qed
qed

lemma receive_ring:
  assumes "ring_carries maps rsem wsem view c (x # ms)"
  shows "\<exists>c'. channel_receive (shm_iface K) c = Some (Inr (Inr x, c')) \<and>
    ring_pair_seq c' = ring_pair_seq c \<and> ring_carries maps rsem wsem view c' ms"
proof -
  obtain sw sr w where c: "c = (sw, sr, w)" by (metis prod_cases3)
  obtain h obj where x: "x = (h, obj)" by (cases x)
  obtain m f v where view: "view w = (m, f, v)" by (metis prod_cases3)
  obtain a where a: "sm_address sr = Some a" "a \<in> maps"
    and ptr: "sm_writer sr \<in> wsem" "sm_reader sr \<in> rsem"
    and sr: "sm_fd sr \<noteq> - 1" "length (sm_buffer sr) = 528" "0 \<le> sm_offset sr" "sm_offset sr < 64"
    using assms by (auto simp: c ring_carries_def attached_def)
  have ring: "length m = 33792" "f = Suc (length ms)" "f + v = 64"
    and holds: "ring_holds m (nat (sm_offset sr)) (x # ms)"
    and wo: "nat (sm_offset sw) = (nat (sm_offset sr) + Suc (length ms)) mod 64"
    and sound: "sound_message x" "list_all sound_message ms"
    using assms by (simp_all add: c ring_carries_def view)
  from trywait_view [OF ptr(2) view] ring(2) obtain w1
    where wait: "os_sem_trywait K (sm_reader sr) w = (None, w1)" and view1: "view w1 = (m, f - 1, v)"
    by auto
  have lt: "nat (sm_offset sr) < 64"
    using sr by simp
  then obtain pad where slot: "slot m (nat (sm_offset sr)) = wire x @ pad"
    using holds by (auto simp: ring_holds_def dest: spec [of _ 0])
  have len: "length (slot m (nat (sm_offset sr))) = 528"
    by (rule length_slot [OF lt ring(1)])
  have "nat (sm_offset sr) * 528 + 528 \<le> length m"
    using slot_end [OF lt] ring(1) by simp
  from mem_read_view [OF a(2) view1 this]
  have read: "os_mem_read K a (nat (sm_offset sr) * 528) 528 w1 = slot m (nat (sm_offset sr))"
    by (simp add: slot_def)
  have result: "shm_read K (sr, w) = Inr (Inr x,
      sr\<lparr>sm_buffer := slot m (nat (sm_offset sr)), sm_offset := (sm_offset sr + 1) mod 64\<rparr>,
      os_sem_post K (sm_writer sr) w1)"
    using sound(1) unfolding shm_read_slot [OF sr(1,2) a(1) sr(3,4) wait read len]
    by (simp add: slot x Let_def)
  have "view (os_sem_post K (sm_writer sr) w1) = (m, length ms, v + 1)"
    using post_writer_view [OF ptr(1) view1] ring(2) by simp
  moreover have "nat (sm_offset sw) = (nat ((sm_offset sr + 1) mod 64) + length ms) mod 64"
    using next_offset [OF sr(3,4)] by (simp add: wo mod_add_left_eq)
  moreover have "ring_holds m (nat ((sm_offset sr + 1) mod 64)) ms"
    using ring_holds_tail [OF holds] next_offset [OF sr(3,4)] by simp
  ultimately show ?thesis
    using assms sr len ring sound(2)
    by (auto simp: c channel_receive_def result ring_pair_seq_def ring_carries_def attached_def)
qed

lemma receive_ring_empty:
  assumes "ring_carries maps rsem wsem view c []"
  shows "\<exists>c'. channel_receive (shm_iface K) c = Some (Inr (Inl NO_DATA_AVAILABLE, c')) \<and>
    ring_pair_seq c' = ring_pair_seq c \<and> ring_carries maps rsem wsem view c' []"
proof -
  obtain sw sr w where c: "c = (sw, sr, w)" by (metis prod_cases3)
  obtain m f v where view: "view w = (m, f, v)" by (metis prod_cases3)
  have ptr: "sm_reader sr \<in> rsem" "sm_fd sr \<noteq> - 1" "f = 0"
    using assms by (auto simp: c ring_carries_def attached_def view)
  from trywait_view [OF ptr(1) view] ptr(3) obtain w1
    where "os_sem_trywait K (sm_reader sr) w = (Some EAGAIN, w1)" "view w1 = view w"
    using view by auto
  with assms ptr show ?thesis
    by (auto simp: c channel_receive_def shm_read_def ring_pair_seq_def ring_carries_def)
qed

end

sublocale ring_os \<subseteq> ring: message_channel "channel_send (shm_iface K)"
  "channel_receive (shm_iface K)" "ring_carries maps rsem wsem view" ring_pair_seq "\<lambda>_. 0"
proof (unfold_locales, goal_cases)
  case (1 c ms obj)
  from send_ring [OF 1] show ?case by blast
next
  case (2 c m ms)
  from receive_ring [OF 2] show ?case by blast
next
  case (3 c)
  from receive_ring_empty [OF 3] show ?case by blast
next
  case (4 c ms obj c')
  from send_ring [OF 4(1), of obj] 4(2) show ?case by auto
next
  case (5 c ms obj c')
  from send_ring [OF 5(1), of obj] 5(2) show ?case by auto
qed

context ring_os
begin

lemma ring_session_run:
  assumes "ring_carries maps rsem wsem view c []"
  shows "\<exists>n s. channel_run (channel_send (shm_iface K)) (channel_receive (shm_iface K))
      (as @ replicate n Receive) (start_run c) = Some (Inr s) \<and>
    map snd (rs_received s) = rs_sent s \<and>
    (rs_failed s = 0 \<longrightarrow>
       map (h_id \<circ> fst) (rs_received s) = numbers (ring_pair_seq c) (length (rs_sent s))) \<and>
    set (rs_errors s) \<subseteq> {NO_DATA_AVAILABLE}"
  by (rule ring.run_then_drain [OF assms])

end

section \<open>A second writer\<close>

text \<open>
  The offset is private to each process.  A writer that starts while the reader has already moved on
  writes to slot 0, but the reader looks at its own slot.
\<close>

context ring_os
begin

lemma new_writer_misses:
  assumes "attached maps rsem wsem sw" and "attached maps rsem wsem sr"
    and "sm_offset sw = 0" and "sm_offset sr = r" and "r \<noteq> 0"
    and "view w = (m, 0, 64)" and "length m = 33792" and "slot m (nat r) = replicate 528 0"
    and "length (object_bytes obj) \<le> 512"
    and sent: "channel_send (shm_iface K) obj (sw, sr, w) = Inr (True, c)"
  shows "\<exists>c'. channel_receive (shm_iface K) c = Some (Inr (Inl INVALID_DATA, c'))"
proof -
  obtain a where a: "sm_address sw = Some a" "a \<in> maps"
    and ptr: "sm_writer sw \<in> wsem" "sm_reader sw \<in> rsem"
    and sw: "sm_fd sw \<noteq> - 1" "length (sm_buffer sw) = 528" "0 \<le> sm_offset sw" "sm_offset sw < 64"
    using assms(1) by (auto simp: attached_def)
  obtain b where b: "sm_address sr = Some b" "b \<in> maps"
    and ptr': "sm_reader sr \<in> rsem"
    and sr: "sm_fd sr \<noteq> - 1" "length (sm_buffer sr) = 528" "0 \<le> sm_offset sr" "sm_offset sr < 64"
    using assms(2) by (auto simp: attached_def)
  obtain ts w1 where clock: "os_clock K w = (ts, w1)" by (cases "os_clock K w")
  obtain res w2 where wait: "os_sem_wait K (sm_writer sw) w1 = (res, w2)" by fastforce
  have view1: "view w1 = (m, 0, 64)"
    using clock_view [OF clock] assms(6) by simp
  note write_eq = shm_write_eq [OF sw(2,1) a(1) sw(3,4) clock wait, of obj]
  let ?bs = "message_bytes (sm_last_id sw + 1) ts obj"
  define w3 where "w3 = os_sem_post K (sm_reader sw) (os_mem_write K a 0 ?bs w2)"
  from sent assms(3,9) have "res = None" and c: "\<exists>s. c = (s, sr, w3)"
    by (auto simp: channel_send_def write_eq Let_def w3_def split: if_splits)
  with wait_view [OF ptr(1) view1 wait] have view2: "view w2 = (m, 0, 63)" by simp
  have short: "length ?bs \<le> 528"
    using assms(9) by simp
  then have "0 + length ?bs \<le> length m"
    using assms(7) by simp
  from post_reader_view [OF ptr(2) mem_write_view [OF a(2) view2 this]]
  have view3: "view w3 = (splice m 0 ?bs, 1, 63)"
    by (simp add: w3_def)
  from trywait_view [OF ptr' view3] obtain w4
    where tried: "os_sem_trywait K (sm_reader sr) w3 = (None, w4)"
      and view4: "view w4 = (splice m 0 ?bs, 0, 63)" by auto
  have r: "nat r < 64" "(0 :: nat) \<noteq> nat r"
    using sr(3,4) assms(4,5) by auto
  have "nat r * 528 + 528 \<le> length (splice m 0 ?bs)"
    using slot_end [OF r(1)] assms(7) short by simp
  from mem_read_view [OF b(2) view4 this]
  have read: "os_mem_read K b (nat (sm_offset sr) * 528) 528 w4 = replicate 528 0"
    using slot_splice_other [OF _ r(1,2) assms(7) short] assms(4,8) by (simp add: slot_def)
  have "h_type (header_of_bytes (replicate 16 0)) = INVALID"
    and "h_body_size (header_of_bytes (replicate 16 0)) = 0"
    by (simp_all add: header_of_bytes_def type_of_code_def numeral_eq_Suc)
  then have "\<exists>s v. shm_read K (sr, w3) = Inr (Inl INVALID_DATA, s, v)"
    unfolding shm_read_slot [OF sr(1,2) b(1) sr(3,4) tried read length_replicate]
    by (simp add: Let_def)
  with c show ?thesis
    by (auto simp: channel_receive_def)
qed

end

section \<open>Sessions\<close>

lemma shm_opened:
  assumes "shm_open K (shm_new name server file, w) = (True, s, w')"
  shows "length (sm_buffer s) = 528 \<and> sm_last_id s = 0 \<and> sm_offset s = 0 \<and> sm_fd s \<noteq> - 1"
proof -
  have "sm_fd (shm_new name server file) = - 1" by (simp add: shm_new_def)
  from shm_open_frame [OF assms this] show ?thesis
    by (simp add: shm_new_def)
qed

text \<open>
  An executable reference kernel with one mapping, at address 1, and two semaphores, at addresses 2
  and 3.
\<close>

record ring_kernel =
  rk_time :: u64
  rk_mem :: "byte list"
  rk_filled :: nat
  rk_free :: nat

definition ring_calls :: "ring_kernel shm_os" where
  "ring_calls = \<lparr>
     os_clock = (\<lambda>k. (rk_time k, k\<lparr>rk_time := rk_time k + 1\<rparr>)),
     os_poll = (\<lambda>_ _ k. (0, k)),
     os_sem_unlink = (\<lambda>_ k. k),
     os_sem_open = (\<lambda>name flag n k.
       if last name = CHR ''r''
       then (Some 2, if flag = [] then k else k\<lparr>rk_filled := n\<rparr>)
       else (Some 3, if flag = [] then k else k\<lparr>rk_free := n\<rparr>)),
     os_sem_close = (\<lambda>_ k. k),
     os_realtime = (\<lambda>k. (Some (0, 0), k)),
     os_sem_wait = (\<lambda>p k.
       if p = Some 3 \<and> 0 < rk_free k then (None, k\<lparr>rk_free := rk_free k - 1\<rparr>)
       else (Some (Other_Errno 4), k)),
     os_sem_trywait = (\<lambda>p k.
       if p = Some 2 \<and> 0 < rk_filled k then (None, k\<lparr>rk_filled := rk_filled k - 1\<rparr>)
       else (Some EAGAIN, k)),
     os_sem_timedwait = (\<lambda>p _ k.
       if p = Some 2 \<and> 0 < rk_filled k then (None, k\<lparr>rk_filled := rk_filled k - 1\<rparr>)
       else (Some ETIMEDOUT, k)),
     os_sem_post = (\<lambda>p k.
       if p = Some 2 then k\<lparr>rk_filled := rk_filled k + 1\<rparr> else k\<lparr>rk_free := rk_free k + 1\<rparr>),
     os_sem_getvalue = (\<lambda>p k. Some (int (if p = Some 2 then rk_filled k else rk_free k))),
     os_file_remove = (\<lambda>_ k. k), os_file_open = (\<lambda>_ _ k. (5, k)),
     os_shm_unlink = (\<lambda>_ k. k), os_shm_open = (\<lambda>_ _ k. (5, k)),
     os_ftruncate = (\<lambda>_ n k. (0, k\<lparr>rk_mem := take n (rk_mem k) @ replicate (n - length (rk_mem k)) 0\<rparr>)),
     os_mmap = (\<lambda>_ _ k. (Some 1, k)), os_munmap = (\<lambda>_ _ k. k), os_fd_close = (\<lambda>_ k. k),
     os_mem_read = (\<lambda>_ off n k. take n (drop off (rk_mem k))),
     os_mem_write = (\<lambda>_ off bs k. k\<lparr>rk_mem := splice (rk_mem k) off bs\<rparr>)\<rparr>"

definition ring_view :: "ring_kernel \<Rightarrow> byte list \<times> nat \<times> nat" where
  "ring_view k = (rk_mem k, rk_filled k, rk_free k)"

definition ring_boot :: ring_kernel where
  "ring_boot = \<lparr>rk_time = 1000, rk_mem = [], rk_filled = 0, rk_free = 0\<rparr>"

interpretation kernel_ring: ring_os ring_calls "{1}" "{Some 2}" "{Some 3}" ring_view
  by unfold_locales (auto simp: ring_calls_def ring_view_def split: if_splits)

text \<open>C3. Shared memory end to end: after the server created the ring and the client opened it, any
  interleaving of writes and reads neither faults nor hangs - no access leaves the mapping, and a
  write never overwrites a message that has not been read - and a finite number of further reads
  delivers exactly the objects whose write returned true, in order, unchanged, and numbered
  consecutively if no write failed.\<close>

theorem shm_delivers:
  assumes "ring_os K maps rsem wsem view"
    and "shm_open K (shm_new name True file, w) = (True, sr, w1)"
    and "shm_open K (shm_new name False file, w1) = (True, sw, w2)"
    and "sm_address sr \<in> Some ` maps" and "sm_reader sr \<in> rsem" and "sm_writer sr \<in> wsem"
    and "sm_address sw \<in> Some ` maps" and "sm_reader sw \<in> rsem" and "sm_writer sw \<in> wsem"
    and "view w2 = (m, 0, 64)" and "length m = TOTAL_SIZE"
  shows "\<exists>n s. channel_run (channel_send (shm_iface K)) (channel_receive (shm_iface K))
      (as @ replicate n Receive) (start_run (sw, sr, w2)) = Some (Inr s) \<and>
    map snd (rs_received s) = rs_sent s \<and>
    (rs_failed s = 0 \<longrightarrow> map (h_id \<circ> fst) (rs_received s) = numbers 0 (length (rs_sent s))) \<and>
    set (rs_errors s) \<subseteq> {NO_DATA_AVAILABLE}"
  using ring_os.ring_session_run [OF assms(1), of "(sw, sr, w2)" as]
    shm_opened [OF assms(2)] shm_opened [OF assms(3)] assms(4-11)
  by (simp add: ring_carries_def ring_pair_seq_def attached_def)

theorem shm_delivers_witness:
  "let (_, sr, w1) = shm_open ring_calls (shm_new ''/ipc'' True False, ring_boot);
       (_, sw, w2) = shm_open ring_calls (shm_new ''/ipc'' False False, w1)
   in \<exists>n s. channel_run (channel_send (shm_iface ring_calls)) (channel_receive (shm_iface ring_calls))
      ([Send Ping, Receive, Send Ping] @ replicate n Receive) (start_run (sw, sr, w2)) = Some (Inr s) \<and>
    map snd (rs_received s) = rs_sent s \<and>
    (rs_failed s = 0 \<longrightarrow> map (h_id \<circ> fst) (rs_received s) = numbers 0 (length (rs_sent s))) \<and>
    set (rs_errors s) \<subseteq> {NO_DATA_AVAILABLE}"
proof -
  obtain sr w1 where
    r: "shm_open ring_calls (shm_new ''/ipc'' True False, ring_boot) = (True, sr, w1)"
      "sm_address sr \<in> Some ` {1}" "sm_reader sr \<in> {Some 2}" "sm_writer sr \<in> {Some 3}"
      "w1 = ring_boot\<lparr>rk_mem := replicate 33792 0, rk_filled := 0, rk_free := 64\<rparr>"
    by (simp add: shm_open_def shm_open_fd_def shm_open_semaphores_def shm_new_def ring_calls_def
        ring_boot_def Let_def)
  obtain sw w2 where
    s: "shm_open ring_calls (shm_new ''/ipc'' False False, w1) = (True, sw, w2)"
      "sm_address sw \<in> Some ` {1}" "sm_reader sw \<in> {Some 2}" "sm_writer sw \<in> {Some 3}" "w2 = w1"
    by (simp add: shm_open_def shm_open_fd_def shm_open_semaphores_def shm_new_def ring_calls_def
        Let_def)
  have v: "ring_view w2 = (replicate 33792 0, 0, 64)" "length (replicate 33792 (0 :: byte)) = TOTAL_SIZE"
    by (simp_all add: s(5) r(5) ring_view_def)
  show ?thesis
    using shm_delivers [OF kernel_ring.ring_os_axioms r(1) s(1) r(2-4) s(2-4) v]
    by (simp only: r(1) s(1) Let_def case_prod_conv)
qed

text \<open>C30. A read of an arbitrary slot: whatever bytes the mapping holds, the read stays inside of the
  mapping and the buffer, moves on to the next slot and frees the one it read; its result is
  determined by the bytes, and only a header that announces more than a slot holds ends the reader.\<close>

theorem shm_read_spec:
  assumes "shm_inv (s, w)" and "sm_fd s \<noteq> - 1" and "sm_address s = Some a"
    and "os_sem_trywait K (sm_reader s) w = (None, w1)"
    and "os_mem_read K a (nat (sm_offset s) * BUFFER_SIZE) BUFFER_SIZE w1 = bytes"
    and "length bytes = BUFFER_SIZE"
  shows "shm_read K (s, w) =
    (let h = header_of_bytes (take sizeof_header bytes);
         size = unat (h_body_size h) in
     if size \<le> body_capacity
     then Inr (of_body h (decode_object (h_type h) (take size (drop sizeof_header bytes))),
       s\<lparr>sm_buffer := bytes, sm_offset := (sm_offset s + 1) mod TOTAL_AMOUNT\<rparr>,
       os_sem_post K (sm_writer s) w1)
     else Inl Assertion_Failed)"
proof -
  have "length (sm_buffer s) = 528" "0 \<le> sm_offset s" "sm_offset s < 64"
    using assms(1) by (simp_all add: shm_inv_def)
  from shm_read_slot [OF assms(2) this(1) assms(3) this(2,3) assms(4)
      assms(5,6) [unfolded BUFFER_SIZE_val]]
  show ?thesis
    by (simp only: sizeof_header_val body_capacity_val TOTAL_AMOUNT_val)
qed

definition ring_overlong :: "byte list" where
  "ring_overlong =
     header_bytes \<lparr>h_id = 1, h_type = BINARY_DATA, h_body_size = 600, h_timestamp = 0\<rparr> @ replicate 512 0"

theorem shm_read_spec_witness:
  "shm_read ring_calls ((shm_new ''/ipc'' True False)\<lparr>sm_fd := 5, sm_address := Some 1,
       sm_reader := Some 2, sm_writer := Some 3\<rparr>,
     ring_boot\<lparr>rk_mem := ring_overlong, rk_filled := 1, rk_free := 63\<rparr>) = Inl Assertion_Failed"
proof -
  have "header_of_bytes (take 16 ring_overlong) =
      \<lparr>h_id = 1, h_type = BINARY_DATA, h_body_size = 600, h_timestamp = 0\<rparr>"
    and "length ring_overlong = 528"
    by (simp_all add: ring_overlong_def)
  then show ?thesis
    by (subst shm_read_spec [where a = 1 and bytes = ring_overlong and
          ?w1.0 = "ring_boot\<lparr>rk_mem := ring_overlong, rk_filled := 0, rk_free := 63\<rparr>"])
      (simp_all add: shm_inv_def shm_new_def ring_calls_def Let_def)
qed

text \<open>C34. A writing process that starts while the reader has already moved on - after an earlier
  writer sent some messages and ended - is not heard: its first message goes to slot 0, while the
  reader, woken by the semaphore, looks at its own, still empty slot and reports invalid data.\<close>

theorem shm_second_writer:
  assumes "ring_os K maps rsem wsem view"
    and "shm_open K (shm_new name False file, w) = (True, sw, w1)"
    and "attached maps rsem wsem sw" and "attached maps rsem wsem sr"
    and "sm_offset sr \<noteq> 0"
    and "view w1 = (m, 0, 64)" and "length m = TOTAL_SIZE"
    and "slot m (nat (sm_offset sr)) = replicate BUFFER_SIZE 0"
    and "length (object_bytes obj) \<le> body_capacity"
    and "channel_send (shm_iface K) obj (sw, sr, w1) = Inr (True, c)"
  shows "\<exists>c'. channel_receive (shm_iface K) c = Some (Inr (Inl INVALID_DATA, c'))"
  using ring_os.new_writer_misses [OF assms(1,3,4) _ refl assms(5,6)] shm_opened [OF assms(2)] assms(7-10)
  by simp

text \<open>The state in the witness: the reader is at slot 1, the ring is empty and blank.\<close>

definition ring_second :: ring_kernel where
  "ring_second = \<lparr>rk_time = 1000, rk_mem = replicate 33792 0, rk_filled = 0, rk_free = 64\<rparr>"

definition ring_old_reader :: shared_memory where
  "ring_old_reader = (shm_new ''/ipc'' True False)\<lparr>sm_fd := 5, sm_address := Some 1,
     sm_reader := Some 2, sm_writer := Some 3, sm_offset := 1, sm_last_id := 0\<rparr>"

theorem shm_second_writer_witness:
  "let (_, sw, w1) = shm_open ring_calls (shm_new ''/ipc'' False False, ring_second)
   in case channel_send (shm_iface ring_calls) Ping (sw, ring_old_reader, w1) of
        Inr (True, c) \<Rightarrow> \<exists>c'. channel_receive (shm_iface ring_calls) c = Some (Inr (Inl INVALID_DATA, c'))
      | _ \<Rightarrow> False"
proof -
  obtain sw w1 where
    o: "shm_open ring_calls (shm_new ''/ipc'' False False, ring_second) = (True, sw, w1)"
      "attached {1} {Some 2} {Some 3} sw" "w1 = ring_second"
    by (simp add: shm_open_def shm_open_fd_def shm_open_semaphores_def shm_new_def ring_calls_def
        attached_def Let_def)
  have r: "attached {1} {Some 2} {Some 3} ring_old_reader" "sm_offset ring_old_reader \<noteq> 0"
    by (simp_all add: attached_def ring_old_reader_def shm_new_def)
  have v: "ring_view w1 = (replicate 33792 0, 0, 64)" "length (replicate 33792 (0 :: byte)) = TOTAL_SIZE"
      "slot (replicate 33792 0) (nat (sm_offset ring_old_reader)) = replicate BUFFER_SIZE 0"
    by (simp_all add: o(3) ring_second_def ring_view_def slot_def ring_old_reader_def)
  have p: "length (object_bytes Ping) \<le> body_capacity"
    by simp
  have f: "sm_fd sw \<noteq> - 1" "length (sm_buffer sw) = 528" "sm_address sw = Some 1" "0 \<le> sm_offset sw"
      "sm_offset sw < 64" "sm_writer sw = Some 3"
    using o(2) by (auto simp: attached_def)
  have "os_clock ring_calls w1 = (1000, w1\<lparr>rk_time := 1001\<rparr>)"
    and "os_sem_wait ring_calls (sm_writer sw) (w1\<lparr>rk_time := 1001\<rparr>) =
      (None, w1\<lparr>rk_time := 1001, rk_free := 63\<rparr>)"
    by (simp_all add: ring_calls_def o(3) ring_second_def f(6))
  from shm_write_eq [OF f(2,1,3,4,5) this, of Ping]
  obtain c where "channel_send (shm_iface ring_calls) Ping (sw, ring_old_reader, w1) = Inr (True, c)"
    by (simp add: channel_send_def Let_def)
  with shm_second_writer [OF kernel_ring.ring_os_axioms o(1,2) r v p this] show ?thesis
    by (simp add: o(1))
qed

text \<open>A write to open shared memory: an object that does not fit changes nothing but the clock; if
  the wait for a free slot fails, the message is dropped, with its sequence number used up;
  otherwise exactly the bytes of the message are copied to the writer's slot, the writer moves on to
  the next slot, and only then the reader is signalled.\<close>

lemma shm_write_spec:
  assumes "shm_inv (s, w)" and "sm_fd s \<noteq> - 1" and "sm_address s = Some a"
  shows "shm_write K obj (s, w) =
    (let (ts, w1) = os_clock K w; ident = sm_last_id s + 1;
         (res, w2) = os_sem_wait K (sm_writer s) w1;
         s' = s\<lparr>sm_last_id := ident, sm_buffer := staged ident ts obj (sm_buffer s)\<rparr> in
     if body_capacity < length (object_bytes obj) then Inr (False, s, w1)
     else if res \<noteq> None then Inr (False, s', w2)
     else Inr (True, s'\<lparr>sm_offset := (sm_offset s + 1) mod TOTAL_AMOUNT\<rparr>,
       os_sem_post K (sm_reader s)
         (os_mem_write K a (nat (sm_offset s) * BUFFER_SIZE) (message_bytes ident ts obj) w2)))"
proof -
  obtain ts w1 where clock: "os_clock K w = (ts, w1)"
    by (cases "os_clock K w")
  obtain res w2 where wait: "os_sem_wait K (sm_writer s) w1 = (res, w2)"
    by fastforce
  show ?thesis
    using shm_write_eq [OF _ assms(2,3) _ _ clock wait, of obj] assms(1)
    by (simp add: shm_inv_def clock wait Let_def)
qed

end
