(* ===== verification/Benchmark_Interface.thy ===== *)
theory Benchmark_Interface
  imports Comm_Interface
begin

text \<open>
  What the four benchmarks share (include/benchmark/benchmark.hpp): the calls they make besides those
  of the handler, the loop that waits for data, and the two contracts their proofs rest on - a
  handler whose state does not depend on the world, and a handler with messages waiting for it.
\<close>

section \<open>The environment of a benchmark\<close>

text \<open>
  A benchmark runs on a handler \<open>(s, w)\<close>, the handler's own state and the world; reading the clock,
  sleeping and drawing random numbers act on the world alone.
\<close>

record 'w bench_os = "'w os_base" +
  os_sleep_for :: "u32 \<Rightarrow> 'w \<Rightarrow> 'w"
  os_sleep_until :: "u64 \<Rightarrow> 'w \<Rightarrow> 'w"
  os_rand :: "'w \<Rightarrow> int \<times> 'w"

text \<open>\<open>while (!more_data && !handler.await_data());\<close> - \<open>None\<close> where it never ends.\<close>

partial_function (option) await_loop :: "'h comm_iface \<Rightarrow> bool \<Rightarrow> 'h \<Rightarrow> 'h option" where
  "await_loop I more_data h =
     (if more_data then Some h
      else let (ready, h) = c_await_data I h in if ready then Some h else await_loop I False h)"

lemma await_loop_more [simp]: "await_loop I True h = Some h"
  by (subst await_loop.simps) simp

section \<open>Loop counters\<close>

text \<open>
  The counters are \<open>unsigned int\<close>.  A loop \<open>i <= iterations\<close> over them ends only if \<open>iterations\<close> is
  not the largest value; \<open>rounds\<close> is the number of rounds left.
\<close>

definition rounds :: "u32 \<Rightarrow> u32 \<Rightarrow> nat" where
  "rounds i iterations = unat iterations + 1 - unat i"

lemma rounds_step:
  assumes "i \<le> iterations" and "iterations \<noteq> - 1"
  shows "rounds i iterations = Suc (rounds (i + 1) iterations)" and "unat (i + 1) = unat i + 1"
proof -
  have "i \<noteq> - 1"
    using assms by (metis word_n1_ge antisym)
  then have "1 + i \<noteq> 0"
    by (metis add.commute add_eq_0_iff minus_equation_iff)
  then show next_i: "unat (i + 1) = unat i + 1"
    by (metis add.commute unatSuc Suc_eq_plus1)
  have "unat i \<le> unat iterations"
    using assms(1) by (simp add: word_le_nat_alt)
  then show "rounds i iterations = Suc (rounds (i + 1) iterations)"
    unfolding rounds_def next_i by simp
qed

lemma rounds_end: "\<not> i \<le> iterations \<Longrightarrow> rounds i iterations = 0"
  by (simp add: rounds_def word_le_nat_alt)

lemma rounds_start: "rounds 1 iterations = unat iterations"
  by (simp add: rounds_def)

section \<open>Handlers under a benchmark\<close>

text \<open>
  The invariant of a handler, whether it is open and its sequence number are facts about the handler
  object, so they survive the calls that a benchmark makes in between.
\<close>

locale bench_handler = comm_handler I invar last_seq capacity
  for I :: "('s \<times> 'w) comm_iface" and invar last_seq capacity +
  assumes invar_world: "invar (s, w) \<Longrightarrow> invar (s, w')"
    and open_world: "c_is_open I (s, w) = c_is_open I (s, w')"
    and seq_world: "last_seq (s, w) = last_seq (s, w')"
begin

lemma await_loop_keeps:
  assumes "await_loop I more_data h = Some h'" and "invar h"
  shows "invar h' \<and> c_is_open I h' = c_is_open I h \<and> last_seq h' = last_seq h"
  by (rule await_loop.raw_induct
      [where P = "\<lambda>J m h h'. J = I \<longrightarrow> invar h \<longrightarrow>
        invar h' \<and> c_is_open I h' = c_is_open I h \<and> last_seq h' = last_seq h",
      OF _ assms(1), rule_format, OF _ refl assms(2)])
    (auto split: if_splits prod.splits dest: await_law)

end

text \<open>
  A handler for which messages have arrived or are on their way: waiting reports them or times out,
  because the next one is late, and a read takes the first one, or finds nothing, because the message
  is delayed or because what it took was not for the handler.  \<open>effort\<close> bounds how often that may
  happen; it depends on whether the loop waits before it reads or, after a successful read, does not.
  With none left, waiting times out, or it reports something that is not for the handler and that the
  read discards.
\<close>

locale message_source = bench_handler I invar last_seq capacity
  for I :: "('s \<times> 'w) comm_iface" and invar last_seq capacity +
  fixes holds :: "'s \<times> 'w \<Rightarrow> (data_header \<times> data_object) list \<Rightarrow> bool"
    and effort :: "bool \<Rightarrow> 's \<times> 'w \<Rightarrow> nat"
    and B :: "'w bench_os"
  assumes holds_invar: "holds h ms \<Longrightarrow> invar h"
    and clock_holds: "\<lbrakk>holds (s, w) ms; os_clock B w = (ts, w')\<rbrakk> \<Longrightarrow>
      holds (s, w') ms \<and> effort more_data (s, w') \<le> effort more_data (s, w)"
    and await_holds: "holds h (m # ms) \<Longrightarrow> \<exists>ready h'. c_await_data I h = (ready, h') \<and>
      holds h' (m # ms) \<and>
      (if ready then effort True h' \<le> effort False h else effort False h' < effort False h)"
    and read_holds: "holds h (m # ms) \<Longrightarrow> \<exists>r h'. c_read I h = Some (Inr (r, h')) \<and>
      (r = Inr m \<and> holds h' ms \<or>
       r = Inl NO_DATA_AVAILABLE \<and> holds h' (m # ms) \<and> effort False h' < effort True h)"
    and await_idle: "holds h [] \<Longrightarrow> \<exists>ready h'. c_await_data I h = (ready, h') \<and> holds h' [] \<and>
      (if ready then \<exists>h''. c_read I h' = Some (Inr (Inl NO_DATA_AVAILABLE, h'')) \<and>
         holds h'' [] \<and> effort False h'' < effort False h
       else effort False h' \<le> effort False h)"
    and read_idle: "holds h [] \<Longrightarrow>
      \<exists>h'. c_read I h = Some (Inr (Inl NO_DATA_AVAILABLE, h')) \<and> holds h' []"
begin

lemma await_loop_ready:
  assumes "holds h (m # ms)"
  shows "\<exists>h'. await_loop I more_data h = Some h' \<and> holds h' (m # ms) \<and>
    effort True h' \<le> effort more_data h"
proof (cases more_data)
  case True
  with assms show ?thesis by auto
next
  case False
  from assms have "\<exists>h'. await_loop I False h = Some h' \<and> holds h' (m # ms) \<and>
    effort True h' \<le> effort False h"
  proof (induction "effort False h" arbitrary: h rule: less_induct)
    case less
    from await_holds [OF less.prems] obtain ready h1 where
      await: "c_await_data I h = (ready, h1)" and h1: "holds h1 (m # ms)"
        "if ready then effort True h1 \<le> effort False h else effort False h1 < effort False h"
      by blast
    show ?case
    proof (cases ready)
      case True
      with await h1 show ?thesis
        by (subst await_loop.simps) auto
    next
      case False
      with h1 have "effort False h1 < effort False h" by simp
      from less.hyps [OF this h1(1)] this False await show ?thesis
        by (subst await_loop.simps) auto
    qed
  qed
  with False show ?thesis by simp
qed

lemma await_loop_idle:
  assumes "await_loop I more_data h = Some h'" and "holds h []"
  shows "holds h' []"
proof (rule await_loop.raw_induct
    [where P = "\<lambda>J m h h'. J = I \<longrightarrow> holds h [] \<longrightarrow> holds h' []",
     OF _ assms(1), rule_format, OF _ refl assms(2)], goal_cases)
  case (1 loop J m h h')
  from await_idle [OF 1(4)] obtain ready h1 where "c_await_data I h = (ready, h1)" "holds h1 []"
    by blast
  with 1 show ?case
    by (auto split: if_splits)
qed

end

text \<open>
  The messages are prompt if waiting never times out while there are any, that is, none of them is
  ever late by more than the timeout.
\<close>

definition prompt ::
  "'h comm_iface \<Rightarrow> ('h \<Rightarrow> (data_header \<times> data_object) list \<Rightarrow> bool) \<Rightarrow> bool" where
  "prompt I holds \<longleftrightarrow> (\<forall>h m ms. holds h (m # ms) \<longrightarrow> fst (c_await_data I h))"

end
