(* ===== verification/Latency_Benchmark.thy ===== *)
theory Latency_Benchmark
  imports Benchmark_Interface
begin

text \<open>
  The latency benchmark (include/benchmark/latency.hpp, src/benchmark/latency.cpp): the client writes
  empty messages with a delay in between, the server records for each message the time since it was
  created.
\<close>

record latency_benchmark =
  lb_iterations :: u32
  lb_delay :: u32
  lb_server :: bool
  lb_latencies :: "u32 list"

definition latency_new :: "u32 \<Rightarrow> u32 \<Rightarrow> bool \<Rightarrow> latency_benchmark" where
  "latency_new iterations delay server =
     \<lparr>lb_iterations = iterations, lb_delay = delay, lb_server = server, lb_latencies = []\<rparr>"

definition latency_setup :: "'h comm_iface \<Rightarrow> 'h \<Rightarrow> bool \<times> 'h" where
  "latency_setup I h = c_open I h"

definition latency_cleanup :: "'h comm_iface \<Rightarrow> 'h \<Rightarrow> 'h" where
  "latency_cleanup I h = snd (c_close I h)"

text \<open>The difference of two 64-bit times is stored in a vector of \<open>unsigned int\<close>.\<close>

partial_function (option) latency_server_loop ::
  "'w bench_os \<Rightarrow> ('s \<times> 'w) comm_iface \<Rightarrow> bool \<Rightarrow> u32 \<Rightarrow> latency_benchmark \<Rightarrow> 's \<times> 'w \<Rightarrow>
   (bool \<times> latency_benchmark \<times> 's \<times> 'w) res option" where
  "latency_server_loop B I more_data i b h =
     (if i \<le> lb_iterations b then
        case await_loop I more_data h of
          None \<Rightarrow> None
        | Some h \<Rightarrow>
            (case c_read I h of
               None \<Rightarrow> None
             | Some (Inl f) \<Rightarrow> Some (Inl f)
             | Some (Inr (Inl e, h)) \<Rightarrow>
                 if e = NO_DATA_AVAILABLE then latency_server_loop B I False i b h
                 else Some (Inr (False, b, h))
             | Some (Inr (Inr (header, obj), s, w)) \<Rightarrow>
                 let (ts, w) = get_timestamp B w;
                     delta = ts - h_timestamp header in
                 latency_server_loop B I True (i + 1)
                   (b\<lparr>lb_latencies := lb_latencies b @ [ucast delta]\<rparr>) (s, w))
      else Some (Inr (True, b, h)))"

definition latency_run_server ::
  "'w bench_os \<Rightarrow> ('s \<times> 'w) comm_iface \<Rightarrow> latency_benchmark \<Rightarrow> 's \<times> 'w \<Rightarrow>
   (bool \<times> latency_benchmark \<times> 's \<times> 'w) res option" where
  "latency_run_server B I b h = latency_server_loop B I False 1 b h"

partial_function (option) latency_client_loop ::
  "'w bench_os \<Rightarrow> ('s \<times> 'w) comm_iface \<Rightarrow> u32 \<Rightarrow> latency_benchmark \<Rightarrow> 's \<times> 'w \<Rightarrow>
   (bool \<times> 's \<times> 'w) res option" where
  "latency_client_loop B I i b h =
     (if i \<le> lb_iterations b then
        case c_write I Ping h of
          Inl f \<Rightarrow> Some (Inl f)
        | Inr (result, s, w) \<Rightarrow>
            if \<not> result then Some (Inr (False, s, w))
            else latency_client_loop B I (i + 1) b (s, os_sleep_for B (lb_delay b) w)
      else Some (Inr (True, h)))"

definition latency_run_client ::
  "'w bench_os \<Rightarrow> ('s \<times> 'w) comm_iface \<Rightarrow> latency_benchmark \<Rightarrow> 's \<times> 'w \<Rightarrow>
   (bool \<times> 's \<times> 'w) res option" where
  "latency_run_client B I b h = latency_client_loop B I 1 b h"

definition latency_run ::
  "'w bench_os \<Rightarrow> ('s \<times> 'w) comm_iface \<Rightarrow> latency_benchmark \<Rightarrow> 's \<times> 'w \<Rightarrow>
   (bool \<times> latency_benchmark \<times> 's \<times> 'w) res option" where
  "latency_run B I b h =
     (if lb_server b then latency_run_server B I b h
      else map_option (\<lambda>res. and_then res (\<lambda>(ok, h). Inr (ok, b, h))) (latency_run_client B I b h))"

section \<open>The client\<close>

context bench_handler
begin

text \<open>
  The client returns; it is successful exactly if every write was, and the handler has then used one
  sequence number for each message.
\<close>

lemma latency_client_loop_returns:
  assumes "invar h" and "lb_iterations b \<noteq> - 1"
  shows "\<exists>ok h'. latency_client_loop B I i b h = Some (Inr (ok, h')) \<and> invar h' \<and>
    c_is_open I h' = c_is_open I h \<and>
    (ok \<longrightarrow> last_seq h' = last_seq h + of_nat (rounds i (lb_iterations b)))"
  using assms(1)
proof (induction "rounds i (lb_iterations b)" arbitrary: i h)
  case 0
  then have "\<not> i \<le> lb_iterations b"
    using rounds_step(1) [OF _ assms(2)] by fastforce
  with 0 show ?case
    by (intro exI [of _ True]) (subst latency_client_loop.simps, simp)
next
  case (Suc n)
  then have le: "i \<le> lb_iterations b"
    using rounds_end by fastforce
  have n: "n = rounds (i + 1) (lb_iterations b)"
    using Suc.hyps(2) rounds_step(1) [OF le assms(2)] by simp
  from write_law [OF Suc.prems, of Ping] obtain ok s1 w1
    where written: "c_write I Ping h = Inr (ok, s1, w1)" and h1: "invar (s1, w1)"
      and open1: "c_is_open I (s1, w1) = c_is_open I h"
      and seq1: "ok \<longrightarrow> last_seq (s1, w1) = last_seq h + 1"
    by (metis surj_pair)
  show ?case
  proof (cases ok)
    case False
    with written le h1 open1 show ?thesis
      by (intro exI [of _ False]) (subst latency_client_loop.simps, simp)
  next
    case True
    let ?w2 = "os_sleep_for B (lb_delay b) w1"
    from Suc.hyps(1) [OF n invar_world [OF h1, of ?w2]] obtain ok' h'
      where "latency_client_loop B I (i + 1) b (s1, ?w2) = Some (Inr (ok', h'))" "invar h'"
        "c_is_open I h' = c_is_open I (s1, ?w2)"
        "ok' \<longrightarrow> last_seq h' = last_seq (s1, ?w2) + of_nat (rounds (i + 1) (lb_iterations b))"
      by blast
    with True written le open1 seq1 seq_world [of s1 ?w2 w1] open_world [of s1 ?w2 w1]
      rounds_step(1) [OF le assms(2)] show ?thesis
      by (subst latency_client_loop.simps) (simp add: add.assoc)
  qed
qed

lemma latency_client_returns:
  assumes "invar h" and "lb_iterations b \<noteq> - 1"
  shows "\<exists>ok h'. latency_run_client B I b h = Some (Inr (ok, h')) \<and> invar h' \<and>
    (ok \<longrightarrow> last_seq h' = last_seq h + lb_iterations b)"
  using latency_client_loop_returns [OF assms, of B 1]
  by (auto simp: latency_run_client_def rounds_start)

end

section \<open>The server\<close>

context bench_handler
begin

text \<open>A successful run has recorded one latency for each iteration.\<close>

lemma latency_server_loop_result:
  assumes "latency_server_loop B I more_data i b h = Some (Inr (ok, b', h'))"
    and "invar h" and "lb_iterations b \<noteq> - 1"
  shows "invar h' \<and> lb_iterations b' = lb_iterations b \<and>
    (ok \<longrightarrow> length (lb_latencies b') = length (lb_latencies b) + rounds i (lb_iterations b))"
proof (rule latency_server_loop.raw_induct
    [where P = "\<lambda>B J m i b h r. \<forall>ok b' h'. r = Inr (ok, b', h') \<longrightarrow> J = I \<longrightarrow> invar h \<longrightarrow>
      lb_iterations b \<noteq> - 1 \<longrightarrow> invar h' \<and> lb_iterations b' = lb_iterations b \<and>
      (ok \<longrightarrow> length (lb_latencies b') = length (lb_latencies b) + rounds i (lb_iterations b))",
    OF _ assms(1), rule_format, OF _ refl refl assms(2,3)], goal_cases)
  case (1 loop B J m i b h r ok b' h')
  show ?case
  proof (cases "i \<le> lb_iterations b")
    case False
    with 1 show ?thesis
      by (auto simp: rounds_end)
  next
    case True
    with 1(2,3,4) obtain h1 where await: "await_loop I m h = Some h1"
      by (auto split: option.splits)
    have h1: "invar h1"
      using await_loop_keeps [OF await 1(5)] by simp
    from 1(2,3,4) True await obtain x s2 w2 where read: "c_read I h1 = Some (Inr (x, s2, w2))"
      by (auto split: option.splits sum.splits)
    have h2: "invar (s2, w2)"
      using read_law [OF h1 read] by simp
    show ?thesis
    proof (cases x)
      case (Inl e)
      show ?thesis
      proof (cases "e = NO_DATA_AVAILABLE")
        case True': True
        with 1(2,3,4) True await read Inl have "loop B I False i b (s2, w2) = Some (Inr (ok, b', h'))"
          by simp
        from 1(1) [OF this] 1(6) h2 show ?thesis by simp
      next
        case False
        with 1(2,3,4) True await read Inl h2 show ?thesis by auto
      qed
    next
      case (Inr m')
      obtain header obj where m': "m' = (header, obj)" by (cases m')
      obtain ts w3 where clock: "get_timestamp B w2 = (ts, w3)" by fastforce
      let ?b = "b\<lparr>lb_latencies := lb_latencies b @ [ucast (ts - h_timestamp header)]\<rparr>"
      from 1(2,3,4) True await read Inr m' clock
      have "loop B I True (i + 1) ?b (s2, w3) = Some (Inr (ok, b', h'))"
        by simp
      from 1(1) [OF this] 1(6) invar_world [OF h2, of w3] rounds_step(1) [OF True 1(6)]
      show ?thesis by simp
    qed
  qed
qed

end

text \<open>With enough messages waiting, the run returns, is successful and leaves the other messages.\<close>

context message_source
begin

lemma latency_server_loop_completes:
  assumes "holds h ms" and "rounds i (lb_iterations b) \<le> length ms" and "lb_iterations b \<noteq> - 1"
  shows "\<exists>b' h'. latency_server_loop B I more_data i b h = Some (Inr (True, b', h')) \<and>
    holds h' (drop (rounds i (lb_iterations b)) ms)"
  using assms(1,2,3)
proof (induction "(rounds i (lb_iterations b), effort more_data h)" arbitrary: more_data i b h ms
    rule: wf_induct_rule [OF wf_lex_prod [OF wf_less_than wf_less_than], case_names step])
  case step
  show ?case
  proof (cases "i \<le> lb_iterations b")
    case False
    with step.prems show ?thesis
      by (subst latency_server_loop.simps) (simp add: rounds_end)
  next
    case True
    note r = rounds_step(1) [OF True step.prems(3)]
    with step.prems(2) obtain m ms' where ms: "ms = m # ms'" by (cases ms) auto
    from await_loop_ready [of h m ms' more_data] step.prems(1) ms obtain h1
      where await: "await_loop I more_data h = Some h1" and h1: "holds h1 (m # ms')" "effort True h1 \<le> effort more_data h"
      by blast
    from read_holds [OF h1(1)] obtain x s2 w2 where read: "c_read I h1 = Some (Inr (x, s2, w2))"
      and x: "x = Inr m \<and> holds (s2, w2) ms' \<or>
        x = Inl NO_DATA_AVAILABLE \<and> holds (s2, w2) (m # ms') \<and> effort False (s2, w2) < effort True h1"
      by (metis surj_pair)
    from x show ?thesis
    proof (elim disjE conjE)
      assume none: "x = Inl NO_DATA_AVAILABLE" and h2: "holds (s2, w2) (m # ms')"
        and less: "effort False (s2, w2) < effort True h1"
      have "((rounds i (lb_iterations b), effort False (s2, w2)), rounds i (lb_iterations b), effort more_data h)
          \<in> less_than <*lex*> less_than"
        using less h1(2) by simp
      from step.hyps [OF this h2] step.prems ms obtain b' h'
        where "latency_server_loop B I False i b (s2, w2) = Some (Inr (True, b', h'))"
          and "holds h' (drop (rounds i (lb_iterations b)) ms)"
        by blast
      with True await read none show ?thesis
        by (subst latency_server_loop.simps) simp
    next
      assume some: "x = Inr m" and h2: "holds (s2, w2) ms'"
      obtain header obj where m: "m = (header, obj)" by (cases m)
      obtain ts w3 where clock: "get_timestamp B w2 = (ts, w3)" by fastforce
      then have h3: "holds (s2, w3) ms'"
        using clock_holds [OF h2] by (simp add: get_timestamp_def)
      let ?b = "b\<lparr>lb_latencies := lb_latencies b @ [ucast (ts - h_timestamp header)]\<rparr>"
      have "((rounds (i + 1) (lb_iterations ?b), effort True (s2, w3)), rounds i (lb_iterations b), effort more_data h)
          \<in> less_than <*lex*> less_than"
        using r by simp
      moreover have "rounds (i + 1) (lb_iterations ?b) \<le> length ms'" "lb_iterations ?b \<noteq> - 1"
        using r step.prems ms by simp_all
      ultimately obtain b' h'
        where "latency_server_loop B I True (i + 1) ?b (s2, w3) = Some (Inr (True, b', h'))"
          and "holds h' (drop (rounds (i + 1) (lb_iterations ?b)) ms')"
        using step.hyps [OF _ h3] by blast
      with True await read some m clock ms r show ?thesis
        by (subst latency_server_loop.simps) simp
    qed
  qed
qed

lemma latency_server_completes:
  assumes "holds h ms" and "unat (lb_iterations b) \<le> length ms" and "lb_iterations b \<noteq> - 1"
  shows "\<exists>b' h'. latency_run_server B I b h = Some (Inr (True, b', h')) \<and>
    holds h' (drop (unat (lb_iterations b)) ms) \<and>
    length (lb_latencies b') = length (lb_latencies b) + unat (lb_iterations b)"
proof -
  from assms(2) have "rounds 1 (lb_iterations b) \<le> length ms"
    by (simp add: rounds_start)
  from latency_server_loop_completes [OF assms(1) this assms(3)] obtain b' h'
    where run: "latency_server_loop B I False 1 b h = Some (Inr (True, b', h'))"
      and rest: "holds h' (drop (rounds 1 (lb_iterations b)) ms)"
    by blast
  from latency_server_loop_result [OF run holds_invar [OF assms(1)] assms(3)] run rest show ?thesis
    by (auto simp: latency_run_server_def rounds_start)
qed

text \<open>With nothing left, the server never returns: every read finds nothing.\<close>

lemma latency_server_loop_idle:
  assumes "holds h []" and "i \<le> lb_iterations b"
  shows "latency_server_loop B I more_data i b h = None"
proof -
  have "False" if "latency_server_loop B I more_data i b h = Some r" for r
  proof (rule latency_server_loop.raw_induct
      [where P = "\<lambda>C J m j c h r. C = B \<longrightarrow> J = I \<longrightarrow> j = i \<longrightarrow> c = b \<longrightarrow> holds h [] \<longrightarrow> False",
       OF _ that, rule_format, OF _ refl refl refl refl assms(1)], goal_cases)
    case (1 loop C J m j c h r)
    note step = 1(2) [unfolded 1(3-6)]
    from step assms(2) obtain h1 where await: "await_loop I m h = Some h1"
      by (auto split: option.splits)
    from read_idle [OF await_loop_idle [OF await 1(7)]] obtain h2
      where "c_read I h1 = Some (Inr (Inl NO_DATA_AVAILABLE, h2))" and h2: "holds h2 []" by blast
    with step assms(2) await have "loop B I False i b h2 = Some r" by simp
    from 1(1) [OF this refl refl refl refl h2] show ?case .
  qed
  then show ?thesis
    by (cases "latency_server_loop B I more_data i b h") auto
qed

text \<open>With fewer messages than iterations, the server waits forever.\<close>

lemma latency_server_loop_waits:
  assumes "holds h ms" and "length ms < rounds i (lb_iterations b)" and "lb_iterations b \<noteq> - 1"
  shows "latency_server_loop B I more_data i b h = None"
  using assms
proof (induction "(length ms, effort more_data h)" arbitrary: more_data i b h ms
    rule: wf_induct_rule [OF wf_lex_prod [OF wf_less_than wf_less_than], case_names step])
  case step
  then have le: "i \<le> lb_iterations b"
    using rounds_end by fastforce
  note r = rounds_step(1) [OF le step.prems(3)]
  show ?case
  proof (cases ms)
    case Nil
    with latency_server_loop_idle step.prems(1) le show ?thesis by simp
  next
    case (Cons m ms')
    from await_loop_ready [of h m ms' more_data] step.prems(1) Cons obtain h1
      where await: "await_loop I more_data h = Some h1" and h1: "holds h1 (m # ms')" "effort True h1 \<le> effort more_data h"
      by blast
    from read_holds [OF h1(1)] obtain x s2 w2 where read: "c_read I h1 = Some (Inr (x, s2, w2))"
      and x: "x = Inr m \<and> holds (s2, w2) ms' \<or>
        x = Inl NO_DATA_AVAILABLE \<and> holds (s2, w2) (m # ms') \<and> effort False (s2, w2) < effort True h1"
      by (metis surj_pair)
    from x show ?thesis
    proof (elim disjE conjE)
      assume none: "x = Inl NO_DATA_AVAILABLE" and h2: "holds (s2, w2) (m # ms')"
        and less: "effort False (s2, w2) < effort True h1"
      have "((length ms, effort False (s2, w2)), length ms, effort more_data h) \<in> less_than <*lex*> less_than"
        using less h1(2) by simp
      from step.hyps [OF this _ step.prems(2,3)] h2 Cons le await read none show ?thesis
        by (subst latency_server_loop.simps) simp
    next
      assume some: "x = Inr m" and h2: "holds (s2, w2) ms'"
      obtain header obj where m: "m = (header, obj)" by (cases m)
      obtain ts w3 where clock: "get_timestamp B w2 = (ts, w3)" by fastforce
      then have h3: "holds (s2, w3) ms'"
        using clock_holds [OF h2] by (simp add: get_timestamp_def)
      let ?b = "b\<lparr>lb_latencies := lb_latencies b @ [ucast (ts - h_timestamp header)]\<rparr>"
      have "((length ms', effort True (s2, w3)), length ms, effort more_data h) \<in> less_than <*lex*> less_than"
        by (simp add: Cons)
      moreover have "length ms' < rounds (i + 1) (lb_iterations ?b)" "lb_iterations ?b \<noteq> - 1"
        using r step.prems Cons by simp_all
      ultimately have "latency_server_loop B I True (i + 1) ?b (s2, w3) = None"
        by (intro step.hyps [OF _ h3])
      with le await read some m clock show ?thesis
        by (subst latency_server_loop.simps) simp
    qed
  qed
qed

end

end
