(* ===== verification/Throughput_Benchmark.thy ===== *)
theory Throughput_Benchmark
  imports Benchmark_Interface Complex_Main
begin

text \<open>
  The throughput benchmark (include/benchmark/throughput.hpp, src/benchmark/throughput.cpp): the
  client writes binary objects of a fixed size as fast as it can, the server counts what arrives and
  gives up when messages that were lost do not come.
\<close>

record throughput_benchmark =
  tb_iterations :: u32
  tb_size :: u32
  tb_server :: bool
  tb_start_time :: u64
  tb_end_time :: u64
  tb_received :: u32

definition throughput_new :: "u32 \<Rightarrow> u32 \<Rightarrow> bool \<Rightarrow> throughput_benchmark" where
  "throughput_new iterations sz server =
     \<lparr>tb_iterations = iterations, tb_size = sz, tb_server = server, tb_start_time = 0,
      tb_end_time = 0, tb_received = 0\<rparr>"

definition throughput_setup :: "'h comm_iface \<Rightarrow> 'h \<Rightarrow> bool \<times> 'h" where
  "throughput_setup I h = c_open I h"

definition throughput_cleanup :: "'h comm_iface \<Rightarrow> 'h \<Rightarrow> 'h" where
  "throughput_cleanup I h = snd (c_close I h)"

text \<open>
  The results, as exact rational numbers where the code computes with \<open>double\<close>: milliseconds, and
  KiB per second.  The product of the two \<open>unsigned int\<close> wraps before it is converted.
\<close>

definition throughput_total_time :: "throughput_benchmark \<Rightarrow> rat" where
  "throughput_total_time b = of_int (sint (tb_end_time b - tb_start_time b)) / 1000 / 1000"

definition throughput_result :: "throughput_benchmark \<Rightarrow> rat" where
  "throughput_result b =
     (of_nat (unat (tb_received b * tb_size b)) / 1024) / (throughput_total_time b / 1000)"

section \<open>The server\<close>

definition max_retries :: int where
  "max_retries = 10 * 1000 div WAIT_TIME"

lemma max_retries_val [simp]: "max_retries = 2"
  by (simp add: max_retries_def WAIT_TIME_def)

text \<open>Waiting for data; the result says whether the server gives up.\<close>

partial_function (option) throughput_wait ::
  "'h comm_iface \<Rightarrow> u32 \<Rightarrow> bool \<Rightarrow> int \<Rightarrow> 'h \<Rightarrow> (bool \<times> 'h) option" where
  "throughput_wait I received more_data retry h =
     (if more_data then Some (False, h)
      else
        let (ready, h) = c_await_data I h in
        if ready then Some (False, h)
        else
          let retry = retry + 1 in
          if received > 0 \<and> retry > max_retries then Some (True, h)
          else throughput_wait I received False retry h)"

partial_function (option) throughput_server_loop ::
  "'w bench_os \<Rightarrow> ('s \<times> 'w) comm_iface \<Rightarrow> bool \<Rightarrow> throughput_benchmark \<Rightarrow> 's \<times> 'w \<Rightarrow>
   (bool \<times> throughput_benchmark \<times> 's \<times> 'w) res option" where
  "throughput_server_loop B I more_data b h =
     (if tb_received b < tb_iterations b then
        case throughput_wait I (tb_received b) more_data 0 h of
          None \<Rightarrow> None
        | Some (gave_up, h) \<Rightarrow>
            if gave_up then Some (Inr (True, b, h))
            else
              (case c_read I h of
                 None \<Rightarrow> None
               | Some (Inl f) \<Rightarrow> Some (Inl f)
               | Some (Inr (Inl e, h)) \<Rightarrow>
                   if e = NO_DATA_AVAILABLE then throughput_server_loop B I False b h
                   else Some (Inr (False, b, h))
               | Some (Inr (Inr (header, obj), s, w)) \<Rightarrow>
                   let b = (if tb_received b = 1
                            then b\<lparr>tb_start_time := h_timestamp header\<rparr> else b);
                       (ts, w) = get_timestamp B w;
                       b = b\<lparr>tb_end_time := ts, tb_received := tb_received b + 1\<rparr> in
                   throughput_server_loop B I True b (s, w))
      else Some (Inr (True, b, h)))"

definition throughput_run_server ::
  "'w bench_os \<Rightarrow> ('s \<times> 'w) comm_iface \<Rightarrow> throughput_benchmark \<Rightarrow> 's \<times> 'w \<Rightarrow>
   (bool \<times> throughput_benchmark \<times> 's \<times> 'w) res option" where
  "throughput_run_server B I b h = throughput_server_loop B I False b h"

section \<open>The client\<close>

text \<open>
  The dummy data.  The amount is computed in \<open>size_t\<close> and the counter is an \<open>unsigned int\<close>, so for
  a size below four the amount is close to the largest \<open>size_t\<close> and the counter never reaches it.
\<close>

definition payload_amount :: "u32 \<Rightarrow> u64" where
  "payload_amount sz = ucast sz - 4"

partial_function (option) dummy_data ::
  "'w bench_os \<Rightarrow> u64 \<Rightarrow> u32 \<Rightarrow> byte list \<Rightarrow> 'w \<Rightarrow> (byte list \<times> 'w) option" where
  "dummy_data B amount i bs w =
     (if ucast i < amount then
        let (r, w) = os_rand B w in dummy_data B amount (i + 1) (bs @ [word_of_int r]) w
      else Some (bs, w))"

partial_function (option) throughput_client_loop ::
  "('s \<times> 'w) comm_iface \<Rightarrow> data_object \<Rightarrow> u32 \<Rightarrow> throughput_benchmark \<Rightarrow> 's \<times> 'w \<Rightarrow>
   (bool \<times> 's \<times> 'w) res option" where
  "throughput_client_loop I data i b h =
     (if i \<le> tb_iterations b then
        case c_write I data h of
          Inl f \<Rightarrow> Some (Inl f)
        | Inr (result, h) \<Rightarrow>
            if \<not> result then Some (Inr (False, h))
            else throughput_client_loop I data (i + 1) b h
      else Some (Inr (True, h)))"

definition throughput_run_client ::
  "'w bench_os \<Rightarrow> ('s \<times> 'w) comm_iface \<Rightarrow> throughput_benchmark \<Rightarrow> 's \<times> 'w \<Rightarrow>
   (bool \<times> 's \<times> 'w) res option" where
  "throughput_run_client B I b = (\<lambda>(s, w).
     case dummy_data B (payload_amount (tb_size b)) 0 [] w of
       None \<Rightarrow> None
     | Some (bs, w) \<Rightarrow> throughput_client_loop I (BinaryData \<lparr>bd_data = bs\<rparr>) 1 b (s, w))"

definition throughput_run ::
  "'w bench_os \<Rightarrow> ('s \<times> 'w) comm_iface \<Rightarrow> throughput_benchmark \<Rightarrow> 's \<times> 'w \<Rightarrow>
   (bool \<times> throughput_benchmark \<times> 's \<times> 'w) res option" where
  "throughput_run B I b h =
     (if tb_server b then throughput_run_server B I b h
      else map_option (\<lambda>res. and_then res (\<lambda>(ok, h). Inr (ok, b, h))) (throughput_run_client B I b h))"

subsection \<open>The dummy data\<close>

lemma payload_amount_enough:
  assumes "4 \<le> sz"
  shows "unat (payload_amount sz) = unat sz - 4"
proof -
  have "(4 :: u64) \<le> ucast sz"
    using assms by (simp add: word_le_nat_alt)
  then show ?thesis
    by (simp add: payload_amount_def unat_sub)
qed

lemma payload_amount_wraps:
  assumes "sz < 4"
  shows "2 ^ 32 \<le> unat (payload_amount sz)"
proof -
  have "unat sz < 4"
    using assms by (simp add: word_less_nat_alt)
  then show ?thesis
    by (simp add: payload_amount_def unat_sub_if_size word_size)
qed

lemma dummy_data_length:
  assumes "unat i + n = unat amount" and "unat amount < 2 ^ 32"
  shows "\<exists>bs' w'. dummy_data B amount i bs w = Some (bs', w') \<and> length bs' = length bs + n"
  using assms(1)
proof (induction n arbitrary: i bs w)
  case 0
  then have "\<not> ucast i < amount"
    by (simp add: word_less_nat_alt)
  then show ?case
    by (subst dummy_data.simps) simp
next
  case (Suc n)
  then have less: "ucast i < amount"
    by (simp add: word_less_nat_alt)
  have "unat i + 1 < 2 ^ 32"
    using Suc.prems assms(2) by linarith
  then have "unat (i + 1) + n = unat amount"
    using Suc.prems by (simp add: unat_word_ariths)
  from Suc.IH [OF this] less show ?case
    by (subst dummy_data.simps) (fastforce simp: Let_def split: prod.split)
qed

lemma dummy_data_diverges:
  assumes "2 ^ 32 \<le> unat amount"
  shows "dummy_data B amount i bs w = None"
proof -
  have "False" if "dummy_data B amount i bs w = Some r" for r
  proof (rule dummy_data.raw_induct
      [where P = "\<lambda>B amount i bs w r. 2 ^ 32 \<le> unat amount \<longrightarrow> False",
       OF _ that, rule_format, OF _ assms], goal_cases)
    case (1 loop B amount i bs w r)
    have "unat i < 2 ^ 32"
      using unat_u32_less [of i] by simp
    then have "unat i < unat amount"
      using 1(3) by (rule less_le_trans)
    then have "ucast i < amount"
      by (simp add: word_less_nat_alt)
    moreover obtain x w1 where "os_rand B w = (x, w1)" by fastforce
    ultimately have "loop B amount (i + 1) (bs @ [word_of_int x]) w1 = Some r"
      using 1(2) by simp
    from 1(1) [OF this] 1(3) show False by simp
  qed
  then show ?thesis
    by (cases "dummy_data B amount i bs w") auto
qed

subsection \<open>The client's run\<close>

context bench_handler
begin

lemma throughput_client_loop_returns:
  assumes "invar h" and "tb_iterations b \<noteq> - 1"
  shows "\<exists>ok h'. throughput_client_loop I data i b h = Some (Inr (ok, h')) \<and> invar h' \<and>
    (ok \<longrightarrow> last_seq h' = last_seq h + of_nat (rounds i (tb_iterations b)) \<and>
      (0 < rounds i (tb_iterations b) \<longrightarrow> length (object_bytes data) \<le> capacity))"
  using assms(1)
proof (induction "rounds i (tb_iterations b)" arbitrary: i h)
  case 0
  then have "\<not> i \<le> tb_iterations b"
    using rounds_step(1) [OF _ assms(2)] by fastforce
  with 0 show ?case
    by (intro exI [of _ True]) (subst throughput_client_loop.simps, simp)
next
  case (Suc n)
  then have le: "i \<le> tb_iterations b"
    using rounds_end by fastforce
  have n: "n = rounds (i + 1) (tb_iterations b)"
    using Suc.hyps(2) rounds_step(1) [OF le assms(2)] by simp
  from write_law [OF Suc.prems, of data] obtain ok h1
    where written: "c_write I data h = Inr (ok, h1)" and h1: "invar h1"
      and seq1: "ok \<longrightarrow> length (object_bytes data) \<le> capacity \<and> last_seq h1 = last_seq h + 1"
    by metis
  show ?case
  proof (cases ok)
    case False
    with written le h1 show ?thesis
      by (intro exI [of _ False]) (subst throughput_client_loop.simps, simp)
  next
    case True
    from Suc.hyps(1) [OF n h1] obtain ok' h'
      where "throughput_client_loop I data (i + 1) b h1 = Some (Inr (ok', h'))" "invar h'"
        "ok' \<longrightarrow> last_seq h' = last_seq h1 + of_nat (rounds (i + 1) (tb_iterations b))"
      by blast
    with True written le seq1 rounds_step(1) [OF le assms(2)] show ?thesis
      by (subst throughput_client_loop.simps) (simp add: add.assoc)
  qed
qed

text \<open>
  From a size of four on, the client returns, and if it is successful its objects were of the asked
  size, which then fits the handler.
\<close>

lemma throughput_client_returns:
  assumes "invar (s, w)" and "4 \<le> tb_size b" and "tb_iterations b \<noteq> - 1"
  shows "\<exists>bs w1 ok h'. dummy_data B (payload_amount (tb_size b)) 0 [] w = Some (bs, w1) \<and>
    length (object_bytes (BinaryData \<lparr>bd_data = bs\<rparr>)) = unat (tb_size b) \<and>
    throughput_run_client B I b (s, w) = Some (Inr (ok, h')) \<and> invar h' \<and>
    (ok \<longrightarrow> last_seq h' = last_seq (s, w) + tb_iterations b \<and>
      (0 < tb_iterations b \<longrightarrow> unat (tb_size b) \<le> capacity))"
proof -
  have amount: "unat (0 :: u32) + (unat (tb_size b) - 4) = unat (payload_amount (tb_size b))"
    and small: "unat (payload_amount (tb_size b)) < 2 ^ 32"
    using payload_amount_enough [OF assms(2)] unat_u32_less [of "tb_size b"] by simp_all
  from dummy_data_length [OF amount small, of B "[]" w] obtain bs w1
    where data: "dummy_data B (payload_amount (tb_size b)) 0 [] w = Some (bs, w1)"
      and len: "length bs = unat (tb_size b) - 4"
    by auto
  have "4 \<le> unat (tb_size b)"
    using assms(2) by (simp add: word_le_nat_alt)
  then have size: "length (object_bytes (BinaryData \<lparr>bd_data = bs\<rparr>)) = unat (tb_size b)"
    using len by simp
  from throughput_client_loop_returns [OF invar_world [OF assms(1), of w1] assms(3),
      of "BinaryData \<lparr>bd_data = bs\<rparr>" 1] obtain ok h'
    where "throughput_client_loop I (BinaryData \<lparr>bd_data = bs\<rparr>) 1 b (s, w1) = Some (Inr (ok, h'))"
      and "invar h'" and "ok \<longrightarrow> last_seq h' = last_seq (s, w1) + tb_iterations b \<and>
        (0 < unat (tb_iterations b) \<longrightarrow> unat (tb_size b) \<le> capacity)"
    unfolding size by (auto simp: rounds_start)
  with data size seq_world [of s w1 w] show ?thesis
    by (simp add: throughput_run_client_def word_gt_0 unat_gt_0)
qed

end

section \<open>The server's run\<close>

text \<open>Once a message has been received, the server waits at most three times for the next one.\<close>

lemma throughput_wait_returns:
  assumes "0 < received" and "0 \<le> retry"
  shows "\<exists>gave_up h'. throughput_wait I received more_data retry h = Some (gave_up, h')"
proof (induction "nat (2 - retry)" arbitrary: more_data retry h rule: less_induct)
  case less
  obtain ready h1 where await: "c_await_data I h = (ready, h1)" by fastforce
  show ?case
  proof (cases "more_data \<or> ready \<or> max_retries < retry + 1")
    case True
    with await assms(1) show ?thesis
      by (subst throughput_wait.simps) auto
  next
    case False
    then have "nat (2 - (retry + 1)) < nat (2 - retry)"
      by simp
    from less [OF this, of False h1] False await show ?thesis
      by (subst throughput_wait.simps) auto
  qed
qed

text \<open>
  The start time after \<open>ms\<close> have been taken, \<open>received\<close> messages and the start time \<open>start\<close> before:
  it is the time stamp of the second message of the run.
\<close>

definition start_time_after :: "nat \<Rightarrow> u64 \<Rightarrow> (data_header \<times> data_object) list \<Rightarrow> u64" where
  "start_time_after received start ms =
     (if received \<le> 1 \<and> 1 < received + length ms then h_timestamp (fst (ms ! (1 - received))) else start)"

lemma start_time_after_simps [simp]:
  "start_time_after received start [] = start"
  "start_time_after received start (m # ms) =
     start_time_after (Suc received) (if received = 1 then h_timestamp (fst m) else start) ms"
  by (auto simp: start_time_after_def not_le le_Suc_eq)

text \<open>
  A run of the server whose last message is the first of \<open>ms\<close>, its number \<open>n\<close> counting from zero: the run
  comes to the read that returns it, and \<open>ts\<close> is the clock directly behind that read.
\<close>

definition ends_behind ::
  "'w bench_os \<Rightarrow> ('s \<times> 'w) comm_iface \<Rightarrow> ('s \<times> 'w \<Rightarrow> (data_header \<times> data_object) list \<Rightarrow> bool) \<Rightarrow>
   (bool \<times> throughput_benchmark \<times> 's \<times> 'w) res option \<Rightarrow> u32 \<Rightarrow> (data_header \<times> data_object) list \<Rightarrow>
   u64 \<Rightarrow> bool" where
  "ends_behind B I holds run n ms ts \<longleftrightarrow>
     (\<exists>b h s w w'. run = throughput_server_loop B I True b h \<and> tb_received b = n \<and> holds h ms \<and>
        c_read I h = Some (Inr (Inr (hd ms), s, w)) \<and> get_timestamp B w = (ts, w'))"

context message_source
begin

text \<open>
  Waiting for a message that is on its way: the server gives up only if it has received one before and
  the message is late.
\<close>

lemma throughput_wait_some:
  assumes "holds h (m # ms)"
  shows "\<exists>gave_up h'. throughput_wait I received more_data retry h = Some (gave_up, h') \<and>
    holds h' (m # ms) \<and>
    (if gave_up then 0 < received \<and> \<not> prompt I holds else effort True h' \<le> effort more_data h)"
proof (cases more_data)
  case True
  with assms show ?thesis
    by (subst throughput_wait.simps) auto
next
  case False
  then have waits: "more_data = False" by simp
  from assms have "\<exists>gave_up h'. throughput_wait I received False retry h = Some (gave_up, h') \<and>
    holds h' (m # ms) \<and>
    (if gave_up then 0 < received \<and> \<not> prompt I holds else effort True h' \<le> effort False h)"
  proof (induction "effort False h" arbitrary: h retry rule: less_induct)
    case less
    from await_holds [OF less.prems] obtain ready h1 where
      await: "c_await_data I h = (ready, h1)" and h1: "holds h1 (m # ms)"
        "if ready then effort True h1 \<le> effort False h else effort False h1 < effort False h"
      by blast
    show ?case
    proof (cases ready)
      case True
      with await h1 show ?thesis
        by (subst throughput_wait.simps) auto
    next
      case False
      have late: "\<not> prompt I holds"
        using less.prems await False unfolding prompt_def by (metis fst_conv)
      show ?thesis
      proof (cases "0 < received \<and> max_retries < retry + 1")
        case True
        with await False h1(1) late show ?thesis
          by (subst throughput_wait.simps) auto
      next
        case again: False
        have "effort False h1 < effort False h"
          using h1(2) False by simp
        from less.hyps [OF this h1(1), of "retry + 1"] obtain gave_up h' where
          "throughput_wait I received False (retry + 1) h1 = Some (gave_up, h')" "holds h' (m # ms)"
          "if gave_up then 0 < received \<and> \<not> prompt I holds else effort True h' \<le> effort False h1" by blast
        moreover have "throughput_wait I received False retry h =
            throughput_wait I received False (retry + 1) h1"
          using again await False by (subst throughput_wait.simps) auto
        ultimately show ?thesis
          using \<open>effort False h1 < effort False h\<close>
          by (intro exI [of _ gave_up] exI [of _ h']) (auto split: if_splits)
      qed
    qed
  qed
  then show ?thesis unfolding waits .
qed

text \<open>
  With nothing left, waiting ends with giving up, or with something that the following read discards.
\<close>

lemma throughput_wait_idle:
  assumes "holds h []" and "0 < received" and "0 \<le> retry"
  shows "\<exists>gave_up h'. throughput_wait I received False retry h = Some (gave_up, h') \<and> holds h' [] \<and>
    (\<not> gave_up \<longrightarrow> (\<exists>h''. c_read I h' = Some (Inr (Inl NO_DATA_AVAILABLE, h'')) \<and> holds h'' [] \<and>
      effort False h'' < effort False h))"
  using assms(1,3)
proof (induction "nat (2 - retry)" arbitrary: retry h rule: less_induct)
  case less
  from await_idle [OF less.prems(1)] obtain ready h1
    where await: "c_await_data I h = (ready, h1)" and h1: "holds h1 []"
      and next_read: "if ready then \<exists>h''. c_read I h1 = Some (Inr (Inl NO_DATA_AVAILABLE, h'')) \<and>
         holds h'' [] \<and> effort False h'' < effort False h
       else effort False h1 \<le> effort False h"
    by blast
  show ?case
  proof (cases "ready \<or> max_retries < retry + 1")
    case True
    with await assms(2) have "throughput_wait I received False retry h = Some (\<not> ready, h1)"
      by (subst throughput_wait.simps) auto
    with h1 next_read show ?thesis by (cases ready) auto
  next
    case False
    then have "nat (2 - (retry + 1)) < nat (2 - retry)"
      by simp
    from less.hyps [OF this h1] less.prems(2) obtain gave_up h' where
      "throughput_wait I received False (retry + 1) h1 = Some (gave_up, h')" "holds h' []"
      "\<not> gave_up \<longrightarrow> (\<exists>h''. c_read I h' = Some (Inr (Inl NO_DATA_AVAILABLE, h'')) \<and> holds h'' [] \<and>
        effort False h'' < effort False h1)"
      by auto
    moreover have "throughput_wait I received False retry h = throughput_wait I received False (retry + 1) h1"
      using False await assms(2) by (subst throughput_wait.simps) simp
    moreover have "effort False h1 \<le> effort False h"
      using False next_read by simp
    ultimately show ?thesis
      by (intro exI [of _ gave_up] exI [of _ h']) (auto dest: less_le_trans)
  qed
qed

lemma throughput_server_loop_idle:
  assumes "holds h []" and "0 < tb_received b"
  shows "\<exists>h'. throughput_server_loop B I more_data b h = Some (Inr (True, b, h')) \<and> holds h' []"
proof -
  have waiting: "\<exists>h'. throughput_server_loop B I False b h = Some (Inr (True, b, h')) \<and> holds h' []"
    if "holds h []" for h
    using that
  proof (induction "effort False h" arbitrary: h rule: less_induct)
    case less
    from throughput_wait_idle [OF less.prems assms(2), of 0] obtain gave_up h1 where
      "throughput_wait I (tb_received b) False 0 h = Some (gave_up, h1)" "holds h1 []"
      "\<not> gave_up \<longrightarrow> (\<exists>h2. c_read I h1 = Some (Inr (Inl NO_DATA_AVAILABLE, h2)) \<and> holds h2 [] \<and>
        effort False h2 < effort False h)"
      by auto
    with less show ?case
      by (cases h, cases h1, subst throughput_server_loop.simps) auto
  qed
  show ?thesis
  proof (cases "more_data \<and> tb_received b < tb_iterations b")
    case True
    from read_idle [OF assms(1)] obtain h1
      where read: "c_read I h = Some (Inr (Inl NO_DATA_AVAILABLE, h1))" and "holds h1 []"
      by blast
    moreover have "throughput_wait I (tb_received b) True 0 h = Some (False, h)"
      by (subst throughput_wait.simps) simp
    ultimately show ?thesis
      using True waiting [of h1] by (subst throughput_server_loop.simps) simp
  next
    case False
    show ?thesis
    proof (cases "tb_received b < tb_iterations b")
      case True
      with False waiting [OF assms(1)] show ?thesis by simp
    next
      case False
      with assms(1) show ?thesis
        by (cases h, subst throughput_server_loop.simps) simp
    qed
  qed
qed

text \<open>
  As long as iterations are left, the server takes the first messages, all of them if none is late.  The
  end time is the clock directly behind the read of the last one that it took.
\<close>

lemma throughput_server_loop_counts:
  assumes "holds h ms" and "0 < tb_received b \<or> ms \<noteq> []"
    and "unat (tb_received b) + length ms \<le> unat (tb_iterations b)"
  shows "\<exists>k b' h'. throughput_server_loop B I more_data b h = Some (Inr (True, b', h')) \<and>
    k \<le> length ms \<and> (0 < tb_received b \<or> 0 < k) \<and> (prompt I holds \<longrightarrow> k = length ms) \<and>
    holds h' (drop k ms) \<and> tb_received b' = tb_received b + of_nat k \<and>
    tb_iterations b' = tb_iterations b \<and> tb_size b' = tb_size b \<and>
    tb_start_time b' = start_time_after (unat (tb_received b)) (tb_start_time b) (take k ms) \<and>
    (if k = 0 then tb_end_time b' = tb_end_time b
     else ends_behind B I holds (throughput_server_loop B I more_data b h)
       (tb_received b + of_nat (k - 1)) (drop (k - 1) ms) (tb_end_time b'))"
  using assms
proof (induction "(length ms, effort more_data h)" arbitrary: more_data b h ms
    rule: wf_induct_rule [OF wf_lex_prod [OF wf_less_than wf_less_than], case_names step])
  case step
  show ?case
  proof (cases ms)
    case Nil
    with throughput_server_loop_idle [of h b more_data] step.prems(1,2) show ?thesis
      by (intro exI [of _ 0]) auto
  next
    case (Cons m ms')
    with step.prems have less: "tb_received b < tb_iterations b"
      by (simp add: word_less_nat_alt)
    from throughput_wait_some [of h m ms' "tb_received b" more_data 0] step.prems(1) Cons obtain gave_up h1
      where wait: "throughput_wait I (tb_received b) more_data 0 h = Some (gave_up, h1)"
        and h1: "holds h1 (m # ms')" "if gave_up then 0 < tb_received b \<and> \<not> prompt I holds
          else effort True h1 \<le> effort more_data h"
      by blast
    show ?thesis
    proof (cases gave_up)
      case True
      with less wait have "throughput_server_loop B I more_data b h = Some (Inr (True, b, h1))"
        by (cases h1, subst throughput_server_loop.simps) simp
      with True h1 Cons show ?thesis
        by (intro exI [of _ 0] exI [of _ b] exI [of _ h1]) simp
    next
      case waited: False
      with h1(2) have le: "effort True h1 \<le> effort more_data h" by simp
      from read_holds [OF h1(1)] obtain x s2 w2 where read: "c_read I h1 = Some (Inr (x, s2, w2))"
        and x: "x = Inr m \<and> holds (s2, w2) ms' \<or>
          x = Inl NO_DATA_AVAILABLE \<and> holds (s2, w2) (m # ms') \<and> effort False (s2, w2) < effort True h1"
        by (metis surj_pair)
      from x show ?thesis
      proof (elim disjE conjE)
        assume none: "x = Inl NO_DATA_AVAILABLE" and h2: "holds (s2, w2) (m # ms')"
          and smaller: "effort False (s2, w2) < effort True h1"
        have again: "throughput_server_loop B I more_data b h = throughput_server_loop B I False b (s2, w2)"
          using less wait waited read none by (subst throughput_server_loop.simps) simp
        have "((length ms, effort False (s2, w2)), length ms, effort more_data h)
            \<in> less_than <*lex*> less_than"
          using smaller le by simp
        from step.hyps [OF this h2 [folded Cons] step.prems(2,3)] show ?thesis
          unfolding again .
      next
        assume some: "x = Inr m" and h2: "holds (s2, w2) ms'"
        obtain header obj where m: "m = (header, obj)" by (cases m)
        obtain ts w3 where clock: "get_timestamp B w2 = (ts, w3)" by fastforce
        then have h3: "holds (s2, w3) ms'"
          using clock_holds [OF h2] by (simp add: get_timestamp_def)
        define b1 where "b1 = (if tb_received b = 1
          then b\<lparr>tb_start_time := h_timestamp header\<rparr> else b)\<lparr>tb_end_time := ts,
            tb_received := tb_received b + 1\<rparr>"
        have one: "unat (tb_received b) = Suc 0 \<longleftrightarrow> tb_received b = 1"
          by (simp add: word_unat_eq_iff)
        have b1: "tb_received b1 = tb_received b + 1" "tb_iterations b1 = tb_iterations b"
            "tb_size b1 = tb_size b" "tb_start_time b1 =
              (if unat (tb_received b) = 1 then h_timestamp (fst m) else tb_start_time b)"
          by (simp_all add: b1_def m one)
        have loop: "throughput_server_loop B I more_data b h = throughput_server_loop B I True b1 (s2, w3)"
          using less wait waited read some m clock
          by (subst throughput_server_loop.simps) (simp add: b1_def)
        have "unat (tb_received b) + 1 < 2 ^ 32"
          using step.prems(3) Cons unat_u32_less [of "tb_iterations b"] by simp
        then have next_received: "unat (tb_received b1) = unat (tb_received b) + 1"
          by (simp add: b1 unat_word_ariths)
        then have positive: "0 < tb_received b1"
          by (simp add: word_less_nat_alt)
        have "((length ms', effort True (s2, w3)), length ms, effort more_data h)
            \<in> less_than <*lex*> less_than"
          by (simp add: Cons)
        moreover have "unat (tb_received b1) + length ms' \<le> unat (tb_iterations b1)"
          using step.prems(3) by (simp add: Cons next_received b1(2))
        ultimately obtain k b' h'
          where "throughput_server_loop B I True b1 (s2, w3) = Some (Inr (True, b', h'))"
            "k \<le> length ms'" "prompt I holds \<longrightarrow> k = length ms'" "holds h' (drop k ms')"
            "tb_received b' = tb_received b1 + of_nat k" "tb_iterations b' = tb_iterations b1"
            "tb_size b' = tb_size b1"
            "tb_start_time b' = start_time_after (unat (tb_received b1)) (tb_start_time b1) (take k ms')"
          and at_end: "if k = 0 then tb_end_time b' = tb_end_time b1
            else ends_behind B I holds (throughput_server_loop B I True b1 (s2, w3))
              (tb_received b1 + of_nat (k - 1)) (drop (k - 1) ms') (tb_end_time b')"
          using step.hyps [OF _ h3 disjI1 [OF positive]] by blast
        have "ends_behind B I holds (throughput_server_loop B I more_data b h)
            (tb_received b + of_nat k) (drop k ms) (tb_end_time b')"
        proof (cases k)
          case 0
          have "throughput_server_loop B I more_data b h = throughput_server_loop B I True b h1"
            unfolding throughput_server_loop.simps [of B I more_data b h]
              throughput_server_loop.simps [of B I True b h1]
            using less wait waited by (simp add: throughput_wait.simps [of I _ True])
          with 0 at_end h1(1) read some clock show ?thesis
            unfolding ends_behind_def
            by (intro exI [of _ b] exI [of _ h1] exI [of _ s2] exI [of _ w2] exI [of _ w3])
              (simp add: Cons b1_def)
        next
          case (Suc j)
          with at_end show ?thesis
            by (simp add: loop b1(1) Cons add.assoc)
        qed
        with \<open>throughput_server_loop B I True b1 (s2, w3) = Some (Inr (True, b', h'))\<close>
          \<open>k \<le> length ms'\<close> \<open>prompt I holds \<longrightarrow> k = length ms'\<close> \<open>holds h' (drop k ms')\<close>
          \<open>tb_received b' = tb_received b1 + of_nat k\<close> \<open>tb_iterations b' = tb_iterations b1\<close>
          \<open>tb_size b' = tb_size b1\<close>
          \<open>tb_start_time b' = start_time_after (unat (tb_received b1)) (tb_start_time b1) (take k ms')\<close>
        show ?thesis
          by (intro exI [of _ "Suc k"] exI [of _ b'] exI [of _ h'])
            (simp add: loop Cons b1 next_received [unfolded b1(1)] add.assoc)
      qed
    qed
  qed
qed

text \<open>
  The run of the server counts the messages that arrive in time: at least one, and all of them if none
  is late; and it takes the end time directly behind the last of them.
\<close>

lemma throughput_server_counts_arrivals:
  assumes "holds h ms" and "ms \<noteq> []" and "tb_received b = 0" and "length ms \<le> unat (tb_iterations b)"
  shows "\<exists>k b' h'. throughput_run_server B I b h = Some (Inr (True, b', h')) \<and>
    0 < k \<and> k \<le> length ms \<and> (prompt I holds \<longrightarrow> k = length ms) \<and> holds h' (drop k ms) \<and>
    unat (tb_received b') = k \<and> unat (tb_iterations b' - tb_received b') = unat (tb_iterations b) - k \<and>
    tb_size b' = tb_size b \<and> tb_start_time b' = start_time_after 0 (tb_start_time b) (take k ms) \<and>
    (\<exists>b1 h1 s1 w1 w2. throughput_run_server B I b h = throughput_server_loop B I True b1 h1 \<and>
       unat (tb_received b1) = k - 1 \<and> holds h1 (drop (k - 1) ms) \<and>
       c_read I h1 = Some (Inr (Inr (ms ! (k - 1)), s1, w1)) \<and> get_timestamp B w1 = (tb_end_time b', w2))"
proof -
  have "0 < tb_received b \<or> ms \<noteq> []" and "unat (tb_received b) + length ms \<le> unat (tb_iterations b)"
    using assms(2-4) by simp_all
  from throughput_server_loop_counts [OF assms(1) this, of False] obtain k b' h' where
    loop: "throughput_server_loop B I False b h = Some (Inr (True, b', h'))"
    and k: "k \<le> length ms" "0 < tb_received b \<or> 0 < k" "prompt I holds \<longrightarrow> k = length ms"
      "holds h' (drop k ms)"
    and b': "tb_received b' = tb_received b + of_nat k" "tb_iterations b' = tb_iterations b"
      "tb_size b' = tb_size b"
      "tb_start_time b' = start_time_after (unat (tb_received b)) (tb_start_time b) (take k ms)"
    and at_end: "if k = 0 then tb_end_time b' = tb_end_time b
      else ends_behind B I holds (throughput_server_loop B I False b h)
        (tb_received b + of_nat (k - 1)) (drop (k - 1) ms) (tb_end_time b')"
    by blast
  have small: "unat (of_nat j :: u32) = j" if "j \<le> k" for j
    using that k(1) assms(4) unat_u32_less [of "tb_iterations b"]
    by (simp add: unat_of_nat take_bit_nat_eq_self)
  have "0 < k"
    using k(2) assms(3) by simp
  with at_end obtain b1 h1 s1 w1 w2 where last_read: "throughput_server_loop B I False b h =
      throughput_server_loop B I True b1 h1" "tb_received b1 = of_nat (k - 1)" "holds h1 (drop (k - 1) ms)"
      "c_read I h1 = Some (Inr (Inr (hd (drop (k - 1) ms)), s1, w1))" "get_timestamp B w1 = (tb_end_time b', w2)"
    using assms(3) by (auto simp: ends_behind_def)
  have "hd (drop (k - 1) ms) = ms ! (k - 1)"
    using \<open>0 < k\<close> k(1) by (intro hd_drop_conv_nth) simp
  note last_read = last_read [unfolded this]
  have "unat (tb_received b1) = k - 1"
    unfolding last_read(2) by (rule small) simp
  with last_read have ending: "\<exists>b1 h1 s1 w1 w2. throughput_run_server B I b h =
      throughput_server_loop B I True b1 h1 \<and> unat (tb_received b1) = k - 1 \<and> holds h1 (drop (k - 1) ms) \<and>
      c_read I h1 = Some (Inr (Inr (ms ! (k - 1)), s1, w1)) \<and> get_timestamp B w1 = (tb_end_time b', w2)"
    unfolding throughput_run_server_def by blast
  note len = small [OF order_refl]
  moreover have "(of_nat k :: u32) \<le> tb_iterations b"
    using k(1) assms(4) by (simp add: word_le_nat_alt len)
  then have "unat (tb_iterations b - of_nat k) = unat (tb_iterations b) - k"
    by (simp add: unat_sub len)
  ultimately show ?thesis
    using loop k b' assms(3) ending
    by (intro exI [of _ k] exI [of _ b'] exI [of _ h']) (simp add: throughput_run_server_def)
qed

end

end
