(* ===== verification/Execution_Benchmark.thy ===== *)
theory Execution_Benchmark
  imports Throughput_Benchmark
begin

text \<open>
  The execution time benchmark (include/benchmark/execution.hpp, src/benchmark/execution.cpp): both
  sides record how long each call of \<open>write\<close> or successful call of \<open>read\<close> takes.  The dummy data is
  made exactly as in the throughput benchmark, so \<open>dummy_data\<close> is shared with it.
\<close>

record execution_benchmark =
  eb_iterations :: u32
  eb_size :: u32
  eb_delay :: u32
  eb_server :: bool
  eb_times :: "u32 list"

definition execution_new :: "u32 \<Rightarrow> u32 \<Rightarrow> u32 \<Rightarrow> bool \<Rightarrow> execution_benchmark" where
  "execution_new iterations sz delay server =
     \<lparr>eb_iterations = iterations, eb_size = sz, eb_delay = delay, eb_server = server, eb_times = []\<rparr>"

definition execution_setup :: "'h comm_iface \<Rightarrow> 'h \<Rightarrow> bool \<times> 'h" where
  "execution_setup I h = c_open I h"

definition execution_cleanup :: "'h comm_iface \<Rightarrow> 'h \<Rightarrow> 'h" where
  "execution_cleanup I h = snd (c_close I h)"

partial_function (option) execution_server_loop ::
  "'w bench_os \<Rightarrow> ('s \<times> 'w) comm_iface \<Rightarrow> bool \<Rightarrow> u32 \<Rightarrow> execution_benchmark \<Rightarrow> 's \<times> 'w \<Rightarrow>
   (bool \<times> execution_benchmark \<times> 's \<times> 'w) res option" where
  "execution_server_loop B I more_data i b h =
     (if i \<le> eb_iterations b then
        case await_loop I more_data h of
          None \<Rightarrow> None
        | Some (s, w) \<Rightarrow>
            let (before, w) = get_timestamp B w in
            (case c_read I (s, w) of
               None \<Rightarrow> None
             | Some (Inl f) \<Rightarrow> Some (Inl f)
             | Some (Inr (result, s, w)) \<Rightarrow>
                 let (after, w) = get_timestamp B w in
                 (case result of
                    Inl e \<Rightarrow>
                      if e = NO_DATA_AVAILABLE then execution_server_loop B I False i b (s, w)
                      else Some (Inr (False, b, s, w))
                  | Inr _ \<Rightarrow>
                      execution_server_loop B I True (i + 1)
                        (b\<lparr>eb_times := eb_times b @ [ucast (after - before)]\<rparr>) (s, w)))
      else Some (Inr (True, b, h)))"

definition execution_run_server ::
  "'w bench_os \<Rightarrow> ('s \<times> 'w) comm_iface \<Rightarrow> execution_benchmark \<Rightarrow> 's \<times> 'w \<Rightarrow>
   (bool \<times> execution_benchmark \<times> 's \<times> 'w) res option" where
  "execution_run_server B I b h = execution_server_loop B I False 1 b h"

text \<open>The time of a write is recorded even if the write failed and ends the benchmark.\<close>

partial_function (option) execution_client_loop ::
  "'w bench_os \<Rightarrow> ('s \<times> 'w) comm_iface \<Rightarrow> data_object \<Rightarrow> u32 \<Rightarrow> execution_benchmark \<Rightarrow> 's \<times> 'w \<Rightarrow>
   (bool \<times> execution_benchmark \<times> 's \<times> 'w) res option" where
  "execution_client_loop B I data i b h =
     (if i \<le> eb_iterations b then
        let (s, w) = h; (before, w) = get_timestamp B w in
        case c_write I data (s, w) of
          Inl f \<Rightarrow> Some (Inl f)
        | Inr (result, s, w) \<Rightarrow>
            let (after, w) = get_timestamp B w;
                b = b\<lparr>eb_times := eb_times b @ [ucast (after - before)]\<rparr> in
            if \<not> result then Some (Inr (False, b, s, w))
            else execution_client_loop B I data (i + 1) b (s, os_sleep_for B (eb_delay b) w)
      else Some (Inr (True, b, h)))"

definition execution_run_client ::
  "'w bench_os \<Rightarrow> ('s \<times> 'w) comm_iface \<Rightarrow> execution_benchmark \<Rightarrow> 's \<times> 'w \<Rightarrow>
   (bool \<times> execution_benchmark \<times> 's \<times> 'w) res option" where
  "execution_run_client B I b = (\<lambda>(s, w).
     case dummy_data B (payload_amount (eb_size b)) 0 [] w of
       None \<Rightarrow> None
     | Some (bs, w) \<Rightarrow> execution_client_loop B I (BinaryData \<lparr>bd_data = bs\<rparr>) 1 b (s, w))"

definition execution_run ::
  "'w bench_os \<Rightarrow> ('s \<times> 'w) comm_iface \<Rightarrow> execution_benchmark \<Rightarrow> 's \<times> 'w \<Rightarrow>
   (bool \<times> execution_benchmark \<times> 's \<times> 'w) res option" where
  "execution_run B I b h =
     (if eb_server b then execution_run_server B I b h else execution_run_client B I b h)"

section \<open>The client\<close>

context bench_handler
begin

text \<open>
  The client returns; a successful run has recorded one time for each iteration, a run that ends
  with a failed write at least one and at most that many.
\<close>

lemma execution_client_loop_returns:
  assumes "invar h" and "eb_iterations b \<noteq> - 1"
  shows "\<exists>ok b' h'. execution_client_loop B I data i b h = Some (Inr (ok, b', h')) \<and> invar h' \<and>
    eb_iterations b' = eb_iterations b \<and>
    length (eb_times b) + (if ok then rounds i (eb_iterations b) else 1) \<le> length (eb_times b') \<and>
    length (eb_times b') \<le> length (eb_times b) + rounds i (eb_iterations b) \<and>
    (ok \<longrightarrow> last_seq h' = last_seq h + of_nat (rounds i (eb_iterations b)))"
  using assms
proof (induction "rounds i (eb_iterations b)" arbitrary: i b h)
  case 0
  then have "\<not> i \<le> eb_iterations b"
    using rounds_step(1) [OF _ 0(3)] by fastforce
  with 0 show ?case
    by (intro exI [of _ True]) (subst execution_client_loop.simps, cases h, simp)
next
  case (Suc n)
  then have le: "i \<le> eb_iterations b"
    using rounds_end by fastforce
  note r = rounds_step(1) [OF le Suc.prems(2)]
  obtain s w where h: "h = (s, w)" by (cases h)
  obtain before w1 where c1: "get_timestamp B w = (before, w1)" by fastforce
  have "invar (s, w1)"
    using Suc.prems(1) invar_world by (auto simp: h)
  from write_law [OF this, of data] obtain ok s2 w2
    where written: "c_write I data (s, w1) = Inr (ok, s2, w2)" and inv2: "invar (s2, w2)"
      and seq2: "ok \<longrightarrow> last_seq (s2, w2) = last_seq h + 1"
    using seq_world [of s w1 w] by (metis h surj_pair)
  obtain after w3 where c2: "get_timestamp B w2 = (after, w3)" by fastforce
  let ?b = "b\<lparr>eb_times := eb_times b @ [ucast (after - before)]\<rparr>"
  show ?case
  proof (cases ok)
    case False
    with written le c1 c2 r invar_world [OF inv2, of w3] show ?thesis
      by (intro exI [of _ False] exI [of _ ?b] exI [of _ "(s2, w3)"])
        (subst execution_client_loop.simps, simp add: h)
  next
    case True
    let ?w4 = "os_sleep_for B (eb_delay ?b) w3"
    have n: "n = rounds (i + 1) (eb_iterations ?b)" and "eb_iterations ?b \<noteq> - 1"
      using Suc.hyps(2) Suc.prems(2) r by simp_all
    from Suc.hyps(1) [OF n invar_world [OF inv2, of ?w4] this(2)] obtain ok' b' h'
      where loop: "execution_client_loop B I data (i + 1) ?b (s2, ?w4) = Some (Inr (ok', b', h'))"
        and keeps: "invar h'" "eb_iterations b' = eb_iterations ?b"
        and lengths: "length (eb_times ?b) + (if ok' then rounds (i + 1) (eb_iterations ?b) else 1)
          \<le> length (eb_times b')"
        "length (eb_times b') \<le> length (eb_times ?b) + rounds (i + 1) (eb_iterations ?b)"
        and seq': "ok' \<longrightarrow> last_seq h' = last_seq (s2, ?w4) + of_nat (rounds (i + 1) (eb_iterations ?b))"
      by blast
    have "execution_client_loop B I data i b h = Some (Inr (ok', b', h'))"
      using True written le c1 c2 loop by (subst execution_client_loop.simps) (simp add: h)
    with keeps lengths seq' seq2 True r seq_world [of s2 ?w4 w2] show ?thesis
      by (intro exI [of _ ok'] exI [of _ b'] exI [of _ h']) (auto simp: add.assoc)
  qed
qed

end

section \<open>The server\<close>

context message_source
begin

lemma execution_server_loop_completes:
  assumes "holds h ms" and "rounds i (eb_iterations b) \<le> length ms" and "eb_iterations b \<noteq> - 1"
  shows "\<exists>b' h'. execution_server_loop B I more_data i b h = Some (Inr (True, b', h')) \<and>
    holds h' (drop (rounds i (eb_iterations b)) ms) \<and>
    length (eb_times b') = length (eb_times b) + rounds i (eb_iterations b)"
  using assms
proof (induction "(rounds i (eb_iterations b), effort more_data h)" arbitrary: more_data i b h ms
    rule: wf_induct_rule [OF wf_lex_prod [OF wf_less_than wf_less_than], case_names step])
  case step
  show ?case
  proof (cases "i \<le> eb_iterations b")
    case False
    with step.prems show ?thesis
      by (subst execution_server_loop.simps, cases h) (simp add: rounds_end)
  next
    case True
    note r = rounds_step(1) [OF True step.prems(3)]
    with step.prems(2) obtain m ms' where ms: "ms = m # ms'" by (cases ms) auto
    from await_loop_ready [of h m ms' more_data] step.prems(1) ms obtain s1 w1
      where await: "await_loop I more_data h = Some (s1, w1)"
        and h1: "holds (s1, w1) (m # ms')" "effort True (s1, w1) \<le> effort more_data h"
      by (metis surj_pair)
    obtain before w2 where c1: "get_timestamp B w1 = (before, w2)" by fastforce
    with clock_holds [OF h1(1), where more_data = True] have h2: "holds (s1, w2) (m # ms')" "effort True (s1, w2) \<le> effort more_data h"
      using h1(2) by (fastforce simp: get_timestamp_def)+
    from read_holds [OF h2(1)] obtain x s3 w3 where read: "c_read I (s1, w2) = Some (Inr (x, s3, w3))"
      and x: "x = Inr m \<and> holds (s3, w3) ms' \<or>
        x = Inl NO_DATA_AVAILABLE \<and> holds (s3, w3) (m # ms') \<and> effort False (s3, w3) < effort True (s1, w2)"
      by (metis surj_pair)
    obtain after w4 where c2: "get_timestamp B w3 = (after, w4)" by fastforce
    from x show ?thesis
    proof (elim disjE conjE)
      assume none: "x = Inl NO_DATA_AVAILABLE" and h3: "holds (s3, w3) (m # ms')"
        and less: "effort False (s3, w3) < effort True (s1, w2)"
      from clock_holds [OF h3, where more_data = False] c2 have h4: "holds (s3, w4) ms" "effort False (s3, w4) \<le> effort False (s3, w3)"
        by (auto simp: get_timestamp_def ms)
      have "((rounds i (eb_iterations b), effort False (s3, w4)), rounds i (eb_iterations b), effort more_data h)
          \<in> less_than <*lex*> less_than"
        using less h2(2) h4(2) by simp
      from step.hyps [OF this h4(1) step.prems(2,3)] True await read none c1 c2
      show ?thesis
        by (subst execution_server_loop.simps) simp
    next
      assume some: "x = Inr m" and h3: "holds (s3, w3) ms'"
      from clock_holds [OF h3] c2 have h4: "holds (s3, w4) ms'"
        by (auto simp: get_timestamp_def)
      let ?b = "b\<lparr>eb_times := eb_times b @ [ucast (after - before)]\<rparr>"
      have "((rounds (i + 1) (eb_iterations ?b), effort True (s3, w4)), rounds i (eb_iterations b), effort more_data h)
          \<in> less_than <*lex*> less_than"
        using r by simp
      moreover have "rounds (i + 1) (eb_iterations ?b) \<le> length ms'" "eb_iterations ?b \<noteq> - 1"
        using r step.prems ms by simp_all
      ultimately obtain b' h'
        where "execution_server_loop B I True (i + 1) ?b (s3, w4) = Some (Inr (True, b', h'))"
          and "holds h' (drop (rounds (i + 1) (eb_iterations ?b)) ms')"
          and "length (eb_times b') = length (eb_times ?b) + rounds (i + 1) (eb_iterations ?b)"
        using step.hyps [OF _ h4] by blast
      with True await read some ms r c1 c2 show ?thesis
        by (subst execution_server_loop.simps, cases h') simp
    qed
  qed
qed

end

end
