(* ===== verification/Realworld_Benchmark.thy ===== *)
theory Realworld_Benchmark
  imports Benchmark_Interface Complex_Main
begin

text \<open>
  The real world benchmark (include/benchmark/realworld.hpp, src/benchmark/realworld.cpp): the client
  replays recorded symbols at their recorded distances and counts the deadlines it misses, the server
  counts the messages that never arrived by the gaps in the sequence numbers.
\<close>

record data_point =
  dp_time :: u64
  dp_symbol :: java_symbol

record realworld_benchmark =
  rb_data :: "data_point list"
  rb_threshold :: u32
  rb_server :: bool
  rb_misses :: u32

definition realworld_new :: "data_point list \<Rightarrow> u32 \<Rightarrow> bool \<Rightarrow> realworld_benchmark" where
  "realworld_new points threshold server =
     \<lparr>rb_data = points, rb_threshold = threshold, rb_server = server, rb_misses = 0\<rparr>"

definition realworld_setup :: "'h comm_iface \<Rightarrow> 'h \<Rightarrow> bool \<times> 'h" where
  "realworld_setup I h = c_open I h"

definition realworld_cleanup :: "'h comm_iface \<Rightarrow> 'h \<Rightarrow> 'h" where
  "realworld_cleanup I h = snd (c_close I h)"

text \<open>
  The estimated time in seconds, exact where the code computes with \<open>double\<close>.  The first and the last
  element of an empty vector do not exist.
\<close>

definition estimated_time :: "realworld_benchmark \<Rightarrow> rat res" where
  "estimated_time b =
     (if rb_data b = [] then Inl Out_Of_Bounds
      else Inr (of_int (sint (dp_time (last (rb_data b)) - dp_time (hd (rb_data b))))
        / 1000 / 1000 / 1000))"

partial_function (option) realworld_server_loop ::
  "('s \<times> 'w) comm_iface \<Rightarrow> bool \<Rightarrow> u32 \<Rightarrow> realworld_benchmark \<Rightarrow> 's \<times> 'w \<Rightarrow>
   (bool \<times> realworld_benchmark \<times> 's \<times> 'w) res option" where
  "realworld_server_loop I more_data i b h =
     (if unat i < length (rb_data b) then
        case await_loop I more_data h of
          None \<Rightarrow> None
        | Some h \<Rightarrow>
            (case c_read I h of
               None \<Rightarrow> None
             | Some (Inl f) \<Rightarrow> Some (Inl f)
             | Some (Inr (Inl e, h)) \<Rightarrow>
                 if e = NO_DATA_AVAILABLE then realworld_server_loop I False i b h
                 else Some (Inr (False, b, h))
             | Some (Inr (Inr (header, obj), h)) \<Rightarrow>
                 realworld_server_loop I True (h_id header)
                   (b\<lparr>rb_misses := rb_misses b + (h_id header - i - 1)\<rparr>) h)
      else Some (Inr (True, b, h)))"

definition realworld_run_server ::
  "('s \<times> 'w) comm_iface \<Rightarrow> realworld_benchmark \<Rightarrow> 's \<times> 'w \<Rightarrow>
   (bool \<times> realworld_benchmark \<times> 's \<times> 'w) res option" where
  "realworld_run_server I b h =
     (case estimated_time b of
        Inl f \<Rightarrow> Some (Inl f)
      | Inr _ \<Rightarrow> realworld_server_loop I False 0 b h)"

text \<open>Times are signed 64-bit numbers; the threshold is scaled in 32 bits.\<close>

partial_function (option) realworld_client_loop ::
  "'w bench_os \<Rightarrow> ('s \<times> 'w) comm_iface \<Rightarrow> u64 \<Rightarrow> u32 \<Rightarrow> u32 \<Rightarrow> realworld_benchmark \<Rightarrow> 's \<times> 'w \<Rightarrow>
   (bool \<times> realworld_benchmark \<times> 's \<times> 'w) res option" where
  "realworld_client_loop B I delta threshold i b h =
     (if unat i < length (rb_data b) then
        let point = rb_data b ! unat i;
            time = dp_time point + delta;
            (s, w) = h;
            (ts, w) = get_timestamp B w;
            now = ts - ucast threshold;
            (b, w) = (if sint time < sint now then (b\<lparr>rb_misses := rb_misses b + 1\<rparr>, w)
                      else (b, os_sleep_until B time w)) in
        (case c_write I (JavaSymbol (dp_symbol point)) (s, w) of
           Inl f \<Rightarrow> Some (Inl f)
         | Inr (result, h) \<Rightarrow>
             if \<not> result then Some (Inr (False, b, h))
             else realworld_client_loop B I delta threshold (i + 1) b h)
      else Some (Inr (True, b, h)))"

definition realworld_run_client ::
  "'w bench_os \<Rightarrow> ('s \<times> 'w) comm_iface \<Rightarrow> realworld_benchmark \<Rightarrow> 's \<times> 'w \<Rightarrow>
   (bool \<times> realworld_benchmark \<times> 's \<times> 'w) res option" where
  "realworld_run_client B I b = (\<lambda>(s, w).
     case estimated_time b of
       Inl f \<Rightarrow> Some (Inl f)
     | Inr _ \<Rightarrow>
         let start_delay = 1000000000;
             (ts, w) = get_timestamp B w;
             delta = ts - dp_time (hd (rb_data b)) + start_delay;
             threshold = rb_threshold b * 1000 in
         realworld_client_loop B I delta threshold 0 b (s, w))"

definition realworld_run ::
  "'w bench_os \<Rightarrow> ('s \<times> 'w) comm_iface \<Rightarrow> realworld_benchmark \<Rightarrow> 's \<times> 'w \<Rightarrow>
   (bool \<times> realworld_benchmark \<times> 's \<times> 'w) res option" where
  "realworld_run B I b h =
     (if rb_server b then realworld_run_server I b h else realworld_run_client B I b h)"

section \<open>The client\<close>

context bench_handler
begin

lemma realworld_client_loop_returns:
  assumes "invar h" and "unat i + n = length (rb_data b)" and "length (rb_data b) < 2 ^ 32"
  shows "\<exists>ok b' h' k. realworld_client_loop B I delta threshold i b h = Some (Inr (ok, b', h')) \<and>
    invar h' \<and> rb_misses b' = rb_misses b + of_nat k \<and> k \<le> n \<and>
    (ok \<longrightarrow> last_seq h' = last_seq h + of_nat n)"
  using assms
proof (induction n arbitrary: i b h)
  case 0
  then show ?case
    by (intro exI [of _ True] exI [of _ b] exI [of _ h] exI [of _ 0])
      (subst realworld_client_loop.simps, cases h, simp)
next
  case (Suc n)
  then have less: "unat i < length (rb_data b)" by simp
  then have "unat i + 1 < 2 ^ 32"
    using Suc.prems by linarith
  then have next_i: "unat (i + 1) + n = length (rb_data b)"
    using Suc.prems by (simp add: unat_word_ariths)
  obtain s w where h: "h = (s, w)" by (cases h)
  obtain ts w1 where clock: "get_timestamp B w = (ts, w1)" by fastforce
  define point where "point = rb_data b ! unat i"
  define late where "late = (sint (dp_time point + delta) < sint (ts - ucast threshold))"
  define b2 where "b2 = (if late then b\<lparr>rb_misses := rb_misses b + 1\<rparr> else b)"
  define w2 where "w2 = (if late then w1 else os_sleep_until B (dp_time point + delta) w1)"
  have branch: "(if late then (b\<lparr>rb_misses := rb_misses b + 1\<rparr>, w1)
      else (b, os_sleep_until B (dp_time point + delta) w1)) = (b2, w2)"
    by (simp add: b2_def w2_def)
  have b2: "rb_data b2 = rb_data b" "rb_misses b2 = rb_misses b + of_nat (if late then 1 else 0)"
    by (simp_all add: b2_def)
  have "invar (s, w2)"
    using Suc.prems(1) invar_world by (auto simp: h)
  from write_law [OF this, of "JavaSymbol (dp_symbol point)"] obtain ok h3
    where written: "c_write I (JavaSymbol (dp_symbol point)) (s, w2) = Inr (ok, h3)"
      and inv3: "invar h3" and seq3: "ok \<longrightarrow> last_seq h3 = last_seq h + 1"
    using seq_world [of s w2 w] by (metis h)
  have unfold: "realworld_client_loop B I delta threshold i b h =
      (if ok then realworld_client_loop B I delta threshold (i + 1) b2 h3
       else Some (Inr (False, b2, h3)))"
    by (subst realworld_client_loop.simps)
      (simp add: less h clock branch written Let_def flip: point_def late_def)
  show ?case
  proof (cases ok)
    case False
    with unfold inv3 b2 show ?thesis
      by (intro exI [of _ False] exI [of _ b2] exI [of _ h3] exI [of _ "if late then 1 else 0"]) simp
  next
    case True
    from Suc.IH [OF inv3, of "i + 1" b2] next_i Suc.prems(3) b2(1) obtain ok' b' h' k
      where "realworld_client_loop B I delta threshold (i + 1) b2 h3 = Some (Inr (ok', b', h'))"
        "invar h'" "rb_misses b' = rb_misses b2 + of_nat k" "k \<le> n"
        "ok' \<longrightarrow> last_seq h' = last_seq h3 + of_nat n"
      by auto
    with True unfold b2(2) seq3 show ?thesis
      by (intro exI [of _ ok'] exI [of _ b'] exI [of _ h'] exI [of _ "k + (if late then 1 else 0)"])
        (auto simp: add.assoc)
  qed
qed

end

section \<open>The server\<close>

text \<open>
  The messages that the server takes: their sequence numbers increase, starting above \<open>i\<close>, and the
  last one is the first to reach the number of data points.
\<close>

definition ident :: "data_header \<times> data_object \<Rightarrow> nat" where
  "ident m = unat (h_id (fst m))"

fun arrives :: "nat \<Rightarrow> nat \<Rightarrow> (data_header \<times> data_object) list \<Rightarrow> bool" where
  "arrives i n [] \<longleftrightarrow> False"
| "arrives i n [m] \<longleftrightarrow> i < ident m \<and> n \<le> ident m"
| "arrives i n (m # m' # ms) \<longleftrightarrow> i < ident m \<and> ident m < n \<and> arrives (ident m) n (m' # ms)"

lemma arrives_Cons:
  "arrives i n (m # ms) \<longleftrightarrow>
     i < ident m \<and> (if ms = [] then n \<le> ident m else ident m < n \<and> arrives (ident m) n ms)"
  by (cases ms) auto

lemma arrives_ids:
  assumes "arrives i n ms"
  shows "ms \<noteq> [] \<and> distinct (map ident ms) \<and> set (map ident ms) \<subseteq> {i<..ident (last ms)} \<and>
    n \<le> ident (last ms)"
  using assms
proof (induction ms arbitrary: i)
  case (Cons m ms)
  show ?case
  proof (cases "ms = []")
    case False
    with Cons.prems have m: "i < ident m" "arrives (ident m) n ms"
      by (simp_all add: arrives_Cons)
    note ids = Cons.IH [OF m(2)]
    from False have "ident (last ms) \<in> set (map ident ms)"
      by simp
    with ids have "ident m < ident (last ms)"
      by (metis greaterThanAtMost_iff subsetD)
    then have "ident m \<le> ident (last ms)"
      by simp
    with ids m(1) False show ?thesis
      by (auto simp: subset_iff)
  qed (use Cons.prems in \<open>auto simp: arrives_Cons\<close>)
qed simp

text \<open>The gaps: the sequence numbers up to the last one that did not arrive.\<close>

definition gaps :: "nat \<Rightarrow> (data_header \<times> data_object) list \<Rightarrow> nat set" where
  "gaps i ms = {i<..ident (last ms)} - ident ` set ms"

lemma card_gaps:
  assumes "arrives i n ms"
  shows "card (gaps i ms) + length ms = ident (last ms) - i"
proof -
  note ids = arrives_ids [OF assms]
  then have "card (ident ` set ms) = length ms"
    by (metis distinct_card length_map set_map)
  moreover have "card (gaps i ms) = card {i<..ident (last ms)} - card (ident ` set ms)"
    unfolding gaps_def by (rule card_Diff_subset) (use ids in auto)
  moreover have "card (ident ` set ms) \<le> card {i<..ident (last ms)}"
    by (rule card_mono) (use ids in auto)
  ultimately show ?thesis by simp
qed

lemma card_gaps_Cons:
  assumes "arrives i n (m # ms)" and "ms \<noteq> []"
  shows "card (gaps i (m # ms)) = ident m - i - 1 + card (gaps (ident m) ms)"
proof -
  from assms have m: "i < ident m" and rest: "arrives (ident m) n ms"
    by (simp_all add: arrives_Cons)
  have "ident (last ms) \<in> set (map ident ms)"
    using assms(2) by simp
  then have "ident m < ident (last ms)"
    using arrives_ids [OF rest] by (metis greaterThanAtMost_iff subsetD)
  with card_gaps [OF assms(1)] card_gaps [OF rest] assms(2) m show ?thesis
    by simp
qed

lemma card_gaps_single: "i < ident m \<Longrightarrow> card (gaps i [m]) = ident m - i - 1"
  using card_gaps [of i 0 "[m]"] by simp

context message_source
begin

text \<open>
  The server takes the messages up to the last one, and has then counted as missed exactly the
  sequence numbers that never arrived.
\<close>

lemma realworld_server_loop_counts:
  assumes "holds h (ms @ rest)" and "arrives (unat i) (length (rb_data b)) ms"
    and "unat i < length (rb_data b)"
  shows "\<exists>b' h'. realworld_server_loop I more_data i b h = Some (Inr (True, b', h')) \<and>
    holds h' rest \<and> rb_misses b' = rb_misses b + of_nat (card (gaps (unat i) ms))"
  using assms
proof (induction "(length ms, effort more_data h)" arbitrary: more_data i b h ms
    rule: wf_induct_rule [OF wf_lex_prod [OF wf_less_than wf_less_than], case_names step])
  case step
  from step.prems(2) obtain m ms' where ms: "ms = m # ms'" by (cases ms) auto
  from await_loop_ready [of h m "ms' @ rest" more_data] step.prems(1) ms obtain h1
    where await: "await_loop I more_data h = Some h1"
      and h1: "holds h1 (m # ms' @ rest)" "effort True h1 \<le> effort more_data h"
    by auto
  from read_holds [OF h1(1)] obtain x h2 where read: "c_read I h1 = Some (Inr (x, h2))"
    and x: "x = Inr m \<and> holds h2 (ms' @ rest) \<or>
      x = Inl NO_DATA_AVAILABLE \<and> holds h2 (m # ms' @ rest) \<and> effort False h2 < effort True h1"
    by blast
  from x show ?case
  proof (elim disjE conjE)
    assume none: "x = Inl NO_DATA_AVAILABLE" and h2: "holds h2 (m # ms' @ rest)"
      and less: "effort False h2 < effort True h1"
    then have "((length ms, effort False h2), length ms, effort more_data h) \<in> less_than <*lex*> less_than"
      using h1(2) by simp
    from step.hyps [OF this _ step.prems(2,3)] h2 ms obtain b' h'
      where "realworld_server_loop I False i b h2 = Some (Inr (True, b', h'))" "holds h' rest"
        "rb_misses b' = rb_misses b + of_nat (card (gaps (unat i) ms))"
      by auto
    with step.prems(3) await read none show ?thesis
      by (subst realworld_server_loop.simps) simp
  next
    assume some: "x = Inr m" and h2: "holds h2 (ms' @ rest)"
    obtain header obj where m: "m = (header, obj)" by (cases m)
    let ?b = "b\<lparr>rb_misses := rb_misses b + (h_id header - i - 1)\<rparr>"
    have id: "unat (h_id header) = ident m" and above: "unat i < ident m"
      using step.prems(2) by (simp_all add: ident_def m ms arrives_Cons)
    have gap: "h_id header - i - 1 = of_nat (ident m - unat i - 1)"
    proof -
      have "(of_nat (ident m - unat i - 1) :: u32) = of_nat (ident m) - of_nat (unat i) - 1"
        using above by (simp add: of_nat_diff)
      then show ?thesis
        by (simp flip: id)
    qed
    have unfold: "realworld_server_loop I more_data i b h =
        realworld_server_loop I True (h_id header) ?b h2"
      using step.prems(3) await read some m by (subst realworld_server_loop.simps) simp
    show ?thesis
    proof (cases "ms' = []")
      case True
      with step.prems(2) ms have "\<not> unat (h_id header) < length (rb_data b)"
        by (simp add: id)
      then have "realworld_server_loop I True (h_id header) ?b h2 = Some (Inr (True, ?b, h2))"
        by (subst realworld_server_loop.simps, cases h2) simp
      with unfold True h2 above ms show ?thesis
        by (cases h2) (simp add: gap card_gaps_single)
    next
      case False
      with step.prems(2) ms have rest: "arrives (unat (h_id header)) (length (rb_data ?b)) ms'"
        and less: "unat (h_id header) < length (rb_data ?b)"
        by (simp_all add: arrives_Cons id)
      have "((length ms', effort True h2), length ms, effort more_data h) \<in> less_than <*lex*> less_than"
        by (simp add: ms)
      from step.hyps [OF this h2 rest less] obtain b' h'
        where "realworld_server_loop I True (h_id header) ?b h2 = Some (Inr (True, b', h'))"
          "holds h' rest"
          "rb_misses b' = rb_misses ?b + of_nat (card (gaps (unat (h_id header)) ms'))"
        by blast
      with unfold card_gaps_Cons [OF step.prems(2) [unfolded ms] False] show ?thesis
        by (cases h') (simp add: gap id ms add.assoc)
    qed
  qed
qed

end

end
