(* ===== verification/File_Stream.thy ===== *)
theory File_Stream
  imports Semaphores
begin

text \<open>
  The part of \<open>std::fstream\<close> that the shared file handler uses: the state bits, the position and the
  output buffer of the stream, over the file operations of the operating system.  Bytes that are
  written stay in the buffer until the stream is flushed, moved or closed; moving the stream discards
  what it has read ahead, so a read sees the file as it is.
\<close>

section \<open>State and operating system\<close>

record 'w file_os = "'w sem_os" +
  os_remove_file :: "string \<Rightarrow> 'w \<Rightarrow> 'w"
  os_fopen :: "string \<Rightarrow> bool \<Rightarrow> 'w \<Rightarrow> pointer \<times> 'w"
  os_fclose :: "nat \<Rightarrow> 'w \<Rightarrow> 'w"
  os_fseek :: "nat \<Rightarrow> nat \<Rightarrow> 'w \<Rightarrow> bool \<times> 'w"
  os_fwrite :: "nat \<Rightarrow> nat \<Rightarrow> byte list \<Rightarrow> 'w \<Rightarrow> bool \<times> 'w"
  os_fread :: "nat \<Rightarrow> nat \<Rightarrow> nat \<Rightarrow> 'w \<Rightarrow> byte list option \<times> 'w"

text \<open>
  \<open>os_fopen\<close> takes the path and whether the file is truncated, and gives a handle; \<open>os_fwrite\<close> and
  \<open>os_fread\<close> take the handle, the position in the file, and the bytes or their number.  A read gives
  fewer bytes only at the end of the file, and \<open>None\<close> if it fails.
\<close>

record file_stream =
  fs_handle :: pointer
  fs_fail :: bool
  fs_bad :: bool
  fs_eof :: bool
  fs_pos :: nat
  fs_pending :: "byte list"

definition fstream_closed :: file_stream where
  "fstream_closed = \<lparr>fs_handle = None, fs_fail = False, fs_bad = False, fs_eof = False, fs_pos = 0,
     fs_pending = []\<rparr>"

text \<open>The size of the output buffer in the standard library of the target, \<open>BUFSIZ - 1\<close>.\<close>

definition filebuf_size :: nat where
  "filebuf_size = 8191"

definition fstream_is_open :: "file_stream \<Rightarrow> bool" where
  "fstream_is_open s \<longleftrightarrow> fs_handle s \<noteq> None"

definition fstream_failed :: "file_stream \<Rightarrow> bool" where
  "fstream_failed s \<longleftrightarrow> fs_fail s \<or> fs_bad s"

definition fstream_good :: "file_stream \<Rightarrow> bool" where
  "fstream_good s \<longleftrightarrow> \<not> fs_fail s \<and> \<not> fs_bad s \<and> \<not> fs_eof s"

section \<open>Operations\<close>

definition fstream_fopen :: "('w, 'z) file_os_scheme \<Rightarrow> string \<Rightarrow> bool \<Rightarrow> 'w \<Rightarrow> file_stream \<times> 'w" where
  "fstream_fopen K path trunc w =
     (let (h, w) = os_fopen K path trunc w in
      (fstream_closed\<lparr>fs_handle := h, fs_fail := (h = None)\<rparr>, w))"

definition fstream_clear :: "file_stream \<Rightarrow> file_stream" where
  "fstream_clear s = s\<lparr>fs_fail := False, fs_bad := False, fs_eof := False\<rparr>"

text \<open>The buffered bytes go to the file; they stay in the buffer if the file does not take them.\<close>

definition fstream_sync ::
  "('w, 'z) file_os_scheme \<Rightarrow> file_stream \<Rightarrow> 'w \<Rightarrow> bool \<times> (file_stream \<times> 'w)" where
  "fstream_sync K s w =
     (case fs_handle s of
        None \<Rightarrow> (False, s, w)
      | Some h \<Rightarrow>
          if fs_pending s = [] then (True, s, w)
          else
            let (ok, w) = os_fwrite K h (fs_pos s) (fs_pending s) w in
            if ok then (True, s\<lparr>fs_pos := fs_pos s + length (fs_pending s), fs_pending := []\<rparr>, w)
            else (False, s, w))"

text \<open>\<open>seekp\<close> and \<open>seekg\<close> move the one position of the file buffer.\<close>

definition fstream_seek ::
  "('w, 'z) file_os_scheme \<Rightarrow> nat \<Rightarrow> file_stream \<Rightarrow> 'w \<Rightarrow> file_stream \<times> 'w" where
  "fstream_seek K pos s w =
     (if fstream_failed s then (s, w)
      else
        case fstream_sync K s w of
          (False, s, w) \<Rightarrow> (s\<lparr>fs_fail := True\<rparr>, w)
        | (True, s, w) \<Rightarrow>
            let (ok, w) = os_fseek K (the (fs_handle s)) pos w in
            if ok then (s\<lparr>fs_pos := pos\<rparr>, w) else (s\<lparr>fs_fail := True\<rparr>, w))"

definition fstream_write ::
  "('w, 'z) file_os_scheme \<Rightarrow> byte list \<Rightarrow> file_stream \<Rightarrow> 'w \<Rightarrow> file_stream \<times> 'w" where
  "fstream_write K bs s w =
     (if \<not> fstream_good s then (s\<lparr>fs_fail := True\<rparr>, w)
      else
        let s = s\<lparr>fs_pending := fs_pending s @ bs\<rparr> in
        if length (fs_pending s) < filebuf_size then (s, w)
        else
          case fstream_sync K s w of
            (True, s, w) \<Rightarrow> (s, w)
          | (False, s, w) \<Rightarrow> (s\<lparr>fs_bad := True\<rparr>, w))"

definition fstream_flush :: "('w, 'z) file_os_scheme \<Rightarrow> file_stream \<Rightarrow> 'w \<Rightarrow> file_stream \<times> 'w" where
  "fstream_flush K s w =
     (if \<not> fstream_good s then (s, w)
      else
        case fstream_sync K s w of
          (True, s, w) \<Rightarrow> (s, w)
        | (False, s, w) \<Rightarrow> (s\<lparr>fs_bad := True\<rparr>, w))"

definition fstream_read ::
  "('w, 'z) file_os_scheme \<Rightarrow> nat \<Rightarrow> file_stream \<Rightarrow> 'w \<Rightarrow> byte list \<times> (file_stream \<times> 'w)" where
  "fstream_read K n s w =
     (if \<not> fstream_good s then ([], s\<lparr>fs_fail := True\<rparr>, w)
      else
        case fstream_sync K s w of
          (False, s, w) \<Rightarrow> ([], s\<lparr>fs_fail := True, fs_eof := True\<rparr>, w)
        | (True, s, w) \<Rightarrow>
            (case os_fread K (the (fs_handle s)) (fs_pos s) n w of
               (None, w) \<Rightarrow> ([], s\<lparr>fs_bad := True\<rparr>, w)
             | (Some bs, w) \<Rightarrow>
                 let bs = take n bs; s = s\<lparr>fs_pos := fs_pos s + length bs\<rparr> in
                 if length bs < n then (bs, s\<lparr>fs_fail := True, fs_eof := True\<rparr>, w)
                 else (bs, s, w)))"

definition fstream_fclose :: "('w, 'z) file_os_scheme \<Rightarrow> file_stream \<Rightarrow> 'w \<Rightarrow> file_stream \<times> 'w" where
  "fstream_fclose K s w =
     (case fs_handle s of
        None \<Rightarrow> (s\<lparr>fs_fail := True\<rparr>, w)
      | Some h \<Rightarrow>
          (case fstream_sync K s w of
             (ok, s, w) \<Rightarrow>
               (s\<lparr>fs_handle := None, fs_pending := [], fs_fail := fs_fail s \<or> \<not> ok\<rparr>, os_fclose K h w)))"

section \<open>Lemmas\<close>

lemma fstream_clear_simps [simp]:
  "fstream_good (fstream_clear s)" "\<not> fstream_failed (fstream_clear s)"
  "fs_handle (fstream_clear s) = fs_handle s" "fs_pending (fstream_clear s) = fs_pending s"
  "fs_pos (fstream_clear s) = fs_pos s"
  by (simp_all add: fstream_clear_def fstream_good_def fstream_failed_def)

lemma fstream_sync_handle: "fstream_sync K s w = (ok, s', w') \<Longrightarrow> fs_handle s' = fs_handle s"
  by (auto simp: fstream_sync_def split: option.splits if_splits prod.splits)

lemma fstream_seek_handle: "fstream_seek K p s w = (s', w') \<Longrightarrow> fs_handle s' = fs_handle s"
  by (auto simp: fstream_seek_def dest: fstream_sync_handle split: if_splits prod.splits bool.splits)

lemma fstream_write_handle: "fstream_write K bs s w = (s', w') \<Longrightarrow> fs_handle s' = fs_handle s"
  by (auto simp: fstream_write_def Let_def dest!: fstream_sync_handle
      split: if_splits prod.splits bool.splits)

lemma fstream_flush_handle: "fstream_flush K s w = (s', w') \<Longrightarrow> fs_handle s' = fs_handle s"
  by (auto simp: fstream_flush_def dest: fstream_sync_handle split: if_splits prod.splits bool.splits)

lemma fstream_read_handle:
  "fstream_read K n s w = (bs, s', w') \<Longrightarrow> fs_handle s' = fs_handle s \<and> length bs \<le> n"
  by (auto simp: fstream_read_def Let_def dest!: fstream_sync_handle
      split: if_splits prod.splits bool.splits option.splits)

lemmas fstream_handles = fstream_seek_handle fstream_write_handle fstream_flush_handle fstream_read_handle

lemma fstream_fclose_closed [simp]: "fs_handle (fst (fstream_fclose K s w)) = None"
  by (simp add: fstream_fclose_def split: option.splits prod.splits)

text \<open>With nothing in the output buffer, no operation but a flush touches the file.\<close>

lemma fstream_seek_clean:
  assumes "fs_handle s = Some h" and "fs_pending s = []" and "os_fseek K h pos w = (True, w')"
  shows "fstream_seek K pos (fstream_clear s) w = (fstream_clear s\<lparr>fs_pos := pos\<rparr>, w')"
  using assms by (simp add: fstream_seek_def fstream_sync_def)

lemma fstream_write_clean:
  assumes "fstream_good s" and "fs_pending s = []" and "length bs < filebuf_size"
  shows "fstream_write K bs s w = (s\<lparr>fs_pending := bs\<rparr>, w)"
  using assms by (simp add: fstream_write_def)

lemma fstream_flush_pending:
  assumes "fs_handle s = Some h" and "fstream_good s" and "fs_pending s \<noteq> []"
    and "os_fwrite K h (fs_pos s) (fs_pending s) w = (True, w')"
  shows "fstream_flush K s w = (s\<lparr>fs_pos := fs_pos s + length (fs_pending s), fs_pending := []\<rparr>, w')"
  using assms by (simp add: fstream_flush_def fstream_sync_def)

lemma fstream_read_clean:
  assumes "fs_handle s = Some h" and "fstream_good s" and "fs_pending s = []"
    and "os_fread K h (fs_pos s) n w = (Some bs, w')" and "length bs \<le> n"
  shows "fstream_read K n s w =
    (bs, s\<lparr>fs_pos := fs_pos s + length bs, fs_fail := length bs < n, fs_eof := length bs < n\<rparr>, w')"
  using assms by (simp add: fstream_read_def fstream_sync_def Let_def fstream_good_def)

end
