(* ===== verification/Shared_File.thy ===== *)
theory Shared_File
  imports File_Stream
begin

text \<open>
  The shared file handler (include/handler/shared_file.hpp, src/handler/shared_file.cpp): a ring of
  64 slots in a file that both processes access through a \<open>std::fstream\<close>, with a semaphore that
  counts the filled slots and one that counts the free ones.  State, methods, and the contract of
  \<open>ICommunicationHandler\<close> for every behaviour of the system calls.
\<close>

section \<open>State\<close>

definition FILE_TOTAL_AMOUNT :: int where
  "FILE_TOTAL_AMOUNT = 64"

lemma FILE_TOTAL_AMOUNT_val [simp]: "FILE_TOTAL_AMOUNT = 64"
  by (simp add: FILE_TOTAL_AMOUNT_def)

record shared_file =
  sf_path :: string
  sf_server :: bool
  sf_file :: file_stream
  sf_offset :: int
  sf_reader :: pointer
  sf_writer :: pointer
  sf_last_id :: u32
  sf_buffer :: buffer

definition file_new :: "string \<Rightarrow> bool \<Rightarrow> shared_file" where
  "file_new path server =
     \<lparr>sf_path = path, sf_server = server, sf_file = fstream_closed, sf_offset = 0, sf_reader = None,
      sf_writer = None, sf_last_id = 0, sf_buffer = replicate BUFFER_SIZE 0\<rparr>"

section \<open>Opening and closing\<close>

definition file_close :: "'w file_os \<Rightarrow> shared_file \<times> 'w \<Rightarrow> bool \<times> (shared_file \<times> 'w)" where
  "file_close K = (\<lambda>(s, w).
     if \<not> fstream_is_open (sf_file s) then (False, s, w)
     else
       let (f, w) = fstream_fclose K (sf_file s) w; s = s\<lparr>sf_file := f\<rparr>;
           w = os_sem_close K (sf_reader s) w;
           w = os_sem_close K (sf_writer s) w;
           w = (if sf_server s
                then
                  let w = os_remove_file K (sf_path s) w;
                      w = os_sem_unlink K (sem_prefix (sf_path s) @ ''r'') w
                  in os_sem_unlink K (sem_prefix (sf_path s) @ ''w'') w
                else w)
       in (True, s, w))"

definition file_open :: "'w file_os \<Rightarrow> shared_file \<times> 'w \<Rightarrow> bool \<times> (shared_file \<times> 'w)" where
  "file_open K = (\<lambda>(s, w).
     if fstream_is_open (sf_file s) then (True, s, w)
     else
       let (f, w) = fstream_fopen K (sf_path s) (sf_server s) w; s = s\<lparr>sf_file := f\<rparr> in
       if \<not> fstream_is_open (sf_file s) then (False, s, w)
       else
         let prefix = sem_prefix (sf_path s);
             w = (if sf_server s
                  then let w = os_sem_unlink K (prefix @ ''r'') w in os_sem_unlink K (prefix @ ''w'') w
                  else w);
             flag = (if sf_server s then [O_CREAT] else []);
             (r, w) = os_sem_open K (prefix @ ''r'') flag 0 w;
             s = s\<lparr>sf_reader := r\<rparr> in
         if r = None then (False, snd (file_close K (s, w)))
         else
           let (v, w) = os_sem_open K (prefix @ ''w'') flag (nat FILE_TOTAL_AMOUNT) w;
               s = s\<lparr>sf_writer := v\<rparr> in
           if v = None then (False, snd (file_close K (s, w)))
           else (True, s, w))"

definition file_destroy :: "'w file_os \<Rightarrow> shared_file \<times> 'w \<Rightarrow> shared_file \<times> 'w" where
  "file_destroy K = (\<lambda>(s, w).
     if fstream_is_open (sf_file s) then snd (file_close K (s, w)) else (s, w))"

definition file_is_open :: "shared_file \<times> 'w \<Rightarrow> bool" where
  "file_is_open = (\<lambda>(s, w). fstream_is_open (sf_file s))"

section \<open>Transferring messages\<close>

definition file_await_data :: "'w file_os \<Rightarrow> shared_file \<times> 'w \<Rightarrow> bool \<times> (shared_file \<times> 'w)" where
  "file_await_data K = (\<lambda>(s, w).
     if \<not> fstream_is_open (sf_file s) then (False, s, w)
     else
       case os_realtime K w of
         (None, w) \<Rightarrow> (False, s, w)
       | (Some (sec, nsec), w) \<Rightarrow>
           let (res, w) = os_sem_timedwait K (sf_reader s) (sec + WAIT_TIME div 1000, nsec) w in
           if res \<noteq> None then (False, s, w)
           else (True, s, os_sem_post K (sf_reader s) w))"

definition file_has_data :: "'w file_os \<Rightarrow> shared_file \<times> 'w \<Rightarrow> bool \<times> (shared_file \<times> 'w)" where
  "file_has_data K = (\<lambda>(s, w).
     if \<not> fstream_is_open (sf_file s) then (False, s, w)
     else (case os_sem_getvalue K (sf_reader s) w of None \<Rightarrow> False | Some v \<Rightarrow> v > 0, s, w))"

text \<open>
  The message is staged in the handler's buffer, the stream moved to the slot, and only then the
  handler waits for a free slot.  The result of the flush is not checked.
\<close>

definition file_write ::
  "'w file_os \<Rightarrow> data_object \<Rightarrow> shared_file \<times> 'w \<Rightarrow> (bool \<times> (shared_file \<times> 'w)) res" where
  "file_write K obj = (\<lambda>(s, w).
     if \<not> fstream_is_open (sf_file s) then Inr (False, s, w)
     else
       let (timestamp, w) = get_timestamp K w in
       and_then (obj_serialize obj (sf_buffer s) sizeof_header
                  (u32_of_size (BUFFER_SIZE - sizeof_header))) (\<lambda>(n, buf).
       let s = s\<lparr>sf_buffer := buf\<rparr> in
       if n = - 1 then Inr (False, s, w)
       else
         let s = s\<lparr>sf_last_id := sf_last_id s + 1\<rparr>;
             header = message_header (sf_last_id s) obj n timestamp in
         and_then (header_serialize header (sf_buffer s) 0 (u32_of_size sizeof_header)) (\<lambda>(_, buf).
         let s = s\<lparr>sf_buffer := buf\<rparr>;
             f = fstream_clear (sf_file s);
             (f, w) = fstream_seek K (nat (sf_offset s) * BUFFER_SIZE) f w;
             s = s\<lparr>sf_file := f\<rparr> in
         if fstream_failed (sf_file s) then Inr (False, s, w)
         else
           let (res, w) = os_sem_wait K (sf_writer s) w in
           if res \<noteq> None then Inr (False, s, w)
           else
             and_then (mem_load (sf_buffer s) 0 (sizeof_header + nat n)) (\<lambda>bytes.
             let (f, w) = fstream_write K bytes (sf_file s) w; s = s\<lparr>sf_file := f\<rparr> in
             if fstream_failed (sf_file s) then Inr (False, s, os_sem_post K (sf_writer s) w)
             else
               let (f, w) = fstream_flush K (sf_file s) w; s = s\<lparr>sf_file := f\<rparr>;
                   s = s\<lparr>sf_offset := (sf_offset s + 1) mod FILE_TOTAL_AMOUNT\<rparr>;
                   w = os_sem_post K (sf_reader s) w in
               Inr (True, s, w)))))"

text \<open>
  A read of fewer bytes than a slot has - at the end of the file - leaves the rest of the buffer as it
  was.
\<close>

definition file_read ::
  "'w file_os \<Rightarrow> shared_file \<times> 'w \<Rightarrow> (read_result \<times> (shared_file \<times> 'w)) res" where
  "file_read K = (\<lambda>(s, w).
     if \<not> fstream_is_open (sf_file s) then Inr (Inl CONNECTION_CLOSED, s, w)
     else
       let (res, w) = os_sem_trywait K (sf_reader s) w in
       case res of
         Some e \<Rightarrow> Inr (Inl (if e = EAGAIN then NO_DATA_AVAILABLE else READ_ERROR), s, w)
       | None \<Rightarrow>
           let f = fstream_clear (sf_file s);
               (f, w) = fstream_seek K (nat (sf_offset s) * BUFFER_SIZE) f w;
               s = s\<lparr>sf_file := f\<rparr> in
           if fstream_failed (sf_file s)
           then Inr (Inl READ_ERROR, s, os_sem_post K (sf_reader s) w)
           else
             let (bytes, f, w) = fstream_read K BUFFER_SIZE (sf_file s) w; s = s\<lparr>sf_file := f\<rparr> in
             and_then (mem_store (sf_buffer s) 0 bytes) (\<lambda>buf.
             let s = s\<lparr>sf_buffer := buf\<rparr> in
             if fstream_failed (sf_file s) \<and> \<not> fs_eof (sf_file s)
             then Inr (Inl READ_ERROR, s, os_sem_post K (sf_reader s) w)
             else
               let s = s\<lparr>sf_offset := (sf_offset s + 1) mod FILE_TOTAL_AMOUNT\<rparr>;
                   w = os_sem_post K (sf_writer s) w in
               and_then (header_deserialize (sf_buffer s) 0 (u32_of_size sizeof_header)) (\<lambda>optional.
               case optional of
                 None \<Rightarrow> Inr (Inl INVALID_HEADER, s, w)
               | Some header \<Rightarrow>
                   assert_then (unat (h_body_size header) \<le> BUFFER_SIZE - sizeof_header)
                     (and_then (deserialize_data_object (h_type header) (sf_buffer s) sizeof_header
                                 (ucast (h_body_size header))) (\<lambda>data.
                      Inr (of_body header data, s, w))))))"

definition file_iface :: "'w file_os \<Rightarrow> (shared_file \<times> 'w) comm_iface" where
  "file_iface K =
     \<lparr>c_open = file_open K, c_close = file_close K, c_is_open = file_is_open,
      c_await_data = file_await_data K, c_has_data = file_has_data K,
      c_write = file_write K, c_read = (\<lambda>h. Some (file_read K h))\<rparr>"

lemmas file_defs =
  file_open_def file_close_def file_is_open_def file_await_data_def file_has_data_def

lemma file_iface_simps [simp]:
  "c_open (file_iface K) = file_open K" "c_close (file_iface K) = file_close K"
  "c_is_open (file_iface K) = file_is_open" "c_await_data (file_iface K) = file_await_data K"
  "c_has_data (file_iface K) = file_has_data K" "c_write (file_iface K) = file_write K"
  "c_read (file_iface K) h = Some (file_read K h)"
  by (simp_all add: file_iface_def)

section \<open>The contract of the interface\<close>

definition file_inv :: "shared_file \<times> 'w \<Rightarrow> bool" where
  "file_inv = (\<lambda>(s, w). length (sf_buffer s) = BUFFER_SIZE \<and>
     0 \<le> sf_offset s \<and> sf_offset s < FILE_TOTAL_AMOUNT)"

definition file_seq :: "shared_file \<times> 'w \<Rightarrow> u32" where
  "file_seq = (\<lambda>(s, w). sf_last_id s)"

lemma file_new_inv: "file_inv (file_new path server, w) \<and> \<not> file_is_open (file_new path server, w)"
  by (simp add: file_inv_def file_is_open_def file_new_def fstream_closed_def fstream_is_open_def)

text \<open>The bytes of a message fit the output buffer of the stream.\<close>

lemma file_write_eq:
  assumes "length (sf_buffer s) = 528" and "fstream_is_open (sf_file s)"
    and "os_clock K w = (ts, w1)"
    and seek: "fstream_seek K (nat (sf_offset s) * 528) (fstream_clear (sf_file s)) w1 = (f, w2)"
    and wait: "os_sem_wait K (sf_writer s) w2 = (res, w3)"
  shows "file_write K obj (s, w) =
    (let ident = sf_last_id s + 1;
         s' = s\<lparr>sf_last_id := ident, sf_buffer := staged ident ts obj (sf_buffer s), sf_file := f\<rparr> in
     if 512 < length (object_bytes obj) then Inr (False, s, w1)
     else if fstream_failed f then Inr (False, s', w2)
     else if res \<noteq> None then Inr (False, s', w3)
     else
       let (f, w) = fstream_write K (message_bytes ident ts obj) f w3 in
       if fstream_failed f then Inr (False, s'\<lparr>sf_file := f\<rparr>, os_sem_post K (sf_writer s) w)
       else
         let (f, w) = fstream_flush K f w in
         Inr (True, s'\<lparr>sf_file := f, sf_offset := (sf_offset s + 1) mod 64\<rparr>,
           os_sem_post K (sf_reader s) w))"
proof (cases "length (object_bytes obj) \<le> 512")
  case True
  with assms show ?thesis
    by (simp add: file_write_def get_timestamp_def framing Let_def split: prod.split)
next
  case False
  with assms show ?thesis
    by (simp add: file_write_def get_timestamp_def framing Let_def)
qed

lemma file_write_result:
  assumes "file_inv h"
  shows "\<exists>b h'. file_write K obj h = Inr (b, h') \<and> file_inv h' \<and> file_is_open h' = file_is_open h \<and>
    (b \<longrightarrow> file_is_open h \<and> length (object_bytes obj) \<le> body_capacity \<and> file_seq h' = file_seq h + 1)"
proof -
  obtain s w where h: "h = (s, w)" by (cases h)
  have inv: "length (sf_buffer s) = 528" "0 \<le> sf_offset s" "sf_offset s < 64"
    using assms by (simp_all add: h file_inv_def)
  show ?thesis
  proof (cases "fstream_is_open (sf_file s)")
    case False
    with assms show ?thesis
      by (auto simp: h file_write_def file_is_open_def)
  next
    case True
    obtain ts w1 where clock: "os_clock K w = (ts, w1)" by (cases "os_clock K w")
    obtain f w2 where seek:
      "fstream_seek K (nat (sf_offset s) * 528) (fstream_clear (sf_file s)) w1 = (f, w2)" by fastforce
    obtain res w3 where wait: "os_sem_wait K (sf_writer s) w2 = (res, w3)" by fastforce
    show ?thesis
      using file_write_eq [OF inv(1) True clock seek wait, of obj] True inv seek
      by (auto simp: h file_inv_def file_is_open_def file_seq_def Let_def fstream_is_open_def
          dest!: fstream_handles split: if_splits prod.splits)
  qed
qed

lemma file_read_result:
  assumes "file_inv h" and "file_read K h = Inr (r, h')"
  shows "file_inv h' \<and> file_is_open h' = file_is_open h \<and> file_seq h' = file_seq h \<and> typed_result r"
  using assms
  by (auto simp: file_inv_def file_is_open_def file_seq_def file_read_def framing res_simps Let_def
      fstream_is_open_def dest!: mem_store_length typed_of_body fstream_handles
      split: prod.splits option.splits if_splits)

lemma file_closed_calls:
  assumes "\<not> file_is_open h"
  shows "file_write K obj h = Inr (False, h)" and "file_read K h = Inr (Inl CONNECTION_CLOSED, h)"
    and "file_await_data K h = (False, h)" and "file_close K h = (False, h)"
  using assms by (cases h; simp add: file_defs file_write_def file_read_def)+

lemma file_close_frame [simp]:
  "sf_buffer (fst (snd (file_close K (s, w)))) = sf_buffer s"
  "sf_last_id (fst (snd (file_close K (s, w)))) = sf_last_id s"
  "sf_offset (fst (snd (file_close K (s, w)))) = sf_offset s"
  "fs_handle (sf_file (fst (snd (file_close K (s, w))))) = None"
  "fst (file_close K (s, w)) = fstream_is_open (sf_file s)"
proof -
  obtain f w' where "fstream_fclose K (sf_file s) w = (f, w')" and "fs_handle f = None"
    using fstream_fclose_closed [of K "sf_file s" w] by (cases "fstream_fclose K (sf_file s) w") simp
  then show "sf_buffer (fst (snd (file_close K (s, w)))) = sf_buffer s"
    "sf_last_id (fst (snd (file_close K (s, w)))) = sf_last_id s"
    "sf_offset (fst (snd (file_close K (s, w)))) = sf_offset s"
    "fs_handle (sf_file (fst (snd (file_close K (s, w))))) = None"
    "fst (file_close K (s, w)) = fstream_is_open (sf_file s)"
    by (auto simp: file_close_def Let_def fstream_is_open_def)
qed

lemma file_open_frame:
  assumes "file_open K (s, w) = (b, s', w')" and "\<not> fstream_is_open (sf_file s)"
  shows "sf_buffer s' = sf_buffer s \<and> sf_last_id s' = sf_last_id s \<and> sf_offset s' = sf_offset s \<and>
    fstream_is_open (sf_file s') = b"
proof -
  have close: "snd (file_close K (t, v)) = (s', w') \<Longrightarrow>
      sf_buffer s' = sf_buffer t \<and> sf_last_id s' = sf_last_id t \<and> sf_offset s' = sf_offset t \<and>
      fs_handle (sf_file s') = None" for t v
    using file_close_frame [of K t v] by simp
  show ?thesis
    using assms
    by (auto simp: file_open_def Let_def fstream_is_open_def split: prod.splits if_splits dest!: close)
qed

lemma file_lifecycle:
  assumes "file_inv h"
  shows "file_open K h = (b, h') \<Longrightarrow> file_inv h' \<and> file_is_open h' = b \<and> file_seq h' = file_seq h"
    and "file_is_open h \<Longrightarrow> file_open K h = (True, h)"
    and "file_close K h = (b, h') \<Longrightarrow>
      file_inv h' \<and> \<not> file_is_open h' \<and> b = file_is_open h \<and> file_seq h' = file_seq h"
    and "file_await_data K h = (b, h') \<Longrightarrow>
      file_inv h' \<and> file_is_open h' = file_is_open h \<and> file_seq h' = file_seq h"
    and "file_has_data K h = (b, h') \<Longrightarrow>
      file_inv h' \<and> file_is_open h' = file_is_open h \<and> file_seq h' = file_seq h"
proof -
  obtain s w where h: "h = (s, w)" by (cases h)
  show "file_open K h = (b, h') \<Longrightarrow> file_inv h' \<and> file_is_open h' = b \<and> file_seq h' = file_seq h"
  proof (cases "fstream_is_open (sf_file s)")
    case False
    assume "file_open K h = (b, h')"
    with False file_open_frame [of K s w b "fst h'" "snd h'"] assms show ?thesis
      by (cases h') (auto simp: h file_inv_def file_is_open_def file_seq_def split: if_splits)
  next
    case True
    assume "file_open K h = (b, h')"
    with True assms show ?thesis
      by (auto simp: h file_open_def file_is_open_def)
  qed
  show "file_close K h = (b, h') \<Longrightarrow>
      file_inv h' \<and> \<not> file_is_open h' \<and> b = file_is_open h \<and> file_seq h' = file_seq h"
    using assms file_close_frame [of K s w]
    by (cases h') (auto simp: h file_inv_def file_is_open_def file_seq_def fstream_is_open_def)
qed (use assms in \<open>auto simp: file_open_def file_is_open_def file_await_data_def file_has_data_def
      file_inv_def file_seq_def Let_def split: prod.splits if_splits option.splits\<close>)

lemmas file_contract = file_lifecycle file_closed_calls file_read_result file_write_result

interpretation sfile: comm_handler "file_iface K" file_inv file_seq body_capacity
  for K :: "'w file_os"
  by unfold_locales (unfold file_iface_simps option.inject, (rule file_contract; assumption)+)

end
