(* ===== verification/Shared_File_Channel.thy ===== *)
theory Shared_File_Channel
  imports Shared_File Channel
begin

text \<open>
  The shared file end to end.  The locale \<open>file_ring_os\<close> states what the operating system promises of
  the file and the two counting semaphores; from these laws and the code of \<open>file_write\<close> and
  \<open>file_read\<close> the ring of 64 slots in the file is a reliable channel.
\<close>

section \<open>Slots of the file\<close>

text \<open>
  Writing at a position past the end of a file fills the gap with zeros.  A slot may end early: the
  file is as long as the last message in it needs.
\<close>

definition file_splice :: "byte list \<Rightarrow> nat \<Rightarrow> byte list \<Rightarrow> byte list" where
  "file_splice m off bs =
     take off m @ replicate (off - length m) 0 @ bs @ drop (off + length bs) m"

definition file_bytes :: "byte list \<Rightarrow> nat \<Rightarrow> nat \<Rightarrow> byte list" where
  "file_bytes m j n = take n (drop (j * 528) m)"

lemma length_file_splice: "off + length bs \<le> length (file_splice m off bs)"
  by (simp add: file_splice_def)

lemma file_splice_before:
  assumes "n \<le> off" and "n \<le> length m"
  shows "take n (file_splice m off bs) = take n m"
  using assms by (simp add: file_splice_def)

lemma file_splice_after:
  assumes "off + length bs \<le> n" and "off \<le> length m"
  shows "drop n (file_splice m off bs) = drop n m"
  using assms by (simp add: file_splice_def)

lemma file_bytes_same: "file_bytes (file_splice m (j * 528) bs) j (length bs) = bs"
proof -
  have "length (take (j * 528) m @ replicate (j * 528 - length m) 0) = j * 528"
    by simp
  then show ?thesis
    by (simp add: file_bytes_def file_splice_def)
qed

lemma file_bytes_other:
  assumes "j \<noteq> k" and "length bs \<le> 528" and "n \<le> 528" and "0 < n"
    and whole: "length (file_bytes m k n) = n"
  shows "file_bytes (file_splice m (j * 528) bs) k n = file_bytes m k n"
proof (cases "k < j")
  have len: "k * 528 + n \<le> length m"
    using whole assms(4) by (simp add: file_bytes_def)
  {
    case True
    then have "n + k * 528 \<le> j * 528"
      using mult_le_mono1 [of "k + 1" j 528] assms(3) by simp
    then show ?thesis
      using len by (simp add: file_bytes_def take_drop file_splice_before add.commute)
  next
    case False
    with assms(1) have "j * 528 + 528 \<le> k * 528"
      using mult_le_mono1 [of "j + 1" k 528] by simp
    with assms(2) len show ?thesis
      by (simp add: file_bytes_def file_splice_after)
  }
qed

section \<open>The laws of the file\<close>

locale file_ring_os = semaphore_pair K rsem wsem view
  for K :: "'w file_os"
    and handles :: "nat set"
    and rsem :: "pointer set"
    and wsem :: "pointer set"
    and view :: "'w \<Rightarrow> byte list \<times> nat \<times> nat" +
  assumes fseek_view: "h \<in> handles \<Longrightarrow> \<exists>w'. os_fseek K h pos w = (True, w') \<and> view w' = view w"
    and fwrite_view: "\<lbrakk>h \<in> handles; view w = (m, f, v)\<rbrakk> \<Longrightarrow>
      \<exists>w'. os_fwrite K h pos bs w = (True, w') \<and> view w' = (file_splice m pos bs, f, v)"
    and fread_view: "\<lbrakk>h \<in> handles; view w = (m, f, v)\<rbrakk> \<Longrightarrow>
      \<exists>w'. os_fread K h pos n w = (Some (take n (drop pos m)), w') \<and> view w' = view w"

definition file_holds :: "byte list \<Rightarrow> nat \<Rightarrow> message list \<Rightarrow> bool" where
  "file_holds m r ms \<longleftrightarrow>
     (\<forall>i < length ms. file_bytes m ((r + i) mod 64) (length (wire (ms ! i))) = wire (ms ! i))"

definition file_attached ::
  "nat set \<Rightarrow> pointer set \<Rightarrow> pointer set \<Rightarrow> shared_file \<Rightarrow> bool" where
  "file_attached handles rsem wsem s \<longleftrightarrow>
     fs_handle (sf_file s) \<in> Some ` handles \<and> fs_pending (sf_file s) = [] \<and>
     length (sf_buffer s) = BUFFER_SIZE \<and> sf_reader s \<in> rsem \<and> sf_writer s \<in> wsem \<and>
     0 \<le> sf_offset s \<and> sf_offset s < FILE_TOTAL_AMOUNT"

definition file_carries ::
  "nat set \<Rightarrow> pointer set \<Rightarrow> pointer set \<Rightarrow> ('w \<Rightarrow> byte list \<times> nat \<times> nat) \<Rightarrow>
   shared_file \<times> shared_file \<times> 'w \<Rightarrow> message list \<Rightarrow> bool" where
  "file_carries handles rsem wsem view = (\<lambda>(sw, sr, w) ms.
     file_attached handles rsem wsem sw \<and> file_attached handles rsem wsem sr \<and>
     list_all sound_message ms \<and>
     nat (sf_offset sw) = (nat (sf_offset sr) + length ms) mod 64 \<and>
     (case view w of (m, f, v) \<Rightarrow>
        f = length ms \<and> f + v = 64 \<and> file_holds m (nat (sf_offset sr)) ms))"

definition file_pair_seq :: "shared_file \<times> shared_file \<times> 'w \<Rightarrow> u32" where
  "file_pair_seq = (\<lambda>(sw, sr, w). sf_last_id sw)"

lemma file_holds_empty [simp]: "file_holds m r []"
  by (simp add: file_holds_def)

lemma length_wire: "sound_message x \<Longrightarrow> length (wire x) \<le> 528 \<and> 16 \<le> length (wire x)"
  by (cases x) simp

lemma file_holds_write:
  assumes holds: "file_holds m r ms" and sound: "list_all sound_message ms"
    and room: "length ms < 64" and bs: "wire x = bs" "length bs \<le> 528"
  shows "file_holds (file_splice m ((r + length ms) mod 64 * 528) bs) r (ms @ [x])"
  unfolding file_holds_def
proof (intro allI impI)
  fix i assume i: "i < length (ms @ [x])"
  show "file_bytes (file_splice m ((r + length ms) mod 64 * 528) bs) ((r + i) mod 64)
      (length (wire ((ms @ [x]) ! i))) = wire ((ms @ [x]) ! i)"
  proof (cases "i = length ms")
    case True
    with bs(1) show ?thesis
      by (simp add: file_bytes_same)
  next
    case False
    with i have lt: "i < length ms" by simp
    then have other: "(r + length ms) mod 64 \<noteq> (r + i) mod 64"
      using ring_positions_differ [OF lt room] by metis
    have len: "length (wire (ms ! i)) \<le> 528" "0 < length (wire (ms ! i))"
      using length_wire [of "ms ! i"] sound lt by (auto simp: list_all_length)
    have "file_bytes m ((r + i) mod 64) (length (wire (ms ! i))) = wire (ms ! i)"
      using holds lt by (simp add: file_holds_def)
    with file_bytes_other [OF other bs(2) len] lt show ?thesis
      by (simp add: nth_append)
  qed
qed

lemma file_holds_tail:
  assumes "file_holds m r (x # ms)"
  shows "file_holds m ((r + 1) mod 64) ms"
proof -
  have "((r + 1) mod 64 + i) mod 64 = (r + Suc i) mod 64" for i
    by (simp add: mod_add_left_eq)
  with assms show ?thesis
    by (fastforce simp: file_holds_def)
qed

section \<open>What a write and a read make of a slot\<close>

text \<open>The stream of an attached handler after it moved to its slot.\<close>

definition at_slot :: "shared_file \<Rightarrow> file_stream" where
  "at_slot s = (fstream_clear (sf_file s))\<lparr>fs_pos := nat (sf_offset s) * 528\<rparr>"

lemma at_slot_simps [simp]:
  "fs_handle (at_slot s) = fs_handle (sf_file s)" "fs_pending (at_slot s) = fs_pending (sf_file s)"
  "fs_pos (at_slot s) = nat (sf_offset s) * 528" "fstream_good (at_slot s)"
  "\<not> fstream_failed (at_slot s)"
  by (simp_all add: at_slot_def fstream_clear_def fstream_good_def fstream_failed_def)

lemma file_write_slot:
  assumes "length (sf_buffer s) = 528" and handle: "fs_handle (sf_file s) = Some h"
    and pending: "fs_pending (sf_file s) = []"
    and clock: "os_clock K w = (ts, w1)"
    and seek: "os_fseek K h (nat (sf_offset s) * 528) w1 = (True, w2)"
    and wait: "os_sem_wait K (sf_writer s) w2 = (res, w3)"
    and flush: "os_fwrite K h (nat (sf_offset s) * 528) (message_bytes (sf_last_id s + 1) ts obj) w3 =
      (ok, w4)"
  shows "file_write K obj (s, w) =
    (let ident = sf_last_id s + 1; bs = message_bytes ident ts obj;
         s' = s\<lparr>sf_last_id := ident, sf_buffer := staged ident ts obj (sf_buffer s)\<rparr> in
     if 512 < length (object_bytes obj) then Inr (False, s, w1)
     else if res \<noteq> None then Inr (False, s'\<lparr>sf_file := at_slot s\<rparr>, w3)
     else Inr (True,
       s'\<lparr>sf_file := if ok then (at_slot s)\<lparr>fs_pos := nat (sf_offset s) * 528 + length bs\<rparr>
                     else (at_slot s)\<lparr>fs_pending := bs, fs_bad := True\<rparr>,
          sf_offset := (sf_offset s + 1) mod 64\<rparr>,
       os_sem_post K (sf_reader s) w4))"
proof -
  have moved: "fstream_seek K (nat (sf_offset s) * 528) (fstream_clear (sf_file s)) w1 = (at_slot s, w2)"
    using fstream_seek_clean [of "sf_file s" h, OF handle pending seek] by (simp add: at_slot_def)
  have opened: "fstream_is_open (sf_file s)"
    by (simp add: fstream_is_open_def handle)
  show ?thesis
  proof (cases "length (object_bytes obj) \<le> 512")
    case True
    let ?bs = "message_bytes (sf_last_id s + 1) ts obj"
    have written: "fstream_write K ?bs (at_slot s) w3 = ((at_slot s)\<lparr>fs_pending := ?bs\<rparr>, w3)"
      by (rule fstream_write_clean) (use True in \<open>simp_all add: pending filebuf_size_def\<close>)
    have ne: "?bs \<noteq> []"
      using length_message_bytes [of "sf_last_id s + 1" ts obj] by (metis list.size(3) add_is_0 zero_neq_numeral)
    have flushed: "fstream_flush K ((at_slot s)\<lparr>fs_pending := ?bs\<rparr>) w3 =
        (if ok then (at_slot s)\<lparr>fs_pos := nat (sf_offset s) * 528 + length ?bs\<rparr>
         else (at_slot s)\<lparr>fs_pending := ?bs, fs_bad := True\<rparr>, w4)"
      using flush ne handle pending
      by (simp add: fstream_flush_def fstream_sync_def at_slot_def fstream_good_def fstream_clear_def)
    have "\<not> fstream_failed ((at_slot s)\<lparr>fs_pending := ?bs\<rparr>)"
      by (simp add: at_slot_def fstream_failed_def fstream_clear_def)
    with True show ?thesis
      unfolding file_write_eq [OF assms(1) opened clock moved wait]
      by (simp add: written flushed Let_def)
  next
    case False
    then show ?thesis
      unfolding file_write_eq [OF assms(1) opened clock moved wait]
      by (simp add: Let_def)
  qed
qed

lemma file_read_slot:
  assumes "length (sf_buffer s) = 528" and handle: "fs_handle (sf_file s) = Some h"
    and pending: "fs_pending (sf_file s) = []"
    and "os_sem_trywait K (sf_reader s) w = (None, w1)"
    and seek: "os_fseek K h (nat (sf_offset s) * 528) w1 = (True, w2)"
    and fread: "os_fread K h (nat (sf_offset s) * 528) 528 w2 = (Some bytes, w3)"
    and short: "length bytes \<le> 528"
  shows "file_read K (s, w) =
    (let buf = bytes @ drop (length bytes) (sf_buffer s);
         hd = header_of_bytes (take 16 buf);
         size = unat (h_body_size hd);
         eof = length bytes < 528 in
     if size \<le> 512
     then Inr (of_body hd (decode_object (h_type hd) (take size (drop 16 buf))),
       s\<lparr>sf_file := (at_slot s)\<lparr>fs_pos := nat (sf_offset s) * 528 + length bytes, fs_fail := eof,
            fs_eof := eof\<rparr>,
         sf_buffer := buf, sf_offset := (sf_offset s + 1) mod 64\<rparr>, os_sem_post K (sf_writer s) w3)
     else Inl Assertion_Failed)"
proof -
  define buf where "buf = bytes @ drop (length bytes) (sf_buffer s)"
  define f where "f = (at_slot s)\<lparr>fs_pos := nat (sf_offset s) * 528 + length bytes,
    fs_fail := length bytes < 528, fs_eof := length bytes < 528\<rparr>"
  let ?h = "header_of_bytes (take 16 buf)"
  have moved: "fstream_seek K (nat (sf_offset s) * 528) (fstream_clear (sf_file s)) w1 = (at_slot s, w2)"
    using fstream_seek_clean [of "sf_file s" h, OF handle pending seek] by (simp add: at_slot_def)
  have opened: "fstream_is_open (sf_file s)"
    by (simp add: fstream_is_open_def handle)
  have "os_fread K h (fs_pos (at_slot s)) 528 w2 = (Some bytes, w3)"
    using fread by simp
  from fstream_read_clean [OF _ _ _ this short] have got: "fstream_read K 528 (at_slot s) w2 = (bytes, f, w3)"
    by (simp add: handle pending f_def)
  have state: "\<not> (fstream_failed f \<and> \<not> fs_eof f)"
    by (simp add: f_def fstream_failed_def at_slot_def fstream_clear_def)
  have store: "mem_store (sf_buffer s) 0 bytes = Inr buf"
    using assms(1) short by (simp add: mem_store_ok buf_def)
  have len: "length buf = 528"
    using assms(1) short by (simp add: buf_def)
  have header: "header_deserialize buf 0 (u32_of_size 16) = Inr (Some ?h)"
    by (rule deserialize_header [OF len])
  show ?thesis
  proof (cases "unat (h_body_size ?h) \<le> 512")
    case True
    then have "deserialize_data_object t buf 16 (ucast (h_body_size ?h)) =
        Inr (decode_object t (take (unat (h_body_size ?h)) (drop 16 buf)))" for t
      using len by (subst deserialize_data_object_bytes) (simp_all add: region_def)
    with True assms(4) opened state show ?thesis
      by (cases "fs_eof f")
        (simp_all add: file_read_def moved got store header Let_def f_def [symmetric] buf_def [symmetric])
  next
    case False
    with assms(4) opened state show ?thesis
      by (cases "fs_eof f") (simp_all add: file_read_def moved got store header Let_def buf_def [symmetric])
  qed
qed

section \<open>The file is a reliable channel\<close>

context file_ring_os
begin

lemma send_file:
  assumes "file_carries handles rsem wsem view c ms"
  shows "\<exists>ok c' h. channel_send (file_iface K) obj c = Inr (ok, c') \<and>
    (ok \<longrightarrow> file_pair_seq c' = file_pair_seq c + 1 \<and> h_id h = file_pair_seq c' \<and>
      file_carries handles rsem wsem view c' (ms @ [(h, obj)])) \<and>
    (\<not> ok \<longrightarrow> file_carries handles rsem wsem view c' ms)"
proof -
  obtain sw sr w where c: "c = (sw, sr, w)" by (metis prod_cases3)
  obtain m f v where view: "view w = (m, f, v)" by (metis prod_cases3)
  obtain a where a: "fs_handle (sf_file sw) = Some a" "a \<in> handles"
    and ptr: "sf_writer sw \<in> wsem" "sf_reader sw \<in> rsem"
    and sw: "length (sf_buffer sw) = 528" "fs_pending (sf_file sw) = []"
      "0 \<le> sf_offset sw" "sf_offset sw < 64"
    using assms by (auto simp: c file_carries_def file_attached_def)
  have ring: "f = length ms" "f + v = 64" "file_holds m (nat (sf_offset sr)) ms"
    and sound: "list_all sound_message ms"
    and wo: "nat (sf_offset sw) = (nat (sf_offset sr) + length ms) mod 64"
    using assms by (simp_all add: c file_carries_def view)
  let ?pos = "nat (sf_offset sw) * 528"
  obtain ts w1 where clock: "os_clock K w = (ts, w1)" by (cases "os_clock K w")
  obtain w2 where seek: "os_fseek K a ?pos w1 = (True, w2)" and "view w2 = view w1"
    using fseek_view [OF a(2)] by blast
  with clock_view [OF clock] view have view2: "view w2 = (m, f, v)" by simp
  obtain res w3 where wait: "os_sem_wait K (sf_writer sw) w2 = (res, w3)" by fastforce
  note waited = wait_view [OF ptr(1) view2 wait]
  let ?bs = "message_bytes (sf_last_id sw + 1) ts obj"
  obtain m' f' v' where view3: "view w3 = (m', f', v')" by (metis prod_cases3)
  obtain w4 where put: "os_fwrite K a ?pos ?bs w3 = (True, w4)"
    and view4: "view w4 = (file_splice m' ?pos ?bs, f', v')"
    using fwrite_view [OF a(2) view3] by blast
  note write_eq = file_write_slot [OF sw(1) a(1) sw(2) clock seek wait put]
  define h where "h = header_of (sf_last_id sw + 1) ts obj"
  show ?thesis
  proof (cases "length (object_bytes obj) \<le> 512 \<and> res = None")
    case True
    then have room: "length ms < 64" and kept: "m' = m" "f' = f" "v' = v - 1" "0 < v"
      using waited ring(1,2) view3 by auto
    have wire: "wire (h, obj) = ?bs" "length ?bs \<le> 528"
      using True by (simp_all add: h_def message_bytes_def)
    define sw' where "sw' = sw\<lparr>sf_last_id := sf_last_id sw + 1,
      sf_buffer := staged (sf_last_id sw + 1) ts obj (sf_buffer sw),
      sf_file := (at_slot sw)\<lparr>fs_pos := ?pos + length ?bs\<rparr>,
      sf_offset := (sf_offset sw + 1) mod 64\<rparr>"
    define w5 where "w5 = os_sem_post K (sf_reader sw) w4"
    have sent: "channel_send (file_iface K) obj c = Inr (True, sw', sr, w5)"
      using True by (simp add: c channel_send_def write_eq Let_def sw'_def w5_def)
    have view5: "view w5 = (file_splice m ?pos ?bs, f + 1, v - 1)"
      unfolding w5_def by (rule post_reader_view [OF ptr(2) view4 [unfolded kept]])
    have "file_holds (file_splice m ?pos ?bs) (nat (sf_offset sr)) (ms @ [(h, obj)])"
      unfolding wo by (rule file_holds_write [OF ring(3) sound room wire])
    moreover have "nat (sf_offset sw') = (nat (sf_offset sr) + length (ms @ [(h, obj)])) mod 64"
      using next_offset [OF sw(3,4)] by (simp add: wo mod_Suc_eq sw'_def)
    moreover have "file_attached handles rsem wsem sw'"
      using assms True by (simp add: c file_carries_def file_attached_def sw'_def)
    moreover have "sound_message (h, obj)"
      using True by (simp add: h_def)
    ultimately have "file_carries handles rsem wsem view (sw', sr, w5) (ms @ [(h, obj)])"
      using assms ring(1,2) kept(4)
      by (simp add: c file_carries_def view5 del: sound_message.simps)
    moreover have "file_pair_seq (sw', sr, w5) = file_pair_seq c + 1"
      and "h_id h = file_pair_seq (sw', sr, w5)"
      by (simp_all add: c file_pair_seq_def sw'_def h_def)
    ultimately show ?thesis
      using sent by blast
  next
    case False
    have "view w1 = (m, f, v)"
      using clock_view [OF clock] view by simp
    moreover have "view w3 = (m, f, v)" if "res \<noteq> None"
      using waited that view2 by simp
    ultimately show ?thesis
      using False assms view sw a
      by (intro exI [of _ False])
        (auto simp: c channel_send_def write_eq Let_def file_carries_def file_attached_def)
  qed
qed

lemma receive_file:
  assumes "file_carries handles rsem wsem view c (x # ms)"
  shows "\<exists>c'. channel_receive (file_iface K) c = Some (Inr (Inr x, c')) \<and>
    file_pair_seq c' = file_pair_seq c \<and> file_carries handles rsem wsem view c' ms"
proof -
  obtain sw sr w where c: "c = (sw, sr, w)" by (metis prod_cases3)
  obtain h obj where x: "x = (h, obj)" by (cases x)
  obtain m f v where view: "view w = (m, f, v)" by (metis prod_cases3)
  obtain a where a: "fs_handle (sf_file sr) = Some a" "a \<in> handles"
    and ptr: "sf_writer sr \<in> wsem" "sf_reader sr \<in> rsem"
    and sr: "length (sf_buffer sr) = 528" "fs_pending (sf_file sr) = []"
      "0 \<le> sf_offset sr" "sf_offset sr < 64"
    using assms by (auto simp: c file_carries_def file_attached_def)
  have ring: "f = Suc (length ms)" "f + v = 64"
    and holds: "file_holds m (nat (sf_offset sr)) (x # ms)"
    and wo: "nat (sf_offset sw) = (nat (sf_offset sr) + Suc (length ms)) mod 64"
    and sound: "sound_message x" "list_all sound_message ms"
    using assms by (simp_all add: c file_carries_def view)
  let ?j = "nat (sf_offset sr)"
  from trywait_view [OF ptr(2) view] ring(1) obtain w1
    where wait: "os_sem_trywait K (sf_reader sr) w = (None, w1)" and view1: "view w1 = (m, f - 1, v)"
    by auto
  obtain w2 where seek: "os_fseek K a (?j * 528) w1 = (True, w2)" and "view w2 = view w1"
    using fseek_view [OF a(2)] by blast
  with view1 have view2: "view w2 = (m, f - 1, v)" by simp
  let ?bytes = "take 528 (drop (?j * 528) m)"
  obtain w3 where fread: "os_fread K a (?j * 528) 528 w2 = (Some ?bytes, w3)" and "view w3 = view w2"
    using fread_view [OF a(2) view2] by blast
  with view2 have view3: "view w3 = (m, f - 1, v)" by simp
  have short: "length ?bytes \<le> 528" by simp
  have slot: "file_bytes m ?j (length (wire x)) = wire x"
    using holds sr(3,4) by (auto simp: file_holds_def dest: spec [of _ 0])
  obtain pad where bytes: "?bytes = wire x @ pad"
  proof
    have "wire x = take (length (wire x)) ?bytes"
      using slot length_wire [OF sound(1)] by (simp add: file_bytes_def min_absorb1)
    then show "?bytes = wire x @ drop (length (wire x)) ?bytes"
      by (metis append_take_drop_id)
  qed
  define sr' where "sr' = sr\<lparr>sf_file := (at_slot sr)\<lparr>fs_pos := ?j * 528 + length ?bytes,
      fs_fail := length ?bytes < 528, fs_eof := length ?bytes < 528\<rparr>,
    sf_buffer := ?bytes @ drop (length ?bytes) (sf_buffer sr),
    sf_offset := (sf_offset sr + 1) mod 64\<rparr>"
  have result: "file_read K (sr, w) = Inr (Inr x, sr', os_sem_post K (sf_writer sr) w3)"
    using sound(1) unfolding file_read_slot [OF sr(1) a(1) sr(2) wait seek fread short]
    by (simp add: bytes x Let_def sr'_def)
  have "view (os_sem_post K (sf_writer sr) w3) = (m, length ms, v + 1)"
    using post_writer_view [OF ptr(1) view3] ring(1) by simp
  moreover have "nat (sf_offset sw) = (nat ((sf_offset sr + 1) mod 64) + length ms) mod 64"
    using next_offset [OF sr(3,4)] by (simp add: wo mod_add_left_eq)
  moreover have "file_holds m (nat ((sf_offset sr + 1) mod 64)) ms"
    using file_holds_tail [OF holds] next_offset [OF sr(3,4)] by simp
  moreover have "file_attached handles rsem wsem sr'"
    using a ptr sr by (simp add: file_attached_def sr'_def)
  ultimately show ?thesis
    using assms ring(1,2) sound(2)
    by (simp add: c channel_receive_def result file_pair_seq_def file_carries_def)
      (simp add: sr'_def)
qed

lemma receive_file_empty:
  assumes "file_carries handles rsem wsem view c []"
  shows "\<exists>c'. channel_receive (file_iface K) c = Some (Inr (Inl NO_DATA_AVAILABLE, c')) \<and>
    file_pair_seq c' = file_pair_seq c \<and> file_carries handles rsem wsem view c' []"
proof -
  obtain sw sr w where c: "c = (sw, sr, w)" by (metis prod_cases3)
  obtain m f v where view: "view w = (m, f, v)" by (metis prod_cases3)
  have ptr: "sf_reader sr \<in> rsem" "fstream_is_open (sf_file sr)" "f = 0"
    using assms by (auto simp: c file_carries_def file_attached_def view fstream_is_open_def)
  from trywait_view [OF ptr(1) view] ptr(3) obtain w1
    where "os_sem_trywait K (sf_reader sr) w = (Some EAGAIN, w1)" "view w1 = view w"
    using view by auto
  with assms ptr show ?thesis
    by (auto simp: c channel_receive_def file_read_def file_pair_seq_def file_carries_def)
qed

end

sublocale file_ring_os \<subseteq> filering: message_channel "channel_send (file_iface K)"
  "channel_receive (file_iface K)" "file_carries handles rsem wsem view" file_pair_seq "\<lambda>_. 0"
proof (unfold_locales, goal_cases)
  case (1 c ms obj)
  from send_file [OF 1] show ?case by blast
next
  case (2 c m ms)
  from receive_file [OF 2] show ?case by blast
next
  case (3 c)
  from receive_file_empty [OF 3] show ?case by blast
next
  case (4 c ms obj c')
  from send_file [OF 4(1), of obj] 4(2) show ?case by auto
next
  case (5 c ms obj c')
  from send_file [OF 5(1), of obj] 5(2) show ?case by auto
qed

section \<open>Sessions\<close>

context file_ring_os
begin

lemma file_session_run:
  assumes "file_carries handles rsem wsem view c []"
  shows "\<exists>n s. channel_run (channel_send (file_iface K)) (channel_receive (file_iface K))
      (as @ replicate n Receive) (start_run c) = Some (Inr s) \<and>
    map snd (rs_received s) = rs_sent s \<and>
    (rs_failed s = 0 \<longrightarrow>
       map (h_id \<circ> fst) (rs_received s) = numbers (file_pair_seq c) (length (rs_sent s))) \<and>
    set (rs_errors s) \<subseteq> {NO_DATA_AVAILABLE}"
  by (rule filering.run_then_drain [OF assms])

end

lemma file_opened:
  assumes "file_open K (file_new path server, w) = (True, s, w')"
  shows "length (sf_buffer s) = 528 \<and> sf_last_id s = 0 \<and> sf_offset s = 0 \<and>
    fs_pending (sf_file s) = []"
  using assms
  by (auto simp: file_open_def file_new_def fstream_fopen_def fstream_closed_def fstream_is_open_def
      Let_def split: prod.splits if_splits)

text \<open>An executable reference kernel with one file, handle 7, and two semaphores, at addresses 2 and 3.\<close>

record file_kernel =
  fk_time :: u64
  fk_data :: "byte list"
  fk_filled :: nat
  fk_free :: nat

definition file_calls :: "file_kernel file_os" where
  "file_calls = \<lparr>
     os_clock = (\<lambda>k. (fk_time k, k\<lparr>fk_time := fk_time k + 1\<rparr>)),
     os_poll = (\<lambda>_ _ k. (0, k)),
     os_sem_unlink = (\<lambda>_ k. k),
     os_sem_open = (\<lambda>name flag n k.
       if last name = CHR ''r''
       then (Some 2, if flag = [] then k else k\<lparr>fk_filled := n\<rparr>)
       else (Some 3, if flag = [] then k else k\<lparr>fk_free := n\<rparr>)),
     os_sem_close = (\<lambda>_ k. k),
     os_realtime = (\<lambda>k. (Some (0, 0), k)),
     os_sem_wait = (\<lambda>p k.
       if p = Some 3 \<and> 0 < fk_free k then (None, k\<lparr>fk_free := fk_free k - 1\<rparr>)
       else (Some (Other_Errno 4), k)),
     os_sem_trywait = (\<lambda>p k.
       if p = Some 2 \<and> 0 < fk_filled k then (None, k\<lparr>fk_filled := fk_filled k - 1\<rparr>)
       else (Some EAGAIN, k)),
     os_sem_timedwait = (\<lambda>p _ k.
       if p = Some 2 \<and> 0 < fk_filled k then (None, k\<lparr>fk_filled := fk_filled k - 1\<rparr>)
       else (Some ETIMEDOUT, k)),
     os_sem_post = (\<lambda>p k.
       if p = Some 2 then k\<lparr>fk_filled := fk_filled k + 1\<rparr> else k\<lparr>fk_free := fk_free k + 1\<rparr>),
     os_sem_getvalue = (\<lambda>p k. Some (int (if p = Some 2 then fk_filled k else fk_free k))),
     os_remove_file = (\<lambda>_ k. k),
     os_fopen = (\<lambda>_ trunc k. (Some 7, if trunc then k\<lparr>fk_data := []\<rparr> else k)),
     os_fclose = (\<lambda>_ k. k),
     os_fseek = (\<lambda>_ _ k. (True, k)),
     os_fwrite = (\<lambda>_ pos bs k. (True, k\<lparr>fk_data := file_splice (fk_data k) pos bs\<rparr>)),
     os_fread = (\<lambda>_ pos n k. (Some (take n (drop pos (fk_data k))), k))\<rparr>"

definition file_view :: "file_kernel \<Rightarrow> byte list \<times> nat \<times> nat" where
  "file_view k = (fk_data k, fk_filled k, fk_free k)"

definition file_boot :: file_kernel where
  "file_boot = \<lparr>fk_time = 1000, fk_data = [], fk_filled = 0, fk_free = 0\<rparr>"

interpretation kernel_file: file_ring_os file_calls "{7}" "{Some 2}" "{Some 3}" file_view
  by unfold_locales (auto simp: file_calls_def file_view_def split: if_splits)

text \<open>C4. The shared file end to end: after the server created the file and the client opened it, any
  interleaving of writes and reads neither faults nor hangs, a write never overwrites a message that
  has not been read, and a finite number of further reads delivers exactly the objects whose write
  returned true, in order, unchanged, and numbered consecutively if no write failed - although a
  slot at the end of the file is read short and the end-of-file bits have to be cleared each time.\<close>

theorem file_delivers:
  assumes "file_ring_os K handles rsem wsem view"
    and "file_open K (file_new path True, w) = (True, sr, w1)"
    and "file_open K (file_new path False, w1) = (True, sw, w2)"
    and "fs_handle (sf_file sr) \<in> Some ` handles" and "sf_reader sr \<in> rsem" and "sf_writer sr \<in> wsem"
    and "fs_handle (sf_file sw) \<in> Some ` handles" and "sf_reader sw \<in> rsem" and "sf_writer sw \<in> wsem"
    and "view w2 = (m, 0, 64)"
  shows "\<exists>n s. channel_run (channel_send (file_iface K)) (channel_receive (file_iface K))
      (as @ replicate n Receive) (start_run (sw, sr, w2)) = Some (Inr s) \<and>
    map snd (rs_received s) = rs_sent s \<and>
    (rs_failed s = 0 \<longrightarrow> map (h_id \<circ> fst) (rs_received s) = numbers 0 (length (rs_sent s))) \<and>
    set (rs_errors s) \<subseteq> {NO_DATA_AVAILABLE}"
  using file_ring_os.file_session_run [OF assms(1), of "(sw, sr, w2)" as]
    file_opened [OF assms(2)] file_opened [OF assms(3)] assms(4-10)
  by (simp add: file_carries_def file_pair_seq_def file_attached_def)

theorem file_delivers_witness:
  "let (_, sr, w1) = file_open file_calls (file_new ''/tmp/ipc'' True, file_boot);
       (_, sw, w2) = file_open file_calls (file_new ''/tmp/ipc'' False, w1)
   in \<exists>n s. channel_run (channel_send (file_iface file_calls)) (channel_receive (file_iface file_calls))
      ([Send Ping, Receive, Send Ping] @ replicate n Receive) (start_run (sw, sr, w2)) = Some (Inr s) \<and>
    map snd (rs_received s) = rs_sent s \<and>
    (rs_failed s = 0 \<longrightarrow> map (h_id \<circ> fst) (rs_received s) = numbers 0 (length (rs_sent s))) \<and>
    set (rs_errors s) \<subseteq> {NO_DATA_AVAILABLE}"
proof -
  obtain sr w1 where
    r: "file_open file_calls (file_new ''/tmp/ipc'' True, file_boot) = (True, sr, w1)"
      "fs_handle (sf_file sr) \<in> Some ` {7}" "sf_reader sr \<in> {Some 2}" "sf_writer sr \<in> {Some 3}"
      "w1 = file_boot\<lparr>fk_filled := 0, fk_free := 64\<rparr>"
    by (simp add: file_open_def file_new_def file_calls_def fstream_fopen_def fstream_closed_def
        fstream_is_open_def file_boot_def Let_def)
  obtain sw w2 where
    s: "file_open file_calls (file_new ''/tmp/ipc'' False, w1) = (True, sw, w2)"
      "fs_handle (sf_file sw) \<in> Some ` {7}" "sf_reader sw \<in> {Some 2}" "sf_writer sw \<in> {Some 3}" "w2 = w1"
    by (simp add: file_open_def file_new_def file_calls_def fstream_fopen_def fstream_closed_def
        fstream_is_open_def Let_def)
  have v: "file_view w2 = ([], 0, 64)"
    by (simp add: s(5) r(5) file_view_def file_boot_def)
  show ?thesis
    using file_delivers [OF kernel_file.file_ring_os_axioms r(1) s(1) r(2-4) s(2-4) v]
    by (simp only: r(1) s(1) Let_def case_prod_conv)
qed

text \<open>C31. A read of an arbitrary slot of the file: whatever bytes the file holds, and however few, the
  read stays inside of the buffer, moves on to the next slot and frees the one it read; what it
  returns is determined by those bytes, completed by what the buffer held before, and only a header
  that announces more than a slot holds ends the reader.\<close>

theorem file_read_spec:
  assumes "file_inv (s, w)" and "fs_handle (sf_file s) = Some h" and "fs_pending (sf_file s) = []"
    and "os_sem_trywait K (sf_reader s) w = (None, w1)"
    and "os_fseek K h (nat (sf_offset s) * BUFFER_SIZE) w1 = (True, w2)"
    and "os_fread K h (nat (sf_offset s) * BUFFER_SIZE) BUFFER_SIZE w2 = (Some bytes, w3)"
    and "length bytes \<le> BUFFER_SIZE"
  shows "let buf = bytes @ drop (length bytes) (sf_buffer s);
       hd = header_of_bytes (take sizeof_header buf); size = unat (h_body_size hd) in
     if size \<le> body_capacity
     then \<exists>f. file_read K (s, w) =
       Inr (of_body hd (decode_object (h_type hd) (take size (drop sizeof_header buf))),
         s\<lparr>sf_file := f, sf_buffer := buf, sf_offset := (sf_offset s + 1) mod FILE_TOTAL_AMOUNT\<rparr>,
         os_sem_post K (sf_writer s) w3)
     else file_read K (s, w) = Inl Assertion_Failed"
proof -
  have "length (sf_buffer s) = 528"
    using assms(1) by (simp add: file_inv_def)
  note read = file_read_slot [OF this assms(2-4) assms(5-7) [unfolded BUFFER_SIZE_val]]
  show ?thesis
    unfolding read sizeof_header_val body_capacity_val FILE_TOTAL_AMOUNT_val Let_def
    by simp blast
qed

definition file_overlong :: "byte list" where
  "file_overlong =
     header_bytes \<lparr>h_id = 1, h_type = BINARY_DATA, h_body_size = 600, h_timestamp = 0\<rparr> @ [1, 2, 3]"

theorem file_read_spec_witness:
  "file_read file_calls ((file_new ''/tmp/ipc'' True)\<lparr>sf_file := fstream_closed\<lparr>fs_handle := Some 7\<rparr>,
       sf_reader := Some 2, sf_writer := Some 3\<rparr>,
     file_boot\<lparr>fk_data := file_overlong, fk_filled := 1, fk_free := 63\<rparr>) = Inl Assertion_Failed"
proof -
  let ?s = "(file_new ''/tmp/ipc'' True)\<lparr>sf_file := fstream_closed\<lparr>fs_handle := Some 7\<rparr>,
    sf_reader := Some 2, sf_writer := Some 3\<rparr>"
  let ?w = "file_boot\<lparr>fk_data := file_overlong, fk_filled := 1, fk_free := 63\<rparr>"
  let ?w1 = "file_boot\<lparr>fk_data := file_overlong, fk_filled := 0, fk_free := 63\<rparr>"
  have len: "length file_overlong = 19"
    by (simp add: file_overlong_def)
  have "file_inv (?s, ?w)" "fs_handle (sf_file ?s) = Some 7" "fs_pending (sf_file ?s) = []"
    "os_sem_trywait file_calls (sf_reader ?s) ?w = (None, ?w1)"
    "os_fseek file_calls 7 (nat (sf_offset ?s) * BUFFER_SIZE) ?w1 = (True, ?w1)"
    "os_fread file_calls 7 (nat (sf_offset ?s) * BUFFER_SIZE) BUFFER_SIZE ?w1 = (Some file_overlong, ?w1)"
    "length file_overlong \<le> BUFFER_SIZE"
    by (simp_all add: file_inv_def file_new_def file_calls_def fstream_closed_def len)
  note spec = file_read_spec [OF this]
  have "header_of_bytes (take 16 (file_overlong @ drop (length file_overlong) (sf_buffer ?s))) =
      \<lparr>h_id = 1, h_type = BINARY_DATA, h_body_size = 600, h_timestamp = 0\<rparr>"
    by (simp add: file_overlong_def)
  with spec show ?thesis
    by (simp add: Let_def)
qed

text \<open>The three steps of a write on the stream, in terms of the calls on the file.\<close>

lemma fstream_seek_cases:
  assumes "fs_handle f = Some h" and "fstream_good f"
    and "(if fs_pending f = [] then (True, w) else os_fwrite K h (fs_pos f) (fs_pending f) w) = (kept, w1)"
    and "os_fseek K h pos w1 = (moved, w2)"
  shows "fstream_seek K pos f w =
    (if \<not> kept then (f\<lparr>fs_fail := True\<rparr>, w1)
     else if \<not> moved then
       (f\<lparr>fs_pos := fs_pos f + length (fs_pending f), fs_pending := [], fs_fail := True\<rparr>, w2)
     else (f\<lparr>fs_pos := pos, fs_pending := []\<rparr>, w2))"
proof -
  have "\<not> fstream_failed f"
    using assms(2) by (simp add: fstream_good_def fstream_failed_def)
  with assms show ?thesis
    by (cases "fs_pending f = []"; cases kept)
      (auto simp: fstream_seek_def fstream_sync_def)
qed

lemma fstream_flush_cases:
  assumes "fs_handle f = Some h" and "fstream_good f" and "fs_pending f = []" and "bs \<noteq> []"
    and "os_fwrite K h (fs_pos f) bs w = (ok, w1)"
  shows "fstream_flush K (f\<lparr>fs_pending := bs\<rparr>) w =
    (if ok then f\<lparr>fs_pos := fs_pos f + length bs\<rparr> else f\<lparr>fs_pending := bs, fs_bad := True\<rparr>, w1)"
  using assms by (simp add: fstream_flush_def fstream_sync_def fstream_good_def)

lemma file_write_calls:
  assumes len: "length (sf_buffer s) = 528" and some: "fs_handle (sf_file s) = Some h"
    and clock: "os_clock K w = (ts, w1)" and f: "f = fstream_clear (sf_file s)"
    and left: "(if fs_pending f = [] then (True, w1) else os_fwrite K h (fs_pos f) (fs_pending f) w1) =
      (kept, w2)"
    and move: "os_fseek K h pos w2 = (moved, w3)" and pos: "pos = nat (sf_offset s) * 528"
    and wait: "os_sem_wait K (sf_writer s) w3 = (res, w4)"
    and flush: "os_fwrite K h pos msg w4 = (ok, w5)" and msg: "msg = message_bytes (sf_last_id s + 1) ts obj"
    and s': "s' = s\<lparr>sf_last_id := sf_last_id s + 1, sf_buffer := staged (sf_last_id s + 1) ts obj (sf_buffer s)\<rparr>"
  shows "file_write K obj (s, w) =
    (if 512 < length (object_bytes obj) then Inr (False, s, w1)
     else if \<not> kept then Inr (False, s'\<lparr>sf_file := f\<lparr>fs_fail := True\<rparr>\<rparr>, w2)
     else if \<not> moved then
       Inr (False, s'\<lparr>sf_file := f\<lparr>fs_pos := fs_pos f + length (fs_pending f), fs_pending := [],
         fs_fail := True\<rparr>\<rparr>, w3)
     else if res \<noteq> None then
       Inr (False, s'\<lparr>sf_file := f\<lparr>fs_pos := pos, fs_pending := []\<rparr>\<rparr>, w4)
     else
       Inr (True,
         s'\<lparr>sf_file := (if ok then f\<lparr>fs_pos := pos + length msg, fs_pending := []\<rparr>
                       else f\<lparr>fs_pos := pos, fs_pending := msg, fs_bad := True\<rparr>),
            sf_offset := (sf_offset s + 1) mod 64\<rparr>,
         os_sem_post K (sf_reader s) w5))"
proof -
  have opened: "fstream_is_open (sf_file s)" and handle: "fs_handle f = Some h" "fstream_good f"
    using some by (simp_all add: f fstream_is_open_def)
  note seek = fstream_seek_cases [OF handle left move]
  obtain g v where sought: "fstream_seek K (nat (sf_offset s) * 528) (fstream_clear (sf_file s)) w1 = (g, v)"
    by fastforce
  obtain res' v' where waited: "os_sem_wait K (sf_writer s) v = (res', v')" by fastforce
  note write_eq = file_write_eq [OF len opened clock sought waited, of obj, unfolded Let_def, folded msg]
  show ?thesis
  proof (cases "length (object_bytes obj) \<le> 512 \<and> kept \<and> moved")
    case False
    with sought seek show ?thesis
      by (auto simp: write_eq Let_def s' pos f fstream_failed_def)
  next
    case True
    define g' where "g' = f\<lparr>fs_pos := pos, fs_pending := []\<rparr>"
    from True sought seek have g: "g = g'" "v = w3"
      by (simp_all add: g'_def f pos)
    with waited wait have res': "res' = res" "v' = w4"
      by simp_all
    have good: "fstream_good g'" "fs_handle g' = Some h" "fs_pending g' = []" "\<not> fstream_failed g'"
        "\<not> fstream_failed (g'\<lparr>fs_pending := msg\<rparr>)"
      using handle by (simp_all add: g'_def fstream_good_def fstream_failed_def)
    have fits: "length msg < filebuf_size" "msg \<noteq> []"
      using True length_message_bytes [of "sf_last_id s + 1" ts obj]
      by (auto simp: msg filebuf_size_def simp flip: length_greater_0_conv)
    have written: "fstream_write K msg g' w4 = (g'\<lparr>fs_pending := msg\<rparr>, w4)"
      by (rule fstream_write_clean [OF good(1,3) fits(1)])
    have "os_fwrite K h (fs_pos g') msg w4 = (ok, w5)"
      using flush by (simp add: g'_def)
    note flushed = fstream_flush_cases [OF good(2,1,3) fits(2) this]
    show ?thesis
      using True good by (simp add: write_eq g res' written flushed s' Let_def) (simp add: g'_def)
  qed
qed

text \<open>C33. A write to the shared file, on every branch and for every behaviour of the system calls, down to
  the calls on the file.  A closed handler refuses; an object that does not fit costs only a reading of
  the clock.  Otherwise the sequence number is used up and the message is staged.  The seek first writes
  what an earlier flush has left in the stream's buffer; when that or the seek fails, or the wait for a
  free slot, the write reports failure and the offset stays.  After a successful wait the result is
  always true, the offset moves on and the reader is signalled, whether or not the file took the bytes:
  the check behind \<open>file_.write\<close>, with its \<open>sem_post(writer_)\<close>, never fires, as the message fits the
  stream's buffer, which the seek has left empty, and the result of the flush is not looked at.  So when
  the disk is full the message is lost - or comes late, with the next write - although the write
  reports success.\<close>

theorem file_write_spec:
  assumes "file_inv (s, w)"
  shows "file_write K obj (s, w) =
    (case fs_handle (sf_file s) of
       None \<Rightarrow> Inr (False, s, w)
     | Some h \<Rightarrow>
         let (ts, w1) = os_clock K w;
             ident = sf_last_id s + 1;
             msg = message_bytes ident ts obj;
             pos = nat (sf_offset s) * BUFFER_SIZE;
             s' = s\<lparr>sf_last_id := ident, sf_buffer := staged ident ts obj (sf_buffer s)\<rparr>;
             f = fstream_clear (sf_file s)
         in if body_capacity < length (object_bytes obj) then Inr (False, s, w1)
            else
              let (kept, w2) = (if fs_pending f = [] then (True, w1)
                                else os_fwrite K h (fs_pos f) (fs_pending f) w1);
                  (moved, w3) = os_fseek K h pos w2;
                  (res, w4) = os_sem_wait K (sf_writer s) w3;
                  (ok, w5) = os_fwrite K h pos msg w4
              in if \<not> kept then Inr (False, s'\<lparr>sf_file := f\<lparr>fs_fail := True\<rparr>\<rparr>, w2)
                 else if \<not> moved then
                   Inr (False, s'\<lparr>sf_file := f\<lparr>fs_pos := fs_pos f + length (fs_pending f), fs_pending := [],
                     fs_fail := True\<rparr>\<rparr>, w3)
                 else if res \<noteq> None then
                   Inr (False, s'\<lparr>sf_file := f\<lparr>fs_pos := pos, fs_pending := []\<rparr>\<rparr>, w4)
                 else
                   Inr (True,
                     s'\<lparr>sf_file := (if ok then f\<lparr>fs_pos := pos + length msg, fs_pending := []\<rparr>
                                   else f\<lparr>fs_pos := pos, fs_pending := msg, fs_bad := True\<rparr>),
                        sf_offset := (sf_offset s + 1) mod FILE_TOTAL_AMOUNT\<rparr>,
                     os_sem_post K (sf_reader s) w5))"
proof (cases "fs_handle (sf_file s)")
  case None
  then show ?thesis
    by (simp add: file_write_def fstream_is_open_def)
next
  case (Some h)
  let ?f = "fstream_clear (sf_file s)"
  have len: "length (sf_buffer s) = 528"
    using assms by (simp add: file_inv_def)
  obtain ts w1 where clock: "os_clock K w = (ts, w1)" by (cases "os_clock K w")
  obtain kept w2 where left: "(if fs_pending ?f = [] then (True, w1)
      else os_fwrite K h (fs_pos ?f) (fs_pending ?f) w1) = (kept, w2)" by fastforce
  obtain moved w3 where move: "os_fseek K h (nat (sf_offset s) * 528) w2 = (moved, w3)" by fastforce
  obtain res w4 where wait: "os_sem_wait K (sf_writer s) w3 = (res, w4)" by fastforce
  obtain ok w5 where flush: "os_fwrite K h (nat (sf_offset s) * 528)
      (message_bytes (sf_last_id s + 1) ts obj) w4 = (ok, w5)" by fastforce
  show ?thesis
    unfolding file_write_calls [OF len Some clock refl left move refl wait flush refl refl]
      Some option.case Let_def clock case_prod_conv left BUFFER_SIZE_val move wait flush
      body_capacity_val FILE_TOTAL_AMOUNT_val by (rule refl)
qed

text \<open>
  The witness: a file that takes no bytes.  The first write reports success, the second, whose seek has
  to write what the first has left, reports failure.
\<close>

definition file_full_calls :: "file_kernel file_os" where
  "file_full_calls = file_calls\<lparr>os_fwrite := (\<lambda>_ _ _ k. (False, k))\<rparr>"

definition file_full_writer :: shared_file where
  "file_full_writer = (file_new ''/tmp/ipc'' False)\<lparr>sf_file := fstream_closed\<lparr>fs_handle := Some 7\<rparr>,
     sf_reader := Some 2, sf_writer := Some 3\<rparr>"

theorem file_write_spec_witness:
  "\<exists>s1 s2. file_write file_full_calls Ping
      (file_full_writer, file_boot\<lparr>fk_filled := 0, fk_free := 64\<rparr>) =
      Inr (True, s1, file_boot\<lparr>fk_time := 1001, fk_filled := 1, fk_free := 63\<rparr>) \<and>
    file_write file_full_calls Ping (s1, file_boot\<lparr>fk_time := 1001, fk_filled := 1, fk_free := 63\<rparr>) =
      Inr (False, s2, file_boot\<lparr>fk_time := 1002, fk_filled := 1, fk_free := 63\<rparr>)"
proof -
  have first: "file_inv (file_full_writer, file_boot\<lparr>fk_filled := 0, fk_free := 64\<rparr>)"
    by (simp add: file_inv_def file_full_writer_def file_new_def)
  define s1 where "s1 = file_full_writer\<lparr>sf_last_id := 1,
    sf_buffer := staged 1 1000 Ping (sf_buffer file_full_writer),
    sf_file := (fstream_clear (sf_file file_full_writer))\<lparr>fs_pending := message_bytes 1 1000 Ping, fs_bad := True\<rparr>,
    sf_offset := 1\<rparr>"
  have second: "file_inv (s1, file_boot\<lparr>fk_time := 1001, fk_filled := 1, fk_free := 63\<rparr>)"
    by (simp add: file_inv_def s1_def file_full_writer_def file_new_def)
  have ne: "message_bytes 1 1000 Ping \<noteq> []"
    using length_message_bytes [of 1 1000 Ping] by force
  show ?thesis
  proof (intro exI conjI)
    show "file_write file_full_calls Ping (file_full_writer, file_boot\<lparr>fk_filled := 0, fk_free := 64\<rparr>) =
      Inr (True, s1, file_boot\<lparr>fk_time := 1001, fk_filled := 1, fk_free := 63\<rparr>)"
      unfolding file_write_spec [OF first]
      by (simp add: s1_def file_full_writer_def file_new_def file_full_calls_def file_calls_def
          file_boot_def fstream_closed_def fstream_clear_def)
    show "file_write file_full_calls Ping (s1, file_boot\<lparr>fk_time := 1001, fk_filled := 1, fk_free := 63\<rparr>) =
      Inr (False, s1\<lparr>sf_last_id := 2, sf_buffer := staged 2 1001 Ping (sf_buffer s1),
          sf_file := (fstream_clear (sf_file s1))\<lparr>fs_fail := True\<rparr>\<rparr>,
        file_boot\<lparr>fk_time := 1002, fk_filled := 1, fk_free := 63\<rparr>)"
      unfolding file_write_spec [OF second]
      using ne by (simp add: s1_def file_full_writer_def file_new_def file_full_calls_def file_calls_def
          file_boot_def fstream_closed_def fstream_clear_def)
  qed
qed

end
