(* ===== verification/Text_Numbers.thy ===== *)
theory Text_Numbers
  imports IPC_Prelude
begin

text \<open>
  Numbers as text: the conversions of the standard library that the program uses, \<open>std::to_string\<close>
  and the \<open>std::stoul\<close> family.  An argument that holds no number, or one out of the range of the
  type, throws an exception, which nothing in the program catches.
\<close>

section \<open>Digits\<close>

definition digit_value :: "char \<Rightarrow> nat option" where
  "digit_value c =
     (let n = of_char c :: nat in
      if 48 \<le> n \<and> n \<le> 57 then Some (n - 48)
      else if 97 \<le> n \<and> n \<le> 122 then Some (n - 87)
      else if 65 \<le> n \<and> n \<le> 90 then Some (n - 55)
      else None)"

definition is_digit :: "nat \<Rightarrow> char \<Rightarrow> bool" where
  "is_digit base c \<longleftrightarrow> (case digit_value c of None \<Rightarrow> False | Some d \<Rightarrow> d < base)"

definition digits_value :: "nat \<Rightarrow> string \<Rightarrow> nat" where
  "digits_value base cs = foldl (\<lambda>n c. base * n + the (digit_value c)) 0 cs"

definition digit_char :: "nat \<Rightarrow> char" where
  "digit_char d = char_of (if d < 10 then 48 + d else 87 + d)"

function digits_string :: "nat \<Rightarrow> nat \<Rightarrow> string" where
  "digits_string base n =
     (if base < 2 then [] else if n < base then [digit_char n]
      else digits_string base (n div base) @ [digit_char (n mod base)])"
  by pat_completeness auto

termination digits_string
  by (relation "measure snd") (auto simp: div_less_dividend)

declare digits_string.simps [simp del]

lemma digit_value_digit_char [simp]: "d < 36 \<Longrightarrow> digit_value (digit_char d) = Some d"
  by (simp add: digit_value_def digit_char_def Let_def)

lemma is_digit_digit_char [simp]: "d < base \<Longrightarrow> base \<le> 36 \<Longrightarrow> is_digit base (digit_char d)"
  by (simp add: is_digit_def)

lemma digits_value_snoc:
  "digits_value base (cs @ [c]) = base * digits_value base cs + the (digit_value c)"
  by (simp add: digits_value_def)

lemma digits_string_digits:
  "base \<le> 36 \<Longrightarrow> c \<in> set (digits_string base n) \<Longrightarrow> is_digit base c"
proof (induction base n rule: digits_string.induct)
  case (1 base n)
  from "1.prems"(2) have "c \<in> set (if base < 2 then [] else if n < base then [digit_char n]
      else digits_string base (n div base) @ [digit_char (n mod base)])"
    by (subst (asm) digits_string.simps)
  with 1 show ?case
    by (auto split: if_splits)
qed

lemma digits_value_digits_string:
  assumes "2 \<le> base" and "base \<le> 36"
  shows "digits_value base (digits_string base n) = n"
  using assms
proof (induction base n rule: digits_string.induct)
  case (1 base n)
  show ?case
  proof (cases "n < base")
    case True
    with 1 show ?thesis
      by (subst digits_string.simps) (simp add: digits_value_def)
  next
    case False
    have "n mod base < 36"
      using 1(2,3) mod_less_divisor [of base n] by linarith
    with 1 False show ?thesis
      by (subst digits_string.simps) (simp add: digits_value_snoc)
  qed
qed

lemma digits_string_ne [simp]: "2 \<le> base \<Longrightarrow> digits_string base n \<noteq> []"
  by (subst digits_string.simps) simp

section \<open>Reading a number\<close>

definition is_space :: "char \<Rightarrow> bool" where
  "is_space c \<longleftrightarrow> of_char c = (32 :: nat) \<or> 9 \<le> (of_char c :: nat) \<and> of_char c \<le> (13 :: nat)"

text \<open>
  White space, a sign, and in base 16 a prefix \<open>0x\<close> in front of a digit may precede the digits; what
  follows them is ignored.  The result is the sign and the magnitude, \<open>None\<close> without a digit.
\<close>

fun strip_sign :: "string \<Rightarrow> bool \<times> string" where
  "strip_sign [] = (False, [])"
| "strip_sign (c # cs) =
     (if c = CHR ''-'' then (True, cs) else if c = CHR ''+'' then (False, cs) else (False, c # cs))"

fun strip_hex :: "string \<Rightarrow> string" where
  "strip_hex (a # x # c # cs) =
     (if a = CHR ''0'' \<and> (x = CHR ''x'' \<or> x = CHR ''X'') \<and> is_digit 16 c then c # cs
      else a # x # c # cs)"
| "strip_hex s = s"

definition scan_number :: "nat \<Rightarrow> string \<Rightarrow> (bool \<times> nat) option" where
  "scan_number base s =
     (let (neg, s) = strip_sign (dropWhile is_space s);
          s = (if base = 16 then strip_hex s else s);
          ds = takeWhile (is_digit base) s
      in if ds = [] then None else Some (neg, digits_value base ds))"

text \<open>
  \<open>std::stoul\<close> and \<open>std::stoull\<close>, both 64 bits wide on the target, negate modulo 2 to the 64;
  \<open>std::stoll\<close> is signed.
\<close>

definition stoull :: "nat \<Rightarrow> string \<Rightarrow> u64 res" where
  "stoull base s =
     (case scan_number base s of
        None \<Rightarrow> Inl Uncaught_Exception
      | Some (neg, n) \<Rightarrow>
          if n < 2 ^ 64 then Inr (if neg then - word_of_nat n else word_of_nat n)
          else Inl Uncaught_Exception)"

definition stoll :: "string \<Rightarrow> u64 res" where
  "stoll s =
     (case scan_number 10 s of
        None \<Rightarrow> Inl Uncaught_Exception
      | Some (neg, n) \<Rightarrow>
          let i = (if neg then - int n else int n) in
          if - (2 ^ 63) \<le> i \<and> i < 2 ^ 63 then Inr (word_of_int i) else Inl Uncaught_Exception)"

definition to_string :: "int \<Rightarrow> string" where
  "to_string i = (if i < 0 then CHR ''-'' # digits_string 10 (nat (- i)) else digits_string 10 (nat i))"

section \<open>Reading a printed number\<close>

lemma digit_not_special:
  assumes "is_digit base c"
  shows "\<not> is_space c" and "c \<noteq> CHR ''-''" and "c \<noteq> CHR ''+''"
  using assms by (auto simp: is_digit_def digit_value_def is_space_def Let_def split: if_splits)

lemma takeWhile_digits:
  assumes "\<forall>c \<in> set ds. is_digit base c" and "rest = [] \<or> \<not> is_digit base (hd rest)"
  shows "takeWhile (is_digit base) (ds @ rest) = ds"
  using assms by (cases rest) (auto simp: takeWhile_append)

text \<open>A number as it is printed, followed by anything that is no digit, is read back.\<close>

lemma scan_digits_string:
  assumes "2 \<le> base" and "base \<le> 36" and "base \<noteq> 16" and "rest = [] \<or> \<not> is_digit base (hd rest)"
  shows "scan_number base (digits_string base n @ rest) = Some (False, n)"
proof -
  let ?ds = "digits_string base n"
  have digits: "\<forall>c \<in> set ?ds. is_digit base c"
    using digits_string_digits [OF assms(2)] by blast
  obtain c cs where ds: "?ds = c # cs"
    using digits_string_ne [OF assms(1)] by (cases ?ds) auto
  with digits have "is_digit base c" by simp
  note special = digit_not_special [OF this]
  have "strip_sign (dropWhile is_space (?ds @ rest)) = (False, ?ds @ rest)"
    using special by (simp add: ds)
  with assms takeWhile_digits [OF digits assms(4)] show ?thesis
    by (simp add: scan_number_def digits_value_digits_string)
qed

lemma scan_hex:
  assumes "rest = [] \<or> \<not> is_digit 16 (hd rest)"
  shows "scan_number 16 (''0x'' @ digits_string 16 n @ rest) = Some (False, n)"
proof -
  let ?ds = "digits_string 16 n"
  have digits: "\<forall>c \<in> set ?ds. is_digit 16 c"
    using digits_string_digits [of 16] by simp
  obtain c cs where ds: "?ds = c # cs"
    using digits_string_ne [of 16 n] by (cases ?ds) auto
  with digits have c: "is_digit 16 c" by simp
  have zero: "\<not> is_space CHR ''0''"
    by (simp add: is_space_def)
  have "strip_sign (dropWhile is_space (''0x'' @ ?ds @ rest)) = (False, ''0x'' @ ?ds @ rest)"
    using zero by simp
  moreover have "strip_hex (''0x'' @ ?ds @ rest) = ?ds @ rest"
    using c by (simp add: ds)
  ultimately show ?thesis
    using takeWhile_digits [OF digits assms] by (simp add: scan_number_def digits_value_digits_string)
qed

lemma stoull_digits_string:
  assumes "n < 2 ^ 64" and "rest = [] \<or> \<not> is_digit 10 (hd rest)"
  shows "stoull 10 (digits_string 10 n @ rest) = Inr (word_of_nat n)"
  using assms scan_digits_string [of 10 rest n] by (simp add: stoull_def)

lemma stoull_hex:
  assumes "n < 2 ^ 64"
  shows "stoull 16 (''0x'' @ digits_string 16 n) = Inr (word_of_nat n)"
  using assms scan_hex [of "[]" n] by (simp add: stoull_def)

lemma stoll_to_string:
  assumes "- (2 ^ 63) \<le> i" and "i < 2 ^ 63"
  shows "stoll (to_string i) = Inr (word_of_int i)"
proof (cases "i < 0")
  case True
  let ?ds = "digits_string 10 (nat (- i))"
  have scan: "scan_number 10 ?ds = Some (False, nat (- i))"
    using scan_digits_string [of 10 "[]" "nat (- i)"] by simp
  have digits: "\<forall>c \<in> set ?ds. is_digit 10 c"
    using digits_string_digits [of 10] by simp
  then have all: "takeWhile (is_digit 10) ?ds = ?ds"
    by (simp add: takeWhile_eq_all_conv)
  have "\<not> is_space CHR ''-''"
    by (simp add: is_space_def)
  then have "scan_number 10 (to_string i) = Some (True, nat (- i))"
    using True by (simp add: to_string_def scan_number_def digits_value_digits_string all)
  with True assms show ?thesis
    by (simp add: stoll_def Let_def)
next
  case False
  then have "scan_number 10 (to_string i) = Some (False, nat i)"
    using scan_digits_string [of 10 "[]" "nat i"] by (simp add: to_string_def)
  with False assms show ?thesis
    by (simp add: stoll_def Let_def)
qed

end
