(* ===== verification/DBus.thy ===== *)
theory DBus
  imports Comm_Interface Text_Numbers
begin

text \<open>
  The D-Bus handler (include/handler/dbus.hpp, src/handler/dbus.cpp): every object is the byte array
  argument of a method call, whose object path names the object's type.  State, methods, and the
  contract of \<open>ICommunicationHandler\<close> for every behaviour of the D-Bus library, which is a parameter.
\<close>

section \<open>Constants, state and library\<close>

definition PATH_PREFIX :: string where
  "PATH_PREFIX = ''/ipc/object/''"

definition INTERFACE_NAME :: string where
  "INTERFACE_NAME = ''ipc.object.type''"

definition METHOD_NAME :: string where
  "METHOD_NAME = ''read''"

datatype dbus_type =
  DBUS_TYPE_UINT32 | DBUS_TYPE_INT64 | DBUS_TYPE_ARRAY | DBUS_TYPE_BYTE | Other_Dbus_Type

datatype dispatch_status = DBUS_DISPATCH_DATA_REMAINS | DBUS_DISPATCH_COMPLETE | DBUS_DISPATCH_NEED_MEMORY

definition DBUS_REQUEST_NAME_REPLY_PRIMARY_OWNER :: int where
  "DBUS_REQUEST_NAME_REPLY_PRIMARY_OWNER = 1"

record dbus =
  db_name :: string
  db_server :: bool
  db_con :: "nat option"
  db_last_id :: u32
  db_buffer :: buffer

text \<open>
  The calls of libdbus over a type \<open>'w\<close> of worlds, \<open>'m\<close> of messages and \<open>'i\<close> of argument iterators.  A
  message under construction is passed along, as nothing else refers to it; appending fails when
  memory runs out.  An iterator exists only if there is an argument at its place.
\<close>

record ('w, 'm, 'i) dbus_lib = "'w os_base" +
  dl_bus_get :: "'w \<Rightarrow> nat option \<times> 'w"
  dl_request_name :: "nat \<Rightarrow> string \<Rightarrow> 'w \<Rightarrow> int \<times> 'w"
  dl_release_name :: "nat \<Rightarrow> string \<Rightarrow> 'w \<Rightarrow> 'w"
  dl_flush :: "nat \<Rightarrow> 'w \<Rightarrow> 'w"
  dl_unref_connection :: "nat \<Rightarrow> 'w \<Rightarrow> 'w"
  dl_read_write :: "nat \<Rightarrow> int \<Rightarrow> 'w \<Rightarrow> bool \<times> 'w"
  dl_dispatch_status :: "nat \<Rightarrow> 'w \<Rightarrow> dispatch_status"
  dl_new_method_call :: "string \<Rightarrow> string \<Rightarrow> string \<Rightarrow> string \<Rightarrow> 'w \<Rightarrow> 'm option \<times> 'w"
  dl_set_no_reply :: "bool \<Rightarrow> 'm \<Rightarrow> 'm"
  dl_append_uint32 :: "u32 \<Rightarrow> 'm \<Rightarrow> 'w \<Rightarrow> bool \<times> 'm \<times> 'w"
  dl_append_int64 :: "u64 \<Rightarrow> 'm \<Rightarrow> 'w \<Rightarrow> bool \<times> 'm \<times> 'w"
  dl_open_array :: "'m \<Rightarrow> 'w \<Rightarrow> bool \<times> 'm \<times> 'w"
  dl_append_bytes :: "byte list \<Rightarrow> 'm \<Rightarrow> 'w \<Rightarrow> bool \<times> 'm \<times> 'w"
  dl_close_array :: "'m \<Rightarrow> 'w \<Rightarrow> bool \<times> 'm \<times> 'w"
  dl_send :: "nat \<Rightarrow> 'm \<Rightarrow> 'w \<Rightarrow> bool \<times> 'w"
  dl_unref :: "'m \<Rightarrow> 'w \<Rightarrow> 'w"
  dl_pop_message :: "nat \<Rightarrow> 'w \<Rightarrow> 'm option \<times> 'w"
  dl_is_method_call :: "'m \<Rightarrow> string \<Rightarrow> string \<Rightarrow> bool"
  dl_get_path :: "'m \<Rightarrow> string"
  dl_iter_init :: "'m \<Rightarrow> 'i option"
  dl_iter_next :: "'i \<Rightarrow> 'i option"
  dl_arg_type :: "'i \<Rightarrow> dbus_type"
  dl_element_type :: "'i \<Rightarrow> dbus_type"
  dl_get_uint32 :: "'i \<Rightarrow> u32"
  dl_get_int64 :: "'i \<Rightarrow> u64"
  dl_get_bytes :: "'i \<Rightarrow> byte list"

definition dbus_new :: "string \<Rightarrow> bool \<Rightarrow> dbus" where
  "dbus_new name server =
     \<lparr>db_name = name, db_server = server, db_con = None, db_last_id = 0,
      db_buffer = replicate BUFFER_SIZE 0\<rparr>"

section \<open>Opening and closing\<close>

definition dbus_create_server :: "('w, 'm, 'i) dbus_lib \<Rightarrow> dbus \<times> 'w \<Rightarrow> bool \<times> (dbus \<times> 'w)" where
  "dbus_create_server K = (\<lambda>(s, w).
     let (con, w) = dl_bus_get K w; s = s\<lparr>db_con := con\<rparr> in
     case con of
       None \<Rightarrow> (False, s, w)
     | Some c \<Rightarrow>
         let (ret, w) = dl_request_name K c (db_name s) w in
         (ret = DBUS_REQUEST_NAME_REPLY_PRIMARY_OWNER, s, w))"

definition dbus_create_client :: "('w, 'm, 'i) dbus_lib \<Rightarrow> dbus \<times> 'w \<Rightarrow> bool \<times> (dbus \<times> 'w)" where
  "dbus_create_client K = (\<lambda>(s, w).
     let (con, w) = dl_bus_get K w; s = s\<lparr>db_con := con\<rparr> in
     (con \<noteq> None, s, w))"

definition dbus_close :: "('w, 'm, 'i) dbus_lib \<Rightarrow> dbus \<times> 'w \<Rightarrow> bool \<times> (dbus \<times> 'w)" where
  "dbus_close K = (\<lambda>(s, w).
     case db_con s of
       None \<Rightarrow> (False, s, w)
     | Some c \<Rightarrow>
         let w = (if db_server s then dl_release_name K c (db_name s) w else dl_flush K c w);
             w = dl_unref_connection K c w in
         (True, s\<lparr>db_con := None\<rparr>, w))"

definition dbus_open :: "('w, 'm, 'i) dbus_lib \<Rightarrow> dbus \<times> 'w \<Rightarrow> bool \<times> (dbus \<times> 'w)" where
  "dbus_open K = (\<lambda>(s, w).
     if db_con s \<noteq> None then (True, s, w)
     else
       let (ok, h) = (if db_server s then dbus_create_server K (s, w) else dbus_create_client K (s, w)) in
       if \<not> ok then (False, snd (dbus_close K h)) else (True, h))"

definition dbus_destroy :: "('w, 'm, 'i) dbus_lib \<Rightarrow> dbus \<times> 'w \<Rightarrow> dbus \<times> 'w" where
  "dbus_destroy K = (\<lambda>(s, w). if db_con s \<noteq> None then snd (dbus_close K (s, w)) else (s, w))"

definition dbus_is_open :: "dbus \<times> 'w \<Rightarrow> bool" where
  "dbus_is_open = (\<lambda>(s, w). db_con s \<noteq> None)"

section \<open>Transferring messages\<close>

definition dbus_await_data :: "('w, 'm, 'i) dbus_lib \<Rightarrow> dbus \<times> 'w \<Rightarrow> bool \<times> (dbus \<times> 'w)" where
  "dbus_await_data K = (\<lambda>(s, w).
     case db_con s of
       None \<Rightarrow> (False, s, w)
     | Some c \<Rightarrow>
         let (res, w) = dl_read_write K c WAIT_TIME w in
         if \<not> res then (False, s, w)
         else (dl_dispatch_status K c w = DBUS_DISPATCH_DATA_REMAINS, s, w))"

definition dbus_has_data :: "('w, 'm, 'i) dbus_lib \<Rightarrow> dbus \<times> 'w \<Rightarrow> bool \<times> (dbus \<times> 'w)" where
  "dbus_has_data K = (\<lambda>(s, w).
     case db_con s of
       None \<Rightarrow> (False, s, w)
     | Some c \<Rightarrow>
         let (res, w) = dl_read_write K c 1 w in
         if \<not> res then (False, s, w)
         else (dl_dispatch_status K c w = DBUS_DISPATCH_DATA_REMAINS, s, w))"

text \<open>One step of building the message: when it fails, the message is released and the write ends.\<close>

definition append_then ::
  "('w, 'm, 'i) dbus_lib \<Rightarrow> bool \<times> 'm \<times> 'w \<Rightarrow> ('m \<Rightarrow> 'w \<Rightarrow> bool \<times> 'w) \<Rightarrow> bool \<times> 'w" where
  "append_then K r continue =
     (let (ok, msg, w) = r in if \<not> ok then (False, dl_unref K msg w) else continue msg w)"

definition dbus_send_call ::
  "('w, 'm, 'i) dbus_lib \<Rightarrow> nat \<Rightarrow> u32 \<Rightarrow> u64 \<Rightarrow> byte list \<Rightarrow> 'm \<Rightarrow> 'w \<Rightarrow> bool \<times> 'w" where
  "dbus_send_call K c ident timestamp bytes msg w =
     append_then K (dl_append_uint32 K ident msg w) (\<lambda>msg w.
     append_then K (dl_append_int64 K timestamp msg w) (\<lambda>msg w.
     append_then K (dl_open_array K msg w) (\<lambda>msg w.
     append_then K (dl_append_bytes K bytes msg w) (\<lambda>msg w.
     append_then K (dl_close_array K msg w) (\<lambda>msg w.
       let (ok, w) = dl_send K c msg w in
       if \<not> ok then (False, dl_unref K msg w) else (True, dl_unref K msg w))))))"

definition object_path :: "data_object \<Rightarrow> string" where
  "object_path obj = PATH_PREFIX @ to_string (int (unat (type_code (get_type obj))))"

definition dbus_write ::
  "('w, 'm, 'i) dbus_lib \<Rightarrow> data_object \<Rightarrow> dbus \<times> 'w \<Rightarrow> (bool \<times> (dbus \<times> 'w)) res" where
  "dbus_write K obj = (\<lambda>(s, w).
     case db_con s of
       None \<Rightarrow> Inr (False, s, w)
     | Some c \<Rightarrow>
         let path = object_path obj;
             (timestamp, w) = get_timestamp K w;
             (msg, w) = dl_new_method_call K (db_name s) path INTERFACE_NAME METHOD_NAME w in
         (case msg of
            None \<Rightarrow> Inr (False, s, w)
          | Some msg \<Rightarrow>
              let msg = dl_set_no_reply K True msg in
              and_then (obj_serialize obj (db_buffer s) 0 (u32_of_size BUFFER_SIZE)) (\<lambda>(n, buf).
              let s = s\<lparr>db_buffer := buf\<rparr> in
              if n = - 1 then Inr (False, s, dl_unref K msg w)
              else
                let s = s\<lparr>db_last_id := db_last_id s + 1\<rparr> in
                and_then (mem_load (db_buffer s) 0 (nat n)) (\<lambda>bytes.
                let (ok, w) = dbus_send_call K c (db_last_id s) timestamp bytes msg w in
                Inr (ok, s, w)))))"

text \<open>
  The type is the number behind the prefix of the path; the pointer behind the prefix is undefined
  for a shorter path, and a path without a number there throws.  The size is an \<open>int\<close>, the header
  keeps sixteen bits of it.
\<close>

definition path_type :: "string \<Rightarrow> data_type res" where
  "path_type path =
     (if length path < length PATH_PREFIX then Inl Out_Of_Bounds
      else and_then (stoull 10 (drop (length PATH_PREFIX) path)) (\<lambda>n. Inr (type_of_code (ucast n))))"

definition dbus_read_args ::
  "('w, 'm, 'i) dbus_lib \<Rightarrow> data_type \<Rightarrow> 'i \<Rightarrow> read_result res" where
  "dbus_read_args K t args =
     (if dl_arg_type K args \<noteq> DBUS_TYPE_UINT32 then Inr (Inl INVALID_DATA)
      else
        let ident = dl_get_uint32 K args in
        case dl_iter_next K args of
          None \<Rightarrow> Inr (Inl INVALID_DATA)
        | Some args \<Rightarrow>
            if dl_arg_type K args \<noteq> DBUS_TYPE_INT64 then Inr (Inl INVALID_DATA)
            else
              let timestamp = dl_get_int64 K args in
              case dl_iter_next K args of
                None \<Rightarrow> Inr (Inl INVALID_DATA)
              | Some args \<Rightarrow>
                  if dl_arg_type K args \<noteq> DBUS_TYPE_ARRAY \<or> dl_element_type K args \<noteq> DBUS_TYPE_BYTE
                  then Inr (Inl INVALID_DATA)
                  else
                    let bytes = dl_get_bytes K args; size = length bytes in
                    and_then (deserialize_data_object t bytes 0 (u32_of_size size)) (\<lambda>body.
                    Inr (of_body \<lparr>h_id = ident, h_type = t, h_body_size = word_of_nat size,
                      h_timestamp = timestamp\<rparr> body)))"

definition dbus_read ::
  "('w, 'm, 'i) dbus_lib \<Rightarrow> dbus \<times> 'w \<Rightarrow> (read_result \<times> (dbus \<times> 'w)) res" where
  "dbus_read K = (\<lambda>(s, w).
     case db_con s of
       None \<Rightarrow> Inr (Inl CONNECTION_CLOSED, s, w)
     | Some c \<Rightarrow>
         (case dl_pop_message K c w of
            (None, w) \<Rightarrow> Inr (Inl NO_DATA_AVAILABLE, s, w)
          | (Some msg, w) \<Rightarrow>
              if \<not> dl_is_method_call K msg INTERFACE_NAME METHOD_NAME
              then Inr (Inl NO_DATA_AVAILABLE, s, dl_unref K msg w)
              else
                (case dl_iter_init K msg of
                   None \<Rightarrow> Inr (Inl INVALID_DATA, s, dl_unref K msg w)
                 | Some args \<Rightarrow>
                     and_then (path_type (dl_get_path K msg)) (\<lambda>t.
                     and_then (dbus_read_args K t args) (\<lambda>r.
                     Inr (r, s, dl_unref K msg w))))))"

definition dbus_iface :: "('w, 'm, 'i) dbus_lib \<Rightarrow> (dbus \<times> 'w) comm_iface" where
  "dbus_iface K =
     \<lparr>c_open = dbus_open K, c_close = dbus_close K, c_is_open = dbus_is_open,
      c_await_data = dbus_await_data K, c_has_data = dbus_has_data K,
      c_write = dbus_write K, c_read = (\<lambda>h. Some (dbus_read K h))\<rparr>"

lemmas dbus_defs = dbus_open_def dbus_create_server_def dbus_create_client_def dbus_close_def
  dbus_is_open_def dbus_await_data_def dbus_has_data_def

lemma dbus_iface_simps [simp]:
  "c_open (dbus_iface K) = dbus_open K" "c_close (dbus_iface K) = dbus_close K"
  "c_is_open (dbus_iface K) = dbus_is_open" "c_await_data (dbus_iface K) = dbus_await_data K"
  "c_has_data (dbus_iface K) = dbus_has_data K" "c_write (dbus_iface K) = dbus_write K"
  "c_read (dbus_iface K) h = Some (dbus_read K h)"
  by (simp_all add: dbus_iface_def)

section \<open>The contract of the interface\<close>

definition dbus_inv :: "dbus \<times> 'w \<Rightarrow> bool" where
  "dbus_inv = (\<lambda>(s, w). length (db_buffer s) = BUFFER_SIZE)"

definition dbus_seq :: "dbus \<times> 'w \<Rightarrow> u32" where
  "dbus_seq = (\<lambda>(s, w). db_last_id s)"

lemma dbus_new_inv: "dbus_inv (dbus_new name server, w) \<and> \<not> dbus_is_open (dbus_new name server, w)"
  by (simp add: dbus_inv_def dbus_is_open_def dbus_new_def)

lemma dbus_write_eq:
  assumes "length (db_buffer s) = 528" and "db_con s = Some c" and "os_clock K w = (ts, w1)"
  shows "dbus_write K obj (s, w) =
    (case dl_new_method_call K (db_name s) (object_path obj) INTERFACE_NAME METHOD_NAME w1 of
       (None, w) \<Rightarrow> Inr (False, s, w)
     | (Some msg, w) \<Rightarrow>
         let msg = dl_set_no_reply K True msg; bs = object_bytes obj;
             s' = s\<lparr>db_last_id := db_last_id s + 1, db_buffer := bs @ drop (length bs) (db_buffer s)\<rparr> in
         if 528 < length bs then Inr (False, s, dl_unref K msg w)
         else
           let (ok, w) = dbus_send_call K c (db_last_id s + 1) ts bs msg w in
           Inr (ok, s', w))"
proof (cases "length (object_bytes obj) \<le> 528")
  case True
  with assms show ?thesis
    by (simp add: dbus_write_def get_timestamp_def obj_serialize_fits mem_load_ok Let_def
        split: prod.split option.split)
next
  case False
  with assms show ?thesis
    by (simp add: dbus_write_def get_timestamp_def obj_serialize_too_long Let_def
        split: prod.split option.split)
qed

lemma dbus_write_result:
  assumes "dbus_inv h"
  shows "\<exists>b h'. dbus_write K obj h = Inr (b, h') \<and> dbus_inv h' \<and> dbus_is_open h' = dbus_is_open h \<and>
    (b \<longrightarrow> dbus_is_open h \<and> length (object_bytes obj) \<le> BUFFER_SIZE \<and> dbus_seq h' = dbus_seq h + 1)"
proof -
  obtain s w where h: "h = (s, w)" by (cases h)
  have inv: "length (db_buffer s) = 528"
    using assms by (simp add: h dbus_inv_def)
  show ?thesis
  proof (cases "db_con s")
    case None
    with assms show ?thesis
      by (auto simp: h dbus_write_def dbus_is_open_def)
  next
    case (Some c)
    obtain ts w1 where "os_clock K w = (ts, w1)" by (cases "os_clock K w")
    from dbus_write_eq [OF inv Some this, of obj] Some inv show ?thesis
      by (auto simp: h dbus_inv_def dbus_is_open_def dbus_seq_def Let_def split: prod.splits option.splits)
  qed
qed

lemma typed_read_args: "dbus_read_args K t args = Inr r \<Longrightarrow> typed_result r"
  using typed_of_body [of "\<lparr>h_id = i, h_type = t, h_body_size = n, h_timestamp = ts\<rparr>" for i n ts]
  by (auto simp: dbus_read_args_def res_simps Let_def split: if_splits option.splits)

lemma dbus_read_result:
  assumes "dbus_inv h" and "dbus_read K h = Inr (r, h')"
  shows "dbus_inv h' \<and> dbus_is_open h' = dbus_is_open h \<and> dbus_seq h' = dbus_seq h \<and> typed_result r"
  using assms
  by (auto simp: dbus_inv_def dbus_is_open_def dbus_seq_def dbus_read_def res_simps Let_def
      dest: typed_read_args split: prod.splits option.splits if_splits)

lemma dbus_closed_calls:
  assumes "\<not> dbus_is_open h"
  shows "dbus_write K obj h = Inr (False, h)" and "dbus_read K h = Inr (Inl CONNECTION_CLOSED, h)"
    and "dbus_await_data K h = (False, h)" and "dbus_close K h = (False, h)"
  using assms by (cases h; simp add: dbus_defs dbus_write_def dbus_read_def)+

lemma dbus_lifecycle:
  assumes "dbus_inv h"
  shows "dbus_open K h = (b, h') \<Longrightarrow> dbus_inv h' \<and> dbus_is_open h' = b \<and> dbus_seq h' = dbus_seq h"
    and "dbus_is_open h \<Longrightarrow> dbus_open K h = (True, h)"
    and "dbus_close K h = (b, h') \<Longrightarrow>
      dbus_inv h' \<and> \<not> dbus_is_open h' \<and> b = dbus_is_open h \<and> dbus_seq h' = dbus_seq h"
    and "dbus_await_data K h = (b, h') \<Longrightarrow>
      dbus_inv h' \<and> dbus_is_open h' = dbus_is_open h \<and> dbus_seq h' = dbus_seq h"
    and "dbus_has_data K h = (b, h') \<Longrightarrow>
      dbus_inv h' \<and> dbus_is_open h' = dbus_is_open h \<and> dbus_seq h' = dbus_seq h"
  using assms
  by (auto simp: dbus_defs dbus_inv_def dbus_seq_def Let_def
      split: prod.splits if_splits option.splits)

lemmas dbus_contract = dbus_lifecycle dbus_closed_calls dbus_read_result dbus_write_result

interpretation bus: comm_handler "dbus_iface K" dbus_inv dbus_seq BUFFER_SIZE
  for K :: "('w, 'm, 'i) dbus_lib"
  by unfold_locales (unfold dbus_iface_simps option.inject, (rule dbus_contract; assumption)+)

end
