(* ===== verification/DBus_Channel.thy ===== *)
theory DBus_Channel
  imports DBus Channel
begin

text \<open>
  D-Bus end to end.  The locale \<open>dbus_messages\<close> states what the functions of libdbus on messages
  promise, \<open>dbus_bus\<close> what the bus promises; from these laws and the code of \<open>dbus_await_data\<close>,
  \<open>dbus_write\<close> and \<open>dbus_read\<close> a reader that waits before it reads has a reliable channel.
\<close>

section \<open>Messages on the bus\<close>

datatype dbus_arg =
    Arg_UInt32 u32
  | Arg_Int64 u64
  | Arg_Array dbus_type "byte list"
  | Arg_Other

text \<open>
  An array has a type of elements; the bytes are the content of an array of bytes, and of no interest
  otherwise.
\<close>

abbreviation Arg_Bytes :: "byte list \<Rightarrow> dbus_arg" where
  "Arg_Bytes bs \<equiv> Arg_Array DBUS_TYPE_BYTE bs"

record dbus_call =
  call_destination :: string
  call_path :: string
  call_interface :: string
  call_member :: string
  call_args :: "dbus_arg list"

text \<open>What arrives at a connection: method calls, and other messages such as signals of the bus.\<close>

datatype dbus_item = Call dbus_call | Other_Message

fun arg_type :: "dbus_arg \<Rightarrow> dbus_type" where
  "arg_type (Arg_UInt32 _) = DBUS_TYPE_UINT32"
| "arg_type (Arg_Int64 _) = DBUS_TYPE_INT64"
| "arg_type (Arg_Array _ _) = DBUS_TYPE_ARRAY"
| "arg_type Arg_Other = Other_Dbus_Type"

fun element_type :: "dbus_arg \<Rightarrow> dbus_type" where
  "element_type (Arg_Array t _) = t"
| "element_type _ = Other_Dbus_Type"

definition call_matches :: "dbus_item \<Rightarrow> string \<Rightarrow> string \<Rightarrow> bool" where
  "call_matches x i m \<longleftrightarrow>
     (case x of Call c \<Rightarrow> call_interface c = i \<and> call_member c = m | Other_Message \<Rightarrow> False)"

text \<open>
  \<open>item msg\<close> is the content of a message, \<open>rest it\<close> the arguments from an iterator on, of which there
  is at least one.
\<close>

locale dbus_messages =
  fixes K :: "('w, 'm, 'i) dbus_lib"
    and item :: "'m \<Rightarrow> dbus_item"
    and rest :: "'i \<Rightarrow> dbus_arg list"
  assumes is_call_law: "dl_is_method_call K msg i m \<longleftrightarrow> call_matches (item msg) i m"
    and path_law: "item msg = Call c \<Longrightarrow> dl_get_path K msg = call_path c"
    and init_empty: "item msg = Call c \<Longrightarrow> call_args c = [] \<Longrightarrow> dl_iter_init K msg = None"
    and init_args: "item msg = Call c \<Longrightarrow> call_args c = a # as \<Longrightarrow>
      \<exists>it. dl_iter_init K msg = Some it \<and> rest it = a # as"
    and next_empty: "rest it = [a] \<Longrightarrow> dl_iter_next K it = None"
    and next_args: "rest it = a # b # as \<Longrightarrow> \<exists>it'. dl_iter_next K it = Some it' \<and> rest it' = b # as"
    and type_law: "rest it = a # as \<Longrightarrow> dl_arg_type K it = arg_type a"
    and element_law: "rest it = Arg_Array elem bs # as \<Longrightarrow> dl_element_type K it = elem"
    and uint32_law: "rest it = Arg_UInt32 n # as \<Longrightarrow> dl_get_uint32 K it = n"
    and int64_law: "rest it = Arg_Int64 t # as \<Longrightarrow> dl_get_int64 K it = t"
    and bytes_law: "rest it = Arg_Bytes bs # as \<Longrightarrow> dl_get_bytes K it = bs"

section \<open>What a read makes of a call\<close>

text \<open>
  The result of reading a call of the handler's method: a function of its path and arguments.  Only
  the first three arguments matter.
\<close>

fun decode_args :: "data_type \<Rightarrow> dbus_arg list \<Rightarrow> read_result" where
  "decode_args t (Arg_UInt32 ident # Arg_Int64 ts # Arg_Bytes bs # _) =
     of_body \<lparr>h_id = ident, h_type = t, h_body_size = word_of_nat (length bs), h_timestamp = ts\<rparr>
       (decode_object t (take (length bs mod 2 ^ 32) bs))"
| "decode_args t _ = Inl INVALID_DATA"

definition decode_call :: "dbus_call \<Rightarrow> read_result res" where
  "decode_call c =
     (if call_args c = [] then Inr (Inl INVALID_DATA)
      else and_then (path_type (call_path c)) (\<lambda>t. Inr (decode_args t (call_args c))))"

context dbus_messages
begin

lemma read_bytes:
  assumes "rest it = a # as"
  shows "(if dl_arg_type K it \<noteq> DBUS_TYPE_ARRAY \<or> dl_element_type K it \<noteq> DBUS_TYPE_BYTE
     then Inr (Inl INVALID_DATA)
     else let bytes = dl_get_bytes K it; size = length bytes in
       and_then (deserialize_data_object t bytes 0 (u32_of_size size)) (\<lambda>body.
       Inr (of_body \<lparr>h_id = ident, h_type = t, h_body_size = word_of_nat size, h_timestamp = ts\<rparr> body))) =
    Inr (decode_args t (Arg_UInt32 ident # Arg_Int64 ts # a # as))"
proof (cases "\<exists>bs. a = Arg_Bytes bs")
  case True
  then obtain bs where Arg_Bytes: "a = Arg_Bytes bs" by blast
  have size: "unat (u32_of_size (length bs)) = length bs mod 2 ^ 32"
    by (simp add: u32_of_size_def unat_of_nat take_bit_eq_mod)
  then have "0 + unat (u32_of_size (length bs)) \<le> length bs"
    by simp
  from deserialize_data_object_bytes [OF this] size
  have "deserialize_data_object t bs 0 (u32_of_size (length bs)) =
      Inr (decode_object t (take (length bs mod 2 ^ 32) bs))"
    by (simp add: region_def)
  with assms Arg_Bytes show ?thesis
    by (simp add: type_law element_law bytes_law Let_def)
next
  case False
  show ?thesis
  proof (cases a)
    case (Arg_Array e bs)
    with False assms show ?thesis
      by (cases e) (simp_all add: type_law element_law)
  qed (use assms in \<open>simp_all add: type_law\<close>)
qed

lemma read_args:
  assumes "rest it = as" and "as \<noteq> []"
  shows "dbus_read_args K t it = Inr (decode_args t as)"
proof -
  obtain a bs where as: "as = a # bs" using assms(2) by (cases as) auto
  show ?thesis
  proof (cases a)
    case (Arg_UInt32 ident)
    show ?thesis
    proof (cases bs)
      case Nil
      with assms(1) as Arg_UInt32 show ?thesis
        by (simp add: dbus_read_args_def type_law next_empty Let_def)
    next
      case (Cons b cs)
      then obtain it' where it': "dl_iter_next K it = Some it'" "rest it' = b # cs"
        using next_args assms(1) as by blast
      show ?thesis
      proof (cases "\<exists>ts. b = Arg_Int64 ts")
        case False
        with it' assms(1) as Arg_UInt32 Cons show ?thesis
          by (cases b) (simp_all add: dbus_read_args_def type_law Let_def)
      next
        case True
        then obtain ts where b: "b = Arg_Int64 ts" by blast
        show ?thesis
        proof (cases cs)
          case Nil
          with it' assms(1) as Arg_UInt32 Cons b show ?thesis
            by (simp add: dbus_read_args_def type_law next_empty Let_def)
        next
          case (Cons d ds)
          with it' obtain it'' where it'': "dl_iter_next K it' = Some it''" "rest it'' = d # ds"
            using next_args by blast
          from read_bytes [OF it''(2), of t ident ts] it' it'' assms(1) as Arg_UInt32
            \<open>bs = b # cs\<close> b Cons show ?thesis
            by (simp add: dbus_read_args_def type_law uint32_law int64_law Let_def)
        qed
      qed
    qed
  qed (use assms(1) as in \<open>simp_all add: dbus_read_args_def type_law\<close>)
qed

lemma dbus_read_message:
  assumes "db_con s = Some c" and "dl_pop_message K c w = (Some msg, w')"
  shows "dbus_read K (s, w) =
    (if call_matches (item msg) INTERFACE_NAME METHOD_NAME
     then case item msg of
       Call call \<Rightarrow> and_then (decode_call call) (\<lambda>r. Inr (r, s, dl_unref K msg w'))
     | Other_Message \<Rightarrow> Inr (Inl NO_DATA_AVAILABLE, s, dl_unref K msg w')
     else Inr (Inl NO_DATA_AVAILABLE, s, dl_unref K msg w'))"
proof (cases "item msg")
  case (Call call)
  show ?thesis
  proof (cases "call_args call")
    case Nil
    with assms Call show ?thesis
      by (simp add: dbus_read_def is_call_law init_empty decode_call_def)
  next
    case (Cons a as)
    with Call obtain it where it: "dl_iter_init K msg = Some it" "rest it = a # as"
      using init_args by blast
    from read_args [OF it(2)] assms Call it(1) Cons show ?thesis
      by (cases "path_type (call_path call)")
        (simp_all add: dbus_read_def is_call_law decode_call_def path_law)
  qed
next
  case Other_Message
  with assms show ?thesis
    by (simp add: dbus_read_def is_call_law call_matches_def)
qed

end

text \<open>The call that a write makes, and what the read makes of it.\<close>

definition object_call :: "string \<Rightarrow> u32 \<Rightarrow> u64 \<Rightarrow> data_object \<Rightarrow> dbus_call" where
  "object_call name ident ts obj =
     \<lparr>call_destination = name, call_path = object_path obj, call_interface = INTERFACE_NAME,
      call_member = METHOD_NAME,
      call_args = [Arg_UInt32 ident, Arg_Int64 ts, Arg_Bytes (object_bytes obj)]\<rparr>"

lemma path_type_object_path [simp]: "path_type (object_path obj) = Inr (get_type obj)"
proof -
  let ?n = "unat (type_code (get_type obj))"
  have "?n < 2 ^ 64"
    by (rule less_trans [OF unat_u16_less]) simp
  then have num: "stoull 10 (to_string (int ?n)) = Inr (word_of_nat ?n)"
    using stoull_digits_string [of ?n "[]"] by (simp add: to_string_def)
  have code: "ucast (word_of_nat ?n :: u64) = type_code (get_type obj)"
    by (cases obj) simp_all
  have "path_type (PATH_PREFIX @ s) = and_then (stoull 10 s) (\<lambda>n. Inr (type_of_code (ucast n)))" for s
    by (simp add: path_type_def)
  from this [of "to_string (int ?n)"] show ?thesis
    by (simp only: object_path_def num code and_then_Inr) simp
qed

lemma decode_object_call:
  assumes "length (object_bytes obj) \<le> BUFFER_SIZE"
  shows "decode_call (object_call name ident ts obj) = Inr (Inr (header_of ident ts obj, obj))"
proof -
  have "length (object_bytes obj) < 2 ^ 32"
    using assms by simp
  from decode_object_bytes_append [OF this, of "[]"] assms show ?thesis
    by (simp add: decode_call_def object_call_def header_of_def message_header_def)
qed

section \<open>The laws of the bus\<close>

abbreviation is_handler_call :: "dbus_item \<Rightarrow> bool" where
  "is_handler_call x \<equiv> call_matches x INTERFACE_NAME METHOD_NAME"

text \<open>
  The state of the bus, as far as the reader's connection is concerned: the messages on their way to it,
  how many of them have already been read off the socket and wait to be popped, and how many messages
  that are no calls of the handler's method - signals, replies, calls of others - are still to come.
  \<open>bus_more\<close> is what may happen to it at any time: such messages arrive behind those on their way, and
  more is read off the socket.
\<close>

type_synonym bus_state = "dbus_item list \<times> nat \<times> nat"

fun bus_more :: "bus_state \<Rightarrow> bus_state \<Rightarrow> bool" where
  "bus_more (q, n, k) (q', n', k') \<longleftrightarrow>
     n \<le> n' \<and> (n \<le> length q \<longrightarrow> n' \<le> length q') \<and>
     (\<exists>new. q' = q @ new \<and> list_all (\<lambda>x. \<not> is_handler_call x) new \<and> length new + k' \<le> k)"

fun add_item :: "dbus_item \<Rightarrow> bus_state \<Rightarrow> bus_state" where
  "add_item x (q, n, k) = (q @ [x], n, k)"

lemma bus_more_refl [simp]: "bus_more v v"
  by (cases v) (auto intro: exI [of _ "[]"])

lemma bus_more_trans [trans]: "bus_more u v \<Longrightarrow> bus_more v w \<Longrightarrow> bus_more u w"
  by (cases u; cases v; cases w) (force simp: list_all_append)

text \<open>
  So every call may find that other messages have arrived meanwhile.  Waiting reads at least one message
  off the socket if there is one, a message that was sent comes behind all that arrived before it, and
  popping takes the first message.
\<close>

locale dbus_bus = dbus_messages K item rest
  for K :: "('w, 'm, 'i) dbus_lib"
    and item :: "'m \<Rightarrow> dbus_item"
    and rest :: "'i \<Rightarrow> dbus_arg list"
    and wcons :: "nat set"
    and rcons :: "nat set"
    and bus_name :: string
    and view :: "'w \<Rightarrow> bus_state" +
  assumes clock_view: "os_clock K w = (ts, w') \<Longrightarrow> bus_more (view w) (view w')"
    and new_view: "dl_new_method_call K d p i m w = (r, w') \<Longrightarrow> bus_more (view w) (view w')"
    and new_item: "dl_new_method_call K d p i m w = (Some msg, w') \<Longrightarrow>
      item msg = Call \<lparr>call_destination = d, call_path = p, call_interface = i, call_member = m, call_args = []\<rparr>"
    and no_reply_item: "item (dl_set_no_reply K b msg) = item msg"
    and uint32_append: "\<lbrakk>item msg = Call c; dl_append_uint32 K ident msg w = (ok, msg', w')\<rbrakk> \<Longrightarrow>
      bus_more (view w) (view w') \<and>
      (ok \<longrightarrow> item msg' = Call (c\<lparr>call_args := call_args c @ [Arg_UInt32 ident]\<rparr>))"
    and int64_append: "\<lbrakk>item msg = Call c; dl_append_int64 K t msg w = (ok, msg', w')\<rbrakk> \<Longrightarrow>
      bus_more (view w) (view w') \<and>
      (ok \<longrightarrow> item msg' = Call (c\<lparr>call_args := call_args c @ [Arg_Int64 t]\<rparr>))"
    and array_open: "\<lbrakk>item msg = Call c; dl_open_array K msg w = (ok, msg', w')\<rbrakk> \<Longrightarrow>
      bus_more (view w) (view w') \<and>
      (ok \<longrightarrow> item msg' = Call (c\<lparr>call_args := call_args c @ [Arg_Bytes []]\<rparr>))"
    and bytes_append: "\<lbrakk>item msg = Call c; call_args c = as @ [Arg_Bytes []];
      dl_append_bytes K bs msg w = (ok, msg', w')\<rbrakk> \<Longrightarrow>
      bus_more (view w) (view w') \<and> (ok \<longrightarrow> item msg' = Call (c\<lparr>call_args := as @ [Arg_Bytes bs]\<rparr>))"
    and array_close: "\<lbrakk>item msg = Call c; dl_close_array K msg w = (ok, msg', w')\<rbrakk> \<Longrightarrow>
      bus_more (view w) (view w') \<and> (ok \<longrightarrow> item msg' = Call c)"
    and send_view: "\<lbrakk>con \<in> wcons; item msg = Call c; call_destination c = bus_name;
      dl_send K con msg w = (ok, w')\<rbrakk> \<Longrightarrow>
      if ok then \<exists>v. bus_more (view w) v \<and> bus_more (add_item (Call c) v) (view w')
      else bus_more (view w) (view w')"
    and unref_view: "bus_more (view w) (view (dl_unref K msg w))"
    and read_write_view: "\<lbrakk>con \<in> rcons; view w = (q, n, k); n \<le> length q\<rbrakk> \<Longrightarrow>
      \<exists>w'. dl_read_write K con timeout w = (True, w') \<and> bus_more (view w) (view w') \<and>
        (q \<noteq> [] \<longrightarrow> 0 < fst (snd (view w')))"
    and status_law: "con \<in> rcons \<Longrightarrow>
      dl_dispatch_status K con w = DBUS_DISPATCH_DATA_REMAINS \<longleftrightarrow> 0 < fst (snd (view w))"
    and pop_view: "\<lbrakk>con \<in> rcons; view w = (x # q, Suc n, k)\<rbrakk> \<Longrightarrow>
      \<exists>msg w'. dl_pop_message K con w = (Some msg, w') \<and> item msg = x \<and> bus_more (q, n, k) (view w')"

text \<open>A reader that waits for data before it reads, as the programs do.\<close>

definition awaited_receive ::
  "('b \<times> 'w) comm_iface \<Rightarrow> 'a \<times> 'b \<times> 'w \<Rightarrow> (read_result \<times> ('a \<times> 'b \<times> 'w)) res option" where
  "awaited_receive I = (\<lambda>(a, b, w).
     let (ready, b, w) = c_await_data I (b, w) in
     if ready then channel_receive I (a, b, w) else Some (Inr (Inl NO_DATA_AVAILABLE, a, b, w)))"

definition item_carries :: "dbus_item \<Rightarrow> message \<Rightarrow> bool" where
  "item_carries x m \<longleftrightarrow> (\<exists>c. x = Call c \<and> decode_call c = Inr (Inr m))"

definition bus_carries ::
  "nat set \<Rightarrow> nat set \<Rightarrow> string \<Rightarrow> ('w \<Rightarrow> bus_state) \<Rightarrow> dbus \<times> dbus \<times> 'w \<Rightarrow>
   message list \<Rightarrow> bool" where
  "bus_carries wcons rcons bus_name view = (\<lambda>(sw, sr, w) ms.
     db_con sw \<in> Some ` wcons \<and> db_con sr \<in> Some ` rcons \<and> db_name sw = bus_name \<and>
     length (db_buffer sw) = BUFFER_SIZE \<and>
     (case view w of (q, n, k) \<Rightarrow> n \<le> length q \<and> list_all2 item_carries (filter is_handler_call q) ms))"

definition bus_seq :: "dbus \<times> dbus \<times> 'w \<Rightarrow> u32" where
  "bus_seq = (\<lambda>(sw, sr, w). db_last_id sw)"

text \<open>How many messages that are not for the handler lie in between or may still arrive.\<close>

fun foreign_ahead :: "bus_state \<Rightarrow> nat" where
  "foreign_ahead (q, n, k) = length (filter (\<lambda>x. \<not> is_handler_call x) q) + k"

definition bus_delay :: "('w \<Rightarrow> bus_state) \<Rightarrow> dbus \<times> dbus \<times> 'w \<Rightarrow> nat" where
  "bus_delay view = (\<lambda>(sw, sr, w). foreign_ahead (view w))"

text \<open>The state of the bus after an attempt to send.\<close>

definition send_result :: "('w \<Rightarrow> bus_state) \<Rightarrow> bus_state \<Rightarrow> dbus_item \<Rightarrow> bool \<times> 'w \<Rightarrow> bool" where
  "send_result view v x r \<longleftrightarrow>
     (if fst r then \<exists>u. bus_more v u \<and> bus_more (add_item x u) (view (snd r))
      else bus_more v (view (snd r)))"

lemma sent_result:
  assumes "bus_more v u" and "bus_more (add_item x u) (view w)"
  shows "send_result view v x (True, w)"
  unfolding send_result_def fst_conv snd_conv if_True using assms by blast

text \<open>What arrives meanwhile changes nothing for the messages of the handler.\<close>

lemma no_handler_call: "list_all (\<lambda>x. \<not> is_handler_call x) new \<Longrightarrow> filter is_handler_call new = []"
  by (simp add: list_all_iff filter_empty_conv)

lemma only_foreign: "list_all (\<lambda>x. \<not> is_handler_call x) new \<Longrightarrow> filter (\<lambda>x. \<not> is_handler_call x) new = new"
  by (simp add: list_all_iff filter_id_conv)

lemma bus_more_calls:
  assumes "bus_more (q, n, k) v"
  shows "filter is_handler_call (fst v) = filter is_handler_call q" and "n \<le> fst (snd v)"
    and "n \<le> length q \<Longrightarrow> fst (snd v) \<le> length (fst v)"
    and "foreign_ahead v \<le> foreign_ahead (q, n, k)"
  using assms by (cases v; auto simp: no_handler_call only_foreign)+

section \<open>The bus is a reliable channel\<close>

context dbus_bus
begin

lemma carries_more:
  assumes "bus_carries wcons rcons bus_name view (a, s, w) ms" and "bus_more (view w) (view w')"
    and "db_con a' = db_con a" and "db_name a' = db_name a" and "length (db_buffer a') = length (db_buffer a)"
  shows "bus_carries wcons rcons bus_name view (a', s, w') ms"
    and "bus_delay view (a', s, w') \<le> bus_delay view (a, s, w)"
proof -
  obtain q n k where v: "view w = (q, n, k)" by (metis prod_cases3)
  obtain q' n' k' where v': "view w' = (q', n', k')" by (metis prod_cases3)
  note more = bus_more_calls [OF assms(2) [unfolded v], unfolded v' fst_conv snd_conv]
  show "bus_carries wcons rcons bus_name view (a', s, w') ms"
    using assms(1,3-5) more(1,3) by (simp add: bus_carries_def v v')
  show "bus_delay view (a', s, w') \<le> bus_delay view (a, s, w)"
    using more(4) by (simp add: bus_delay_def v v')
qed

lemma append_then_result:
  assumes "\<And>ok msg' w'. r = (ok, msg', w') \<Longrightarrow> bus_more v (view w') \<and> (ok \<longrightarrow> item msg' = y)"
    and "\<And>msg' w'. bus_more v (view w') \<Longrightarrow> item msg' = y \<Longrightarrow> send_result view v x (continue msg' w')"
  shows "send_result view v x (append_then K r continue)"
proof -
  obtain ok msg' w' where r: "r = (ok, msg', w')" by (metis prod_cases3)
  with assms(1) [OF r] assms(2) [of w' msg'] show ?thesis
    by (cases ok) (auto simp: append_then_def send_result_def intro: bus_more_trans unref_view)
qed

text \<open>What a started call becomes, step by step.\<close>

lemma send_call_result:
  assumes con: "con \<in> wcons" and msg: "item msg = Call c"
    and args: "call_args c = []" and dest: "call_destination c = bus_name"
  shows "send_result view (view w) (Call (c\<lparr>call_args := [Arg_UInt32 ident, Arg_Int64 ts, Arg_Bytes bs]\<rparr>))
    (dbus_send_call K con ident ts bs msg w)"
  unfolding dbus_send_call_def
proof (rule append_then_result [where y = "Call (c\<lparr>call_args := [Arg_UInt32 ident]\<rparr>)"], goal_cases)
  case 1
  from uint32_append [OF msg this] show ?case by (simp add: args)
next
  case (2 msg1 w1)
  show ?case
  proof (rule append_then_result [where y = "Call (c\<lparr>call_args := [Arg_UInt32 ident, Arg_Int64 ts]\<rparr>)"],
      goal_cases)
    case 1
    from int64_append [OF 2(2) this] bus_more_trans [OF 2(1)] show ?case by simp
  next
    case (2 msg2 w2)
    show ?case
    proof (rule append_then_result
        [where y = "Call (c\<lparr>call_args := [Arg_UInt32 ident, Arg_Int64 ts, Arg_Bytes []]\<rparr>)"], goal_cases)
      case 1
      from array_open [OF 2(2) this] bus_more_trans [OF 2(1)] show ?case by simp
    next
      case (2 msg3 w3)
      show ?case
      proof (rule append_then_result
          [where y = "Call (c\<lparr>call_args := [Arg_UInt32 ident, Arg_Int64 ts, Arg_Bytes bs]\<rparr>)"], goal_cases)
        case 1
        from bytes_append [OF 2(2) _ this, of "[Arg_UInt32 ident, Arg_Int64 ts]"] bus_more_trans [OF 2(1)]
        show ?case by simp
      next
        case (2 msg4 w4)
        show ?case
        proof (rule append_then_result
            [where y = "Call (c\<lparr>call_args := [Arg_UInt32 ident, Arg_Int64 ts, Arg_Bytes bs]\<rparr>)"],
            goal_cases)
          case 1
          from array_close [OF 2(2) this] bus_more_trans [OF 2(1)] show ?case by simp
        next
          case (2 msg5 w5)
          obtain ok w6 where sent: "dl_send K con msg5 w5 = (ok, w6)"
            by (cases "dl_send K con msg5 w5")
          note last = bus_more_trans [OF _ unref_view [of w6 msg5]] bus_more_trans [OF 2(1)]
          show ?case
          proof (cases ok)
            case True
            with send_view [OF con 2(2) _ sent] obtain v where "bus_more (view w5) v"
                "bus_more (add_item (Call (c\<lparr>call_args := [Arg_UInt32 ident, Arg_Int64 ts, Arg_Bytes bs]\<rparr>)) v)
                  (view w6)"
              by (auto simp del: add_item.simps simp: dest)
            from sent_result [where view = view, OF last(2) [OF this(1)] last(1) [OF this(2)]] show ?thesis
              by (simp add: sent True)
          next
            case False
            with send_view [OF con 2(2) _ sent] last show ?thesis
              by (simp add: sent send_result_def dest)
          qed
        qed
      qed
    qed
  qed
qed

lemma send_bus:
  assumes "bus_carries wcons rcons bus_name view c ms"
  shows "\<exists>ok c' h. channel_send (dbus_iface K) obj c = Inr (ok, c') \<and>
    (ok \<longrightarrow> bus_seq c' = bus_seq c + 1 \<and> h_id h = bus_seq c' \<and>
      bus_carries wcons rcons bus_name view c' (ms @ [(h, obj)])) \<and>
    (\<not> ok \<longrightarrow> bus_carries wcons rcons bus_name view c' ms)"
proof -
  obtain sw sr w where c: "c = (sw, sr, w)" by (metis prod_cases3)
  obtain con where con: "db_con sw = Some con" "con \<in> wcons" and buf: "length (db_buffer sw) = 528"
    and name: "db_name sw = bus_name"
    using assms by (auto simp: c bus_carries_def)
  obtain ts w1 where clock: "os_clock K w = (ts, w1)" by (cases "os_clock K w")
  obtain r w2 where new: "dl_new_method_call K bus_name (object_path obj) INTERFACE_NAME METHOD_NAME w1 = (r, w2)"
    by (cases "dl_new_method_call K bus_name (object_path obj) INTERFACE_NAME METHOD_NAME w1")
  have more2: "bus_more (view w) (view w2)"
    using bus_more_trans [OF clock_view [OF clock] new_view [OF new]] .
  note kept = carries_more(1) [OF assms [unfolded c]]
  note write_eq = dbus_write_eq [OF buf con(1) clock, of obj, unfolded name new]
  show ?thesis
  proof (cases "r = None \<or> 528 < length (object_bytes obj)")
    case True
    then have "\<exists>w'. dbus_write K obj (sw, w) = Inr (False, sw, w') \<and> bus_more (view w) (view w')"
      using more2 bus_more_trans [OF more2 unref_view] by (cases r) (auto simp: write_eq Let_def)
    with kept show ?thesis
      by (auto simp: c channel_send_def)
  next
    case False
    then obtain msg where r: "r = Some msg" and short: "length (object_bytes obj) \<le> 528" by auto
    let ?ident = "db_last_id sw + 1"
    let ?call = "object_call bus_name ?ident ts obj"
    define h where "h = header_of ?ident ts obj"
    define sw' where "sw' = sw\<lparr>db_last_id := ?ident,
      db_buffer := object_bytes obj @ drop (length (object_bytes obj)) (db_buffer sw)\<rparr>"
    obtain ok w3 where send:
      "dbus_send_call K con ?ident ts (object_bytes obj) (dl_set_no_reply K True msg) w2 = (ok, w3)"
      by (cases "dbus_send_call K con ?ident ts (object_bytes obj) (dl_set_no_reply K True msg) w2")
    have "item (dl_set_no_reply K True msg) = Call \<lparr>call_destination = bus_name,
        call_path = object_path obj, call_interface = INTERFACE_NAME, call_member = METHOD_NAME, call_args = []\<rparr>"
      using new_item [OF new [unfolded r]] by (simp add: no_reply_item)
    from send_call_result [OF con(2) this, of w2 ?ident ts "object_bytes obj"] send
    have sent_view: "send_result view (view w2) (Call ?call) (ok, w3)"
      by (simp add: object_call_def)
    have sent: "channel_send (dbus_iface K) obj c = Inr (ok, sw', sr, w3)"
      using short by (simp add: c channel_send_def write_eq r send Let_def sw'_def)
    have same: "db_con sw' = db_con sw" "db_name sw' = db_name sw"
        "length (db_buffer sw') = length (db_buffer sw)"
      using short buf by (simp_all add: sw'_def)
    have for_handler: "item_carries (Call ?call) (h, obj)" "is_handler_call (Call ?call)"
      using decode_object_call [of obj bus_name ?ident ts] short
      by (simp_all add: item_carries_def h_def call_matches_def object_call_def)
    have "bus_carries wcons rcons bus_name view (sw', sr, w3) (ms @ [(h, obj)])" if ok
    proof -
      obtain q n k where v: "view w = (q, n, k)" by (metis prod_cases3)
      from sent_view that obtain u where u: "bus_more (view w2) u"
          and after: "bus_more (add_item (Call ?call) u) (view w3)"
        by (auto simp: send_result_def)
      obtain q1 n1 k1 where u': "u = (q1, n1, k1)" by (metis prod_cases3)
      obtain q3 n3 k3 where v3: "view w3 = (q3, n3, k3)" by (metis prod_cases3)
      note before = bus_more_calls [OF bus_more_trans [OF more2 u, unfolded v], unfolded u' fst_conv snd_conv]
      note after' = bus_more_calls [OF after [unfolded u' add_item.simps], unfolded v3 fst_conv snd_conv]
      from assms before(1,3) have "n1 \<le> length q1"
          "list_all2 item_carries (filter is_handler_call q1) ms"
        by (simp_all add: c bus_carries_def v)
      with after'(1,3) for_handler assms show ?thesis
        by (simp add: c bus_carries_def v3 same list_all2_appendI)
    qed
    moreover have "bus_carries wcons rcons bus_name view (sw', sr, w3) ms" if "\<not> ok"
      using that sent_view by (intro kept [OF _ same]) (auto simp: send_result_def intro: bus_more_trans [OF more2])
    moreover have "bus_seq (sw', sr, w3) = bus_seq c + 1" "h_id h = bus_seq (sw', sr, w3)"
      by (simp_all add: c bus_seq_def sw'_def h_def)
    ultimately show ?thesis
      using sent by blast
  qed
qed

text \<open>
  Waiting keeps the messages in transit, and is ready whenever there are some - or other messages.
\<close>

lemma await_bus:
  assumes "bus_carries wcons rcons bus_name view (a, s, w) ms"
  shows "\<exists>w' q n k. dbus_await_data K (s, w) = (0 < n, s, w') \<and> view w' = (q, n, k) \<and>
    bus_carries wcons rcons bus_name view (a, s, w') ms \<and>
    bus_delay view (a, s, w') \<le> bus_delay view (a, s, w) \<and> (ms \<noteq> [] \<longrightarrow> 0 < n)"
proof -
  obtain q n k where v: "view w = (q, n, k)" by (metis prod_cases3)
  obtain con where con: "db_con s = Some con" "con \<in> rcons"
    and n: "n \<le> length q" and q: "list_all2 item_carries (filter is_handler_call q) ms"
    using assms by (auto simp: bus_carries_def v)
  from read_write_view [OF con(2) v n] obtain w' where rw: "dl_read_write K con WAIT_TIME w = (True, w')"
    "bus_more (view w) (view w')" "q \<noteq> [] \<longrightarrow> 0 < fst (snd (view w'))"
    by blast
  obtain q' n' k' where v': "view w' = (q', n', k')" by (metis prod_cases3)
  have "dbus_await_data K (s, w) = (0 < n', s, w')"
    using status_law [OF con(2), of w'] con(1) rw(1) by (simp add: dbus_await_data_def v')
  moreover have "ms \<noteq> [] \<longrightarrow> 0 < n'"
    using rw(3) q by (auto simp: v')
  ultimately show ?thesis
    using v' carries_more [OF assms rw(2) refl refl refl] by blast
qed

text \<open>
  A read of a message that waits to be popped takes the next message in transit, or a foreign one.
\<close>

lemma bus_read_ready:
  assumes "bus_carries wcons rcons bus_name view (a, s, w) ms" and v: "view w = (q, Suc n, k)"
  shows "\<exists>r w'. dbus_read K (s, w) = Inr (r, s, w') \<and>
    ((\<exists>m ms'. ms = m # ms' \<and> r = Inr m \<and> bus_carries wcons rcons bus_name view (a, s, w') ms') \<or>
     r = Inl NO_DATA_AVAILABLE \<and> bus_carries wcons rcons bus_name view (a, s, w') ms \<and>
       bus_delay view (a, s, w') < bus_delay view (a, s, w))"
proof -
  from assms obtain con where con: "db_con s = Some con" "con \<in> rcons" and n: "Suc n \<le> length q"
    and q: "list_all2 item_carries (filter is_handler_call q) ms"
    by (auto simp: bus_carries_def)
  from n obtain x q' where x: "q = x # q'" by (cases q) auto
  from pop_view [OF con(2) v [unfolded x]] obtain msg w1 where
    pop: "dl_pop_message K con w = (Some msg, w1)" and item: "item msg = x"
    and more: "bus_more (q', n, k) (view w1)" by blast
  let ?w = "dl_unref K msg w1"
  obtain q2 n2 k2 where v2: "view ?w = (q2, n2, k2)" by (metis prod_cases3)
  note left = bus_more_calls [OF bus_more_trans [OF more unref_view], of msg, unfolded v2 fst_conv snd_conv]
  have n': "n2 \<le> length q2"
    using left(3) n by (simp add: x)
  note read_eq = dbus_read_message [OF con(1) pop, unfolded item]
  have carry: "bus_carries wcons rcons bus_name view (a, s, ?w) ms'"
    if "list_all2 item_carries (filter is_handler_call q') ms'" for ms'
    using assms(1) n' left(1) that by (simp add: bus_carries_def v2)
  show ?thesis
  proof (cases "is_handler_call x")
    case False
    with left(4) have "bus_delay view (a, s, ?w) < bus_delay view (a, s, w)"
      by (simp add: bus_delay_def v v2 x)
    with False q carry [of ms] show ?thesis
      by (intro exI [of _ "Inl NO_DATA_AVAILABLE"] exI [of _ ?w]) (simp add: read_eq x)
  next
    case True
    then obtain call m ms' where xc: "x = Call call" and dec: "decode_call call = Inr (Inr m)"
      and ms: "ms = m # ms'" "list_all2 item_carries (filter is_handler_call q') ms'"
      using q by (auto simp: x list_all2_Cons1 item_carries_def)
    with True carry [OF ms(2)] show ?thesis
      by (intro exI [of _ "Inr m"] exI [of _ ?w]) (simp add: read_eq xc dec)
  qed
qed

lemma receive_bus:
  assumes "bus_carries wcons rcons bus_name view c ms"
  shows "\<exists>r c'. awaited_receive (dbus_iface K) c = Some (Inr (r, c')) \<and> bus_seq c' = bus_seq c \<and>
    (r = Inl NO_DATA_AVAILABLE \<and> bus_carries wcons rcons bus_name view c' ms \<and>
       (ms \<noteq> [] \<longrightarrow> bus_delay view c' < bus_delay view c) \<or>
     (\<exists>m ms'. ms = m # ms' \<and> r = Inr m \<and> bus_carries wcons rcons bus_name view c' ms'))"
proof -
  obtain a s w where c: "c = (a, s, w)" by (metis prod_cases3)
  from await_bus [OF assms [unfolded c]] obtain w1 q n k where
    await: "dbus_await_data K (s, w) = (0 < n, s, w1)" and v1: "view w1 = (q, n, k)"
    and carried: "bus_carries wcons rcons bus_name view (a, s, w1) ms"
    and delay: "bus_delay view (a, s, w1) \<le> bus_delay view c" and waits: "ms \<noteq> [] \<longrightarrow> 0 < n"
    unfolding c by blast
  show ?thesis
  proof (cases n)
    case 0
    with await carried waits show ?thesis
      by (auto simp: c awaited_receive_def bus_seq_def)
  next
    case (Suc n')
    from bus_read_ready [OF carried v1 [unfolded Suc]] obtain r w2 where
      read: "dbus_read K (s, w1) = Inr (r, s, w2)" and
      r: "(\<exists>m ms'. ms = m # ms' \<and> r = Inr m \<and> bus_carries wcons rcons bus_name view (a, s, w2) ms') \<or>
        r = Inl NO_DATA_AVAILABLE \<and> bus_carries wcons rcons bus_name view (a, s, w2) ms \<and>
          bus_delay view (a, s, w2) < bus_delay view (a, s, w1)"
      by blast
    have "awaited_receive (dbus_iface K) c = Some (Inr (r, a, s, w2))"
      using await Suc read by (simp add: c awaited_receive_def channel_receive_def)
    moreover have "bus_seq (a, s, w2) = bus_seq c"
      by (simp add: c bus_seq_def)
    ultimately show ?thesis
      using r less_le_trans [OF _ delay] by blast
  qed
qed

end

sublocale dbus_bus \<subseteq> busch: message_channel "channel_send (dbus_iface K)"
  "awaited_receive (dbus_iface K)" "bus_carries wcons rcons bus_name view" bus_seq "bus_delay view"
proof (unfold_locales, goal_cases)
  case (1 c ms obj)
  from send_bus [OF 1] show ?case by blast
next
  case (2 c m ms)
  from receive_bus [OF 2] show ?case by blast
next
  case (3 c)
  from receive_bus [OF 3] show ?case by blast
next
  case (4 c ms obj c')
  from send_bus [OF 4(1), of obj] 4(2) show ?case by auto
next
  case (5 c ms obj c')
  from send_bus [OF 5(1), of obj] 5(2) show ?case by auto
qed

section \<open>Sessions\<close>

context dbus_bus
begin

lemma bus_session_run:
  assumes "bus_carries wcons rcons bus_name view c []"
  shows "\<exists>n s. channel_run (channel_send (dbus_iface K)) (awaited_receive (dbus_iface K))
      (as @ replicate n Receive) (start_run c) = Some (Inr s) \<and>
    map snd (rs_received s) = rs_sent s \<and>
    (rs_failed s = 0 \<longrightarrow> map (h_id \<circ> fst) (rs_received s) = numbers (bus_seq c) (length (rs_sent s))) \<and>
    set (rs_errors s) \<subseteq> {NO_DATA_AVAILABLE}"
  by (rule busch.run_then_drain [OF assms])

end

lemma dbus_opened:
  assumes "dbus_open K (dbus_new name server, w) = (True, s, w')"
  shows "length (db_buffer s) = 528 \<and> db_last_id s = 0 \<and> db_name s = name"
  using assms
  by (auto simp: dbus_defs dbus_new_def Let_def split: prod.splits if_splits option.splits)

text \<open>
  An executable reference bus with one connection, 1, on which the server's name is
  \<open>ipc.ipc-handler.server\<close>.  Whoever gets that name receives a signal of the bus first, and
  \<open>bk_noise\<close> further ones arrive later, one whenever somebody sends or waits.
\<close>

record bus_kernel =
  bk_time :: u64
  bk_queue :: "dbus_item list"
  bk_read :: nat
  bk_noise :: nat

definition bus_arrival :: "bus_kernel \<Rightarrow> bus_kernel" where
  "bus_arrival k =
     (if 0 < bk_noise k then k\<lparr>bk_queue := bk_queue k @ [Other_Message], bk_noise := bk_noise k - 1\<rparr>
      else k)"

definition bus_kernel_name :: string where
  "bus_kernel_name = ''ipc.ipc-handler.server''"

fun add_arg :: "dbus_arg \<Rightarrow> dbus_item \<Rightarrow> dbus_item" where
  "add_arg a (Call c) = Call (c\<lparr>call_args := call_args c @ [a]\<rparr>)"
| "add_arg a Other_Message = Other_Message"

fun fill_array :: "byte list \<Rightarrow> dbus_item \<Rightarrow> dbus_item" where
  "fill_array bs (Call c) = Call (c\<lparr>call_args := butlast (call_args c) @ [Arg_Bytes bs]\<rparr>)"
| "fill_array bs Other_Message = Other_Message"

fun item_args :: "dbus_item \<Rightarrow> dbus_arg list" where
  "item_args (Call c) = call_args c"
| "item_args Other_Message = []"

fun item_path :: "dbus_item \<Rightarrow> string" where
  "item_path (Call c) = call_path c"
| "item_path Other_Message = []"

definition some_args :: "dbus_arg list \<Rightarrow> dbus_arg list option" where
  "some_args as = (if as = [] then None else Some as)"

definition bus_calls :: "(bus_kernel, dbus_item, dbus_arg list) dbus_lib" where
  "bus_calls = \<lparr>
     os_clock = (\<lambda>k. (bk_time k, k\<lparr>bk_time := bk_time k + 1\<rparr>)),
     os_poll = (\<lambda>_ _ k. (0, k)),
     dl_bus_get = (\<lambda>k. (Some 1, k)),
     dl_request_name = (\<lambda>_ _ k. (1, k\<lparr>bk_queue := bk_queue k @ [Other_Message]\<rparr>)),
     dl_release_name = (\<lambda>_ _ k. k),
     dl_flush = (\<lambda>_ k. k),
     dl_unref_connection = (\<lambda>_ k. k),
     dl_read_write = (\<lambda>_ _ k. (True, (bus_arrival k)\<lparr>bk_read := length (bk_queue (bus_arrival k))\<rparr>)),
     dl_dispatch_status = (\<lambda>_ k.
       if 0 < bk_read k then DBUS_DISPATCH_DATA_REMAINS else DBUS_DISPATCH_COMPLETE),
     dl_new_method_call = (\<lambda>d p i m k. (Some (Call \<lparr>call_destination = d, call_path = p,
       call_interface = i, call_member = m, call_args = []\<rparr>), k)),
     dl_set_no_reply = (\<lambda>_ msg. msg),
     dl_append_uint32 = (\<lambda>n msg k. (True, add_arg (Arg_UInt32 n) msg, k)),
     dl_append_int64 = (\<lambda>t msg k. (True, add_arg (Arg_Int64 t) msg, k)),
     dl_open_array = (\<lambda>msg k. (True, add_arg (Arg_Bytes []) msg, k)),
     dl_append_bytes = (\<lambda>bs msg k. (True, fill_array bs msg, k)),
     dl_close_array = (\<lambda>msg k. (True, msg, k)),
     dl_send = (\<lambda>_ msg k. (True, (bus_arrival k)\<lparr>bk_queue := bk_queue (bus_arrival k) @ [msg]\<rparr>)),
     dl_unref = (\<lambda>_ k. k),
     dl_pop_message = (\<lambda>_ k.
       if 0 < bk_read k \<and> bk_queue k \<noteq> []
       then (Some (hd (bk_queue k)), k\<lparr>bk_queue := tl (bk_queue k), bk_read := bk_read k - 1\<rparr>)
       else (None, k)),
     dl_is_method_call = call_matches,
     dl_get_path = item_path,
     dl_iter_init = (\<lambda>msg. some_args (item_args msg)),
     dl_iter_next = (\<lambda>it. some_args (tl it)),
     dl_arg_type = (\<lambda>it. arg_type (hd it)),
     dl_element_type = (\<lambda>it. element_type (hd it)),
     dl_get_uint32 = (\<lambda>it. case hd it of Arg_UInt32 n \<Rightarrow> n | _ \<Rightarrow> 0),
     dl_get_int64 = (\<lambda>it. case hd it of Arg_Int64 t \<Rightarrow> t | _ \<Rightarrow> 0),
     dl_get_bytes = (\<lambda>it. case hd it of Arg_Array _ bs \<Rightarrow> bs | _ \<Rightarrow> [])\<rparr>"

definition bus_view :: "bus_kernel \<Rightarrow> bus_state" where
  "bus_view k = (bk_queue k, bk_read k, bk_noise k)"

definition bus_boot :: bus_kernel where
  "bus_boot = \<lparr>bk_time = 1000, bk_queue = [], bk_read = 0, bk_noise = 3\<rparr>"

lemma bus_arrival_more: "bus_more (bus_view k) (bus_view (bus_arrival k))"
  by (simp add: bus_arrival_def bus_view_def call_matches_def)

lemma bus_arrival_sent:
  "\<exists>v. bus_more (bus_view k) v \<and>
     bus_more (add_item x v) (bus_view ((bus_arrival k)\<lparr>bk_queue := bk_queue (bus_arrival k) @ [x]\<rparr>))"
  by (rule exI [of _ "bus_view (bus_arrival k)"], rule conjI [OF bus_arrival_more]) (simp add: bus_view_def)

interpretation kernel_bus: dbus_bus bus_calls id id "{1}" "{1}" bus_kernel_name bus_view
proof (unfold_locales, goal_cases)
  case (21 con msg c k ok k')
  then show ?case
    using bus_arrival_sent [of k "Call c"] by (auto simp: bus_calls_def simp del: bus_more.simps add_item.simps)
qed (auto simp: bus_calls_def bus_view_def some_args_def bus_arrival_def call_matches_def)

text \<open>C5. D-Bus end to end: after the server obtained its name and the client its connection, any
  interleaving of writes and reads by a reader that waits first neither faults nor hangs, however the
  other messages on the bus - a finite number of them, on their way already or arriving during any call -
  come in between; those are skipped, and a finite number of further reads delivers exactly the objects
  whose write returned true, in order, unchanged - the type recovered from the object path - and numbered
  consecutively if no write failed.\<close>

theorem dbus_delivers:
  assumes "dbus_bus K item rest wcons rcons name view"
    and "dbus_open K (dbus_new name True, w) = (True, sr, w1)"
    and "dbus_open K (dbus_new name False, w1) = (True, sw, w2)"
    and "db_con sr \<in> Some ` rcons" and "db_con sw \<in> Some ` wcons"
    and "view w2 = (q, n, k)" and "n \<le> length q"
    and "filter (\<lambda>x. call_matches x INTERFACE_NAME METHOD_NAME) q = []"
  shows "\<exists>n s. channel_run (channel_send (dbus_iface K)) (awaited_receive (dbus_iface K))
      (as @ replicate n Receive) (start_run (sw, sr, w2)) = Some (Inr s) \<and>
    map snd (rs_received s) = rs_sent s \<and>
    (rs_failed s = 0 \<longrightarrow> map (h_id \<circ> fst) (rs_received s) = numbers 0 (length (rs_sent s))) \<and>
    set (rs_errors s) \<subseteq> {NO_DATA_AVAILABLE}"
proof -
  have "bus_carries wcons rcons name view (sw, sr, w2) []"
    using dbus_opened [OF assms(3)] assms(4-8) by (simp add: bus_carries_def)
  from dbus_bus.bus_session_run [OF assms(1) this, of as] dbus_opened [OF assms(3)] show ?thesis
    by (simp add: bus_seq_def)
qed

theorem dbus_delivers_witness:
  "let (_, sr, w1) = dbus_open bus_calls (dbus_new bus_kernel_name True, bus_boot);
       (_, sw, w2) = dbus_open bus_calls (dbus_new bus_kernel_name False, w1)
   in \<exists>n s. channel_run (channel_send (dbus_iface bus_calls)) (awaited_receive (dbus_iface bus_calls))
      ([Send Ping, Receive, Send Ping] @ replicate n Receive) (start_run (sw, sr, w2)) = Some (Inr s) \<and>
    map snd (rs_received s) = rs_sent s \<and>
    (rs_failed s = 0 \<longrightarrow> map (h_id \<circ> fst) (rs_received s) = numbers 0 (length (rs_sent s))) \<and>
    set (rs_errors s) \<subseteq> {NO_DATA_AVAILABLE}"
proof -
  obtain sr w1 where r: "dbus_open bus_calls (dbus_new bus_kernel_name True, bus_boot) = (True, sr, w1)"
      "db_con sr \<in> Some ` {1}" "w1 = bus_boot\<lparr>bk_queue := [Other_Message]\<rparr>"
    by (simp add: dbus_defs dbus_new_def bus_calls_def bus_boot_def
        DBUS_REQUEST_NAME_REPLY_PRIMARY_OWNER_def)
  obtain sw w2 where s: "dbus_open bus_calls (dbus_new bus_kernel_name False, w1) = (True, sw, w2)"
      "db_con sw \<in> Some ` {1}" "w2 = w1"
    by (simp add: dbus_defs dbus_new_def bus_calls_def)
  have v: "bus_view w2 = ([Other_Message], 0, 3)" "0 \<le> length [Other_Message]"
      "filter (\<lambda>x. call_matches x INTERFACE_NAME METHOD_NAME) [Other_Message] = []"
    by (simp_all add: s(3) r(3) bus_view_def bus_boot_def call_matches_def)
  show ?thesis
    using dbus_delivers [OF kernel_bus.dbus_bus_axioms r(1) s(1) r(2) s(2) v]
    by (simp only: r(1) s(1) Let_def case_prod_conv)
qed

text \<open>C32. A read of an arbitrary message: a message that is no call of the handler's method is consumed
  and reported as no data; for a call, the result depends on its path and its first three arguments
  only.  A call without arguments, or with other arguments than a number, a time and an array of bytes -
  an array of other elements included -, is reported as invalid data - unless its path is shorter than the prefix, which is an access behind the
  end of the string, or has no number there, whose exception ends the reader.\<close>

theorem dbus_read_spec:
  assumes "dbus_messages K item rest"
    and "db_con s = Some c" and "dl_pop_message K c w = (Some msg, w')"
  shows "dbus_read K (s, w) =
    (case item msg of
       Other_Message \<Rightarrow> Inr (Inl NO_DATA_AVAILABLE, s, dl_unref K msg w')
     | Call call \<Rightarrow>
         if call_interface call \<noteq> INTERFACE_NAME \<or> call_member call \<noteq> METHOD_NAME
         then Inr (Inl NO_DATA_AVAILABLE, s, dl_unref K msg w')
         else if call_args call = [] then Inr (Inl INVALID_DATA, s, dl_unref K msg w')
         else if length (call_path call) < length PATH_PREFIX then Inl Out_Of_Bounds
         else
           case stoull 10 (drop (length PATH_PREFIX) (call_path call)) of
             Inl f \<Rightarrow> Inl f
           | Inr n \<Rightarrow>
               Inr (decode_args (type_of_code (ucast n)) (call_args call), s, dl_unref K msg w'))"
  unfolding dbus_messages.dbus_read_message [OF assms]
  by (auto simp: call_matches_def decode_call_def path_type_def and_then_def
      split: dbus_item.splits sum.splits)

text \<open>The calls in the witness: one whose path has no number, and one with an array of other elements.\<close>

definition bad_call :: dbus_call where
  "bad_call = \<lparr>call_destination = bus_kernel_name, call_path = PATH_PREFIX @ ''x'',
     call_interface = INTERFACE_NAME, call_member = METHOD_NAME, call_args = [Arg_Other]\<rparr>"

definition odd_call :: dbus_call where
  "odd_call = \<lparr>call_destination = bus_kernel_name, call_path = PATH_PREFIX @ to_string 0,
     call_interface = INTERFACE_NAME, call_member = METHOD_NAME,
     call_args = [Arg_UInt32 1, Arg_Int64 500, Arg_Array DBUS_TYPE_INT64 []]\<rparr>"

definition bus_with :: "dbus_call \<Rightarrow> bus_kernel" where
  "bus_with c = bus_boot\<lparr>bk_queue := [Call c], bk_read := 1\<rparr>"

theorem dbus_read_spec_witness:
  "let s = (dbus_new bus_kernel_name True)\<lparr>db_con := Some 1\<rparr> in
   dbus_read bus_calls (s, bus_with bad_call) = Inl Uncaught_Exception \<and>
   dbus_read bus_calls (s, bus_with odd_call) = Inr (Inl INVALID_DATA, s, bus_boot)"
proof -
  let ?s = "(dbus_new bus_kernel_name True)\<lparr>db_con := Some 1\<rparr>"
  have con: "db_con ?s = Some 1" by simp
  have pop: "dl_pop_message bus_calls 1 (bus_with c) = (Some (Call c), bus_boot)" for c
    by (simp add: bus_calls_def bus_with_def bus_boot_def)
  have path: "stoull 10 ''x'' = Inl Uncaught_Exception"
    by code_simp
  have zero: "stoull 10 (to_string 0) = Inr 0"
    using stoull_digits_string [of 0 "[]"] by (simp add: to_string_def)
  note spec = dbus_read_spec [OF kernel_bus.dbus_messages_axioms con pop, unfolded id_apply]
  have "dbus_read bus_calls (?s, bus_with bad_call) = Inl Uncaught_Exception"
    unfolding spec by (simp add: path bad_call_def)
  moreover have "dbus_read bus_calls (?s, bus_with odd_call) = Inr (Inl INVALID_DATA, ?s, bus_boot)"
    unfolding spec by (simp add: zero odd_call_def) (simp add: bus_calls_def)
  ultimately show ?thesis by (simp only: Let_def)
qed

end
