(* ===== verification/Benchmark_Channels.thy ===== *)
theory Benchmark_Channels
  imports Benchmark_Interface Fifo_Channel Message_Queue_Channel Datagram_Channel Stream_Channel
    Shared_Memory_Channel Shared_File_Channel DBus_Channel
begin

text \<open>
  The handlers under the benchmarks: every handler satisfies \<open>bench_handler\<close>, and a transport whose
  waiting calls report what is in transit is a \<open>message_source\<close>.
\<close>

section \<open>Every handler can be benchmarked\<close>

interpretation bench_fifo: bench_handler "fifo_iface K" fifo_inv fifo_seq body_capacity
  for K :: "'w fifo_os"
  by unfold_locales (auto simp: fifo_inv_def fifo_is_open_def fifo_seq_def)

interpretation bench_mq: bench_handler "mq_iface K" mq_inv mq_seq body_capacity
  for K :: "'w mq_os"
  by unfold_locales (auto simp: mq_inv_def mq_is_open_def mq_seq_def)

interpretation bench_dgram: bench_handler "dgram_iface K" dgram_inv dgram_seq body_capacity
  for K :: "'w sock_os"
  by unfold_locales (auto simp: dgram_inv_def dgram_is_open_def dgram_seq_def)

interpretation bench_stream: bench_handler "stream_iface K" stream_inv stream_seq body_capacity
  for K :: "'w sock_os"
  by unfold_locales (auto simp: stream_inv_def stream_is_open_def stream_seq_def)

interpretation bench_shm: bench_handler "shm_iface K" shm_inv shm_seq body_capacity
  for K :: "'w shm_os"
  by unfold_locales (auto simp: shm_inv_def shm_is_open_def shm_seq_def)

interpretation bench_file: bench_handler "file_iface K" file_inv file_seq body_capacity
  for K :: "'w file_os"
  by unfold_locales (auto simp: file_inv_def file_is_open_def file_seq_def)

interpretation bench_dbus: bench_handler "dbus_iface K" dbus_inv dbus_seq BUFFER_SIZE
  for K :: "('w, 'm, 'i) dbus_lib"
  by unfold_locales (auto simp: dbus_inv_def dbus_is_open_def dbus_seq_def)

section \<open>From channels to message sources\<close>

lemma channel_receive_Some:
  "channel_receive I (a, b, w) = Some (Inr (r, c)) \<longleftrightarrow>
     (\<exists>b' w'. c_read I (b, w) = Some (Inr (r, b', w')) \<and> c = (a, b', w'))"
proof (cases "c_read I (b, w)")
  case (Some res)
  then show ?thesis
    by (cases res) (auto simp: channel_receive_def)
qed (simp add: channel_receive_def)

text \<open>
  Two handlers that a benchmark runs on, with the messages \<open>carries\<close> in transit: the client's writes
  add to them, waiting and reading of the server take them, with the \<open>effort\<close> that \<open>message_source\<close>
  describes, and what the programs do besides leaves them alone.
\<close>

locale benched_channel =
  bench_handler I invar last_seq capacity + message_sender "channel_send I" carries seq
  for I :: "('s \<times> 'w) comm_iface" and invar last_seq capacity
    and carries :: "'s \<times> 's \<times> 'w \<Rightarrow> message list \<Rightarrow> bool"
    and seq +
  fixes effort :: "bool \<Rightarrow> 's \<times> 's \<times> 'w \<Rightarrow> nat"
    and B :: "'w bench_os"
  assumes clock_carried: "\<lbrakk>carries (a, s, w) ms; os_clock B w = (ts, w')\<rbrakk> \<Longrightarrow>
      carries (a, s, w') ms \<and> effort more_data (a, s, w') \<le> effort more_data (a, s, w)"
    and sleep_carried: "carries (a, s, w) ms \<Longrightarrow> carries (a, s, os_sleep_for B d w) ms"
    and rand_carried: "\<lbrakk>carries (a, s, w) ms; os_rand B w = (r, w')\<rbrakk> \<Longrightarrow> carries (a, s, w') ms"
    and sleep_until_carried: "carries (a, s, w) ms \<Longrightarrow> carries (a, s, os_sleep_until B ts w) ms"
    and writer_seq: "seq (a, s, w) = seq (a, s', w')"
    and await_carried: "carries (a, s, w) (m # ms) \<Longrightarrow> \<exists>ready s' w'.
      c_await_data I (s, w) = (ready, s', w') \<and> carries (a, s', w') (m # ms) \<and>
      (if ready then effort True (a, s', w') \<le> effort False (a, s, w)
       else effort False (a, s', w') < effort False (a, s, w))"
    and read_carried: "carries (a, s, w) (m # ms) \<Longrightarrow> \<exists>r s' w'.
      c_read I (s, w) = Some (Inr (r, s', w')) \<and>
      (r = Inr m \<and> carries (a, s', w') ms \<or>
       r = Inl NO_DATA_AVAILABLE \<and> carries (a, s', w') (m # ms) \<and>
         effort False (a, s', w') < effort True (a, s, w))"
    and await_none: "carries (a, s, w) [] \<Longrightarrow> \<exists>ready s' w'.
      c_await_data I (s, w) = (ready, s', w') \<and> carries (a, s', w') [] \<and>
      (if ready then \<exists>s'' w''. c_read I (s', w') = Some (Inr (Inl NO_DATA_AVAILABLE, s'', w'')) \<and>
         carries (a, s'', w'') [] \<and> effort False (a, s'', w'') < effort False (a, s, w)
       else effort False (a, s', w') \<le> effort False (a, s, w))"
    and read_none: "carries (a, s, w) [] \<Longrightarrow> \<exists>s' w'.
      c_read I (s, w) = Some (Inr (Inl NO_DATA_AVAILABLE, s', w')) \<and> carries (a, s', w') []"

text \<open>Two such handlers that lose nothing.\<close>

locale benched_pair =
  benched_channel I invar last_seq capacity carries seq effort B +
  reliable_sender "channel_send I" carries seq
  for I :: "('s \<times> 'w) comm_iface" and invar last_seq capacity carries seq effort B

text \<open>
  The channel seen from its reader: \<open>writer\<close> stands for the other end, which a run of the reader leaves
  alone.
\<close>

sublocale benched_channel \<subseteq> source: message_source I invar last_seq capacity
  "\<lambda>(s, w) ms. carries (writer, s, w) ms \<and> invar (s, w)" "\<lambda>more_data (s, w). effort more_data (writer, s, w)" B
  for writer
proof (unfold_locales, goal_cases)
  case (1 h ms)
  then show ?case by (cases h) simp
next
  case (2 s w ms ts w' more_data)
  with clock_carried [of writer s w ms ts w' more_data] invar_world [of s w w'] show ?case by simp
next
  case (3 h m ms)
  obtain s w where h: "h = (s, w)" by (cases h)
  from 3 have carried: "carries (writer, s, w) (m # ms)" and inv: "invar (s, w)" by (simp_all add: h)
  from await_carried [OF carried] obtain ready s' w' where
    await: "c_await_data I (s, w) = (ready, s', w')" and still: "carries (writer, s', w') (m # ms)"
    and progress: "if ready then effort True (writer, s', w') \<le> effort False (writer, s, w)
       else effort False (writer, s', w') < effort False (writer, s, w)"
    by blast
  have "invar (s', w')"
    using await_law [OF inv await] by simp
  with still progress show ?case
    by (simp add: h await)
next
  case (4 h m ms)
  then show ?case
    using read_carried [of writer "fst h" "snd h" m ms] read_law [of h]
    by (cases h) fastforce
next
  case (5 h)
  obtain s w where h: "h = (s, w)" by (cases h)
  from 5 have carried: "carries (writer, s, w) []" and inv: "invar (s, w)" by (simp_all add: h)
  from await_none [OF carried] obtain ready s' w' where
    await: "c_await_data I (s, w) = (ready, s', w')" and none: "carries (writer, s', w') []"
    and next_read: "if ready then \<exists>s'' w''. c_read I (s', w') = Some (Inr (Inl NO_DATA_AVAILABLE, s'', w'')) \<and>
         carries (writer, s'', w'') [] \<and> effort False (writer, s'', w'') < effort False (writer, s, w)
       else effort False (writer, s', w') \<le> effort False (writer, s, w)"
    by blast
  have inv': "invar (s', w')"
    using await_law [OF inv await] by simp
  from next_read inv' read_law [OF inv'] show ?case
    by (cases ready) (fastforce simp: h await none)+
next
  case (6 h)
  then show ?case
    using read_none [of writer "fst h" "snd h"] read_law [of h]
    by (cases h) fastforce
qed

section \<open>Channels that are polled\<close>

text \<open>
  A channel of Channel on which waiting reports exactly whether there are messages is one of these.
\<close>

locale polled_channel =
  bench_handler I invar last_seq capacity +
  lossy_channel "channel_send I" "channel_receive I" carries seq delay
  for I :: "('s \<times> 'w) comm_iface" and invar last_seq capacity
    and carries :: "'s \<times> 's \<times> 'w \<Rightarrow> message list \<Rightarrow> bool"
    and seq delay +
  fixes B :: "'w bench_os"
  assumes carries_clock: "\<lbrakk>carries (a, s, w) ms; os_clock B w = (ts, w')\<rbrakk> \<Longrightarrow>
      carries (a, s, w') ms \<and> delay (a, s, w') \<le> delay (a, s, w)"
    and carries_sleep: "carries (a, s, w) ms \<Longrightarrow> carries (a, s, os_sleep_for B d w) ms"
    and carries_rand: "\<lbrakk>carries (a, s, w) ms; os_rand B w = (r, w')\<rbrakk> \<Longrightarrow> carries (a, s, w') ms"
    and carries_sleep_until: "carries (a, s, w) ms \<Longrightarrow> carries (a, s, os_sleep_until B ts w) ms"
    and seq_of_writer: "seq (a, s, w) = seq (a, s', w')"
    and carries_await: "carries (a, s, w) ms \<Longrightarrow> \<exists>s' w'.
      c_await_data I (s, w) = (ms \<noteq> [], s', w') \<and> carries (a, s', w') ms \<and>
      delay (a, s', w') \<le> delay (a, s, w)"

sublocale polled_channel \<subseteq> linked: benched_channel I invar last_seq capacity carries seq "\<lambda>_. delay" B
proof (unfold_locales, goal_cases)
  case (1 a s w ms ts w' more_data)
  then show ?case by (rule carries_clock)
next
  case (2 a s w ms d)
  then show ?case by (rule carries_sleep)
next
  case (3 a s w ms r w')
  then show ?case by (rule carries_rand)
next
  case (4 a s w ms ts)
  then show ?case by (rule carries_sleep_until)
next
  case (5 a s w s' w')
  show ?case by (rule seq_of_writer)
next
  case (6 a s w m ms)
  from carries_await [OF 6] show ?case by auto
next
  case (7 a s w m ms)
  from receive_law [OF 7] show ?case
    by (fastforce simp: channel_receive_Some)
next
  case (8 a s w)
  from carries_await [OF 8] show ?case by auto
next
  case (9 a s w)
  from receive_empty [OF 9] show ?case
    by (fastforce simp: channel_receive_Some)
qed

context polled_channel
begin

lemma never_late: "carries (a, s, w) (m # ms) \<Longrightarrow> fst (c_await_data I (s, w))"
  using carries_await [of a s w "m # ms"] by auto

end

locale polled_pair =
  polled_channel I invar last_seq capacity carries seq delay B +
  message_channel "channel_send I" "channel_receive I" carries seq delay
  for I :: "('s \<times> 'w) comm_iface" and invar last_seq capacity carries seq delay B

sublocale polled_pair \<subseteq> session: benched_pair I invar last_seq capacity carries seq "\<lambda>_. delay" B
  by unfold_locales

section \<open>Transports that can be polled\<close>

lemma concat_wire_Nil: "concat (map wire ms) = [] \<longleftrightarrow> ms = []"
proof (cases ms)
  case (Cons m ms')
  moreover have "wire m \<noteq> []"
    by (cases m) (metis length_header_bytes append_is_Nil_conv list.size(3) sizeof_header_val
        wire.simps zero_neq_numeral)
  ultimately show ?thesis by simp
qed simp

locale polled_pipe_os = pipe_os K wfd rfd pipe
  for K :: "'w fifo_os" and wfd rfd pipe +
  fixes B :: "'w bench_os"
  assumes bench_clock: "os_clock B w = (ts, w') \<Longrightarrow> pipe w' = pipe w"
    and bench_sleep: "pipe (os_sleep_for B d w) = pipe w" "pipe (os_sleep_until B until w) = pipe w"
    and bench_rand: "os_rand B w = (n, w') \<Longrightarrow> pipe w' = pipe w"
    and poll_pipe: "os_poll K [\<lparr>pfd_fd = rfd, pfd_events = [POLLIN]\<rparr>] t w = (r, w') \<Longrightarrow>
      (0 < r \<longleftrightarrow> pipe w \<noteq> []) \<and> pipe w' = pipe w"

sublocale polled_pipe_os \<subseteq> bench: polled_pair "fifo_iface K" fifo_inv fifo_seq body_capacity
  "fifo_carries wfd rfd pipe" fifo_pair_seq "\<lambda>_. 0" B
proof (unfold_locales, goal_cases)
  case (1 a s w ms ts w')
  with bench_clock [of w ts w'] show ?case by (simp add: fifo_carries_def)
next
  case (2 a s w ms d)
  then show ?case by (simp add: fifo_carries_def bench_sleep)
next
  case (3 a s w ms r w')
  with bench_rand [of w r w'] show ?case by (simp add: fifo_carries_def)
next
  case (4 a s w ms ts)
  then show ?case by (simp add: fifo_carries_def bench_sleep)
next
  case (5 a s w s' w')
  show ?case by (simp add: fifo_pair_seq_def)
next
  case (6 a s w ms)
  obtain r w' where
    polled: "os_poll K [\<lparr>pfd_fd = rfd, pfd_events = [POLLIN]\<rparr>] WAIT_TIME w = (r, w')"
    by fastforce
  from 6 polled poll_pipe [OF polled] descriptors show ?case
    by (simp add: fifo_carries_def fifo_await_data_def poll_def concat_wire_Nil
        del: concat_eq_Nil_conv)
qed

locale polled_mqueue_os = mqueue_os K wq rq queue
  for K :: "'w mq_os" and wq rq queue +
  fixes B :: "'w bench_os"
  assumes bench_clock: "os_clock B w = (ts, w') \<Longrightarrow> queue w' = queue w"
    and bench_sleep: "queue (os_sleep_for B d w) = queue w" "queue (os_sleep_until B until w) = queue w"
    and bench_rand: "os_rand B w = (n, w') \<Longrightarrow> queue w' = queue w"
    and poll_queue: "os_poll K [\<lparr>pfd_fd = rq, pfd_events = [POLLIN]\<rparr>] t w = (r, w') \<Longrightarrow>
      (0 < r \<longleftrightarrow> queue w \<noteq> []) \<and> queue w' = queue w"

sublocale polled_mqueue_os \<subseteq> bench: polled_pair "mq_iface K" mq_inv mq_seq body_capacity
  "mq_carries wq rq queue" mq_pair_seq "\<lambda>_. 0" B
proof (unfold_locales, goal_cases)
  case (1 a s w ms ts w')
  with bench_clock [of w ts w'] show ?case by (simp add: mq_carries_def)
next
  case (2 a s w ms d)
  then show ?case by (simp add: mq_carries_def bench_sleep)
next
  case (3 a s w ms r w')
  with bench_rand [of w r w'] show ?case by (simp add: mq_carries_def)
next
  case (4 a s w ms ts)
  then show ?case by (simp add: mq_carries_def bench_sleep)
next
  case (5 a s w s' w')
  show ?case by (simp add: mq_pair_seq_def)
next
  case (6 a s w ms)
  obtain r w' where
    polled: "os_poll K [\<lparr>pfd_fd = rq, pfd_events = [POLLIN]\<rparr>] WAIT_TIME w = (r, w')"
    by fastforce
  from 6 polled poll_queue [OF polled] descriptors show ?case
    by (auto simp: mq_carries_def mq_await_data_def poll_def)
qed

locale polled_dgram_os = dgram_os K wfd rfd addr queue
  for K :: "'w sock_os" and wfd rfd addr queue +
  fixes B :: "'w bench_os"
  assumes bench_clock: "os_clock B w = (ts, w') \<Longrightarrow> queue w' = queue w"
    and bench_sleep: "queue (os_sleep_for B d w) = queue w" "queue (os_sleep_until B until w) = queue w"
    and bench_rand: "os_rand B w = (n, w') \<Longrightarrow> queue w' = queue w"
    and poll_queue: "os_poll K [\<lparr>pfd_fd = rfd, pfd_events = [POLLIN]\<rparr>] t w = (r, w') \<Longrightarrow>
      (0 < r \<longleftrightarrow> queue w \<noteq> []) \<and> queue w' = queue w"

sublocale polled_dgram_os \<subseteq> bench: polled_channel "dgram_iface K" dgram_inv dgram_seq body_capacity
  "dgram_carries wfd rfd addr queue" dgram_pair_seq "\<lambda>_. 0" B
proof (unfold_locales, goal_cases)
  case (1 a s w ms ts w')
  with bench_clock [of w ts w'] show ?case by (simp add: dgram_carries_def)
next
  case (2 a s w ms d)
  then show ?case by (simp add: dgram_carries_def bench_sleep)
next
  case (3 a s w ms r w')
  with bench_rand [of w r w'] show ?case by (simp add: dgram_carries_def)
next
  case (4 a s w ms ts)
  then show ?case by (simp add: dgram_carries_def bench_sleep)
next
  case (5 a s w s' w')
  show ?case by (simp add: dgram_pair_seq_def)
next
  case (6 a s w ms)
  obtain r w' where
    polled: "os_poll K [\<lparr>pfd_fd = rfd, pfd_events = [POLLIN]\<rparr>] WAIT_TIME w = (r, w')"
    by fastforce
  from 6 polled poll_queue [OF polled] descriptors show ?case
    by (auto simp: dgram_carries_def dgram_await_data_def poll_def)
qed

locale polled_unix_dgram_os = polled_dgram_os K wfd rfd addr queue B + reliable_dgram_os K wfd rfd addr queue
  for K :: "'w sock_os" and wfd rfd addr queue B

sublocale polled_unix_dgram_os \<subseteq> pair: polled_pair "dgram_iface K" dgram_inv dgram_seq body_capacity
  "dgram_carries wfd rfd addr queue" dgram_pair_seq "\<lambda>_. 0" B
  by unfold_locales

text \<open>
  On a stream, bytes that were sent may be on their way when waiting times out; \<open>stall\<close> bounds this too.
\<close>

locale polled_stream_os = stream_os K wfd rfd flight stall
  for K :: "'w sock_os" and wfd rfd flight stall +
  fixes B :: "'w bench_os"
  assumes bench_clock: "os_clock B w = (ts, w') \<Longrightarrow> flight w' = flight w \<and> stall w' \<le> stall w"
    and bench_sleep: "flight (os_sleep_for B d w) = flight w" "flight (os_sleep_until B until w) = flight w"
    and bench_rand: "os_rand B w = (n, w') \<Longrightarrow> flight w' = flight w"
    and poll_flight: "os_poll K [\<lparr>pfd_fd = rfd, pfd_events = [POLLIN]\<rparr>] t w = (r, w') \<Longrightarrow>
      flight w' = flight w \<and> stall w' \<le> stall w \<and> (0 < r \<longrightarrow> flight w \<noteq> []) \<and>
      (flight w \<noteq> [] \<longrightarrow> 0 < r \<or> stall w' < stall w)"
begin

lemma stream_await:
  assumes "stream_carries wfd rfd flight (a, s, w) ms"
  shows "\<exists>ready w'. stream_await_data K (s, w) = (ready, s, w') \<and>
    stream_carries wfd rfd flight (a, s, w') ms \<and> stall w' \<le> stall w \<and>
    (if ready then ms \<noteq> [] else ms = [] \<or> stall w' < stall w)"
proof -
  obtain r w' where
    polled: "os_poll K [\<lparr>pfd_fd = rfd, pfd_events = [POLLIN]\<rparr>] WAIT_TIME w = (r, w')"
    by fastforce
  from assms polled poll_flight [OF polled] receiver_open show ?thesis
    by (intro exI [of _ "0 < r"] exI [of _ w'])
      (auto simp: stream_carries_def stream_await_data_def poll_def concat_wire_Nil
        simp del: concat_eq_Nil_conv)
qed

end

sublocale polled_stream_os \<subseteq> bench: benched_pair "stream_iface K" stream_inv stream_seq
  body_capacity "stream_carries wfd rfd flight" stream_pair_seq
  "\<lambda>_. stream_pair_stall stall" B
proof (unfold_locales, goal_cases)
  case (1 a s w ms ts w' more_data)
  with bench_clock [of w ts w'] show ?case
    by (simp add: stream_carries_def stream_pair_stall_def)
next
  case (2 a s w ms d)
  then show ?case by (simp add: stream_carries_def bench_sleep)
next
  case (3 a s w ms r w')
  with bench_rand [of w r w'] show ?case by (simp add: stream_carries_def)
next
  case (4 a s w ms ts)
  then show ?case by (simp add: stream_carries_def bench_sleep)
next
  case (5 a s w s' w')
  show ?case by (simp add: stream_pair_seq_def)
next
  case (6 a s w m ms)
  from stream_await [OF 6] obtain ready w' where
    "stream_await_data K (s, w) = (ready, s, w')" "stream_carries wfd rfd flight (a, s, w') (m # ms)"
    "stall w' \<le> stall w" "ready \<or> stall w' < stall w"
    by (auto split: if_splits)
  then show ?case
    by (intro exI [of _ ready] exI [of _ s] exI [of _ w']) (auto simp: stream_pair_stall_def)
next
  case (7 a s w m ms)
  from connection.receive_law [OF 7] show ?case
    by (fastforce simp: channel_receive_Some stream_pair_stall_def)
next
  case (8 a s w)
  from stream_await [OF 8] obtain w' where
    "stream_await_data K (s, w) = (False, s, w')" "stream_carries wfd rfd flight (a, s, w') []"
    "stall w' \<le> stall w"
    by (auto split: if_splits)
  then show ?case
    by (intro exI [of _ False] exI [of _ s] exI [of _ w']) (auto simp: stream_pair_stall_def)
next
  case (9 a s w)
  from connection.receive_empty [OF 9] show ?case
    by (fastforce simp: channel_receive_Some)
qed

locale polled_ring_os = ring_os K maps rsem wsem view
  for K :: "'w shm_os" and maps rsem wsem view +
  fixes B :: "'w bench_os"
  assumes bench_clock: "os_clock B w = (ts, w') \<Longrightarrow> view w' = view w"
    and bench_sleep: "view (os_sleep_for B d w) = view w" "view (os_sleep_until B until w) = view w"
    and bench_rand: "os_rand B w = (n, w') \<Longrightarrow> view w' = view w"
    and realtime_view: "\<exists>t w'. os_realtime K w = (Some t, w') \<and> view w' = view w"
    and timedwait_view: "\<lbrakk>p \<in> rsem; view w = (m, f, v)\<rbrakk> \<Longrightarrow>
      \<exists>w'. os_sem_timedwait K p t w = (if f = 0 then Some ETIMEDOUT else None, w') \<and>
        view w' = (m, f - 1, v)"

sublocale polled_ring_os \<subseteq> bench: polled_pair "shm_iface K" shm_inv shm_seq body_capacity
  "ring_carries maps rsem wsem view" ring_pair_seq "\<lambda>_. 0" B
proof (unfold_locales, goal_cases)
  case (1 a s w ms ts w')
  with bench_clock [of w ts w'] show ?case
    by (simp add: ring_carries_def)
next
  case (2 a s w ms d)
  then show ?case by (simp add: ring_carries_def bench_sleep)
next
  case (3 a s w ms r w')
  with bench_rand [of w r w'] show ?case by (simp add: ring_carries_def)
next
  case (4 a s w ms ts)
  then show ?case by (simp add: ring_carries_def bench_sleep)
next
  case (5 a s w s' w')
  show ?case by (simp add: ring_pair_seq_def)
next
  case (6 a s w ms)
  obtain m f v where view: "view w = (m, f, v)" by (metis prod_cases3)
  have s: "sm_fd s \<noteq> - 1" "sm_reader s \<in> rsem" and f: "f = length ms"
    using 6 by (simp_all add: ring_carries_def attached_def view)
  obtain sec nsec w1 where now: "os_realtime K w = (Some (sec, nsec), w1)"
    and view1: "view w1 = (m, f, v)"
    using realtime_view [of w] view by (metis surj_pair)
  obtain w2 where wait: "os_sem_timedwait K (sm_reader s) (sec + WAIT_TIME div 1000, nsec) w1 =
      (if f = 0 then Some ETIMEDOUT else None, w2)" and view2: "view w2 = (m, f - 1, v)"
    using timedwait_view [OF s(2) view1] by blast
  show ?case
  proof (cases "f = 0")
    case True
    with 6 s now wait view2 view f show ?thesis
      by (simp add: shm_await_data_def ring_carries_def)
  next
    case False
    then have "view (os_sem_post K (sm_reader s) w2) = view w"
      using post_reader_view [OF s(2) view2] view by simp
    with 6 s now wait f False show ?thesis
      by (simp add: shm_await_data_def ring_carries_def)
  qed
qed

locale polled_file_os = file_ring_os K handles rsem wsem view
  for K :: "'w file_os" and handles rsem wsem view +
  fixes B :: "'w bench_os"
  assumes bench_clock: "os_clock B w = (ts, w') \<Longrightarrow> view w' = view w"
    and bench_sleep: "view (os_sleep_for B d w) = view w" "view (os_sleep_until B until w) = view w"
    and bench_rand: "os_rand B w = (n, w') \<Longrightarrow> view w' = view w"
    and realtime_view: "\<exists>t w'. os_realtime K w = (Some t, w') \<and> view w' = view w"
    and timedwait_view: "\<lbrakk>p \<in> rsem; view w = (m, f, v)\<rbrakk> \<Longrightarrow>
      \<exists>w'. os_sem_timedwait K p t w = (if f = 0 then Some ETIMEDOUT else None, w') \<and>
        view w' = (m, f - 1, v)"

sublocale polled_file_os \<subseteq> bench: polled_pair "file_iface K" file_inv file_seq body_capacity
  "file_carries handles rsem wsem view" file_pair_seq "\<lambda>_. 0" B
proof (unfold_locales, goal_cases)
  case (1 a s w ms ts w')
  with bench_clock [of w ts w'] show ?case
    by (simp add: file_carries_def)
next
  case (2 a s w ms d)
  then show ?case by (simp add: file_carries_def bench_sleep)
next
  case (3 a s w ms r w')
  with bench_rand [of w r w'] show ?case by (simp add: file_carries_def)
next
  case (4 a s w ms ts)
  then show ?case by (simp add: file_carries_def bench_sleep)
next
  case (5 a s w s' w')
  show ?case by (simp add: file_pair_seq_def)
next
  case (6 a s w ms)
  obtain m f v where view: "view w = (m, f, v)" by (metis prod_cases3)
  have s: "fstream_is_open (sf_file s)" "sf_reader s \<in> rsem" and f: "f = length ms"
    using 6 by (auto simp: file_carries_def file_attached_def fstream_is_open_def view)
  obtain sec nsec w1 where now: "os_realtime K w = (Some (sec, nsec), w1)"
    and view1: "view w1 = (m, f, v)"
    using realtime_view [of w] view by (metis surj_pair)
  obtain w2 where wait: "os_sem_timedwait K (sf_reader s) (sec + WAIT_TIME div 1000, nsec) w1 =
      (if f = 0 then Some ETIMEDOUT else None, w2)" and view2: "view w2 = (m, f - 1, v)"
    using timedwait_view [OF s(2) view1] by blast
  show ?case
  proof (cases "f = 0")
    case True
    with 6 s now wait view2 view f show ?thesis
      by (simp add: file_await_data_def file_carries_def)
  next
    case False
    then have "view (os_sem_post K (sf_reader s) w2) = view w"
      using post_reader_view [OF s(2) view2] view by simp
    with 6 s now wait f False show ?thesis
      by (simp add: file_await_data_def file_carries_def)
  qed
qed

section \<open>D-Bus\<close>

text \<open>
  On D-Bus, waiting also reports messages that are not for the handler, and a read takes only messages
  that waiting has brought into the connection.  What a server may have to do in vain is therefore to
  discard the foreign messages, those on their way and those still to come, and to wait after a read
  that came too early.
\<close>

definition bus_effort :: "('w \<Rightarrow> bus_state) \<Rightarrow> bool \<Rightarrow> dbus \<times> dbus \<times> 'w \<Rightarrow> nat" where
  "bus_effort view more_data = (\<lambda>(sw, sr, w).
     2 * bus_delay view (sw, sr, w) + of_bool (more_data \<and> fst (snd (view w)) = 0))"

locale polled_dbus_bus = dbus_bus K item rest wcons rcons bus_name view
  for K :: "('w, 'm, 'i) dbus_lib" and item rest wcons rcons bus_name view +
  fixes B :: "'w bench_os"
  assumes bench_clock: "os_clock B w = (ts, w') \<Longrightarrow> bus_more (view w) (view w')"
    and bench_sleep: "bus_more (view w) (view (os_sleep_for B d w))"
      "bus_more (view w) (view (os_sleep_until B until w))"
    and bench_rand: "os_rand B w = (r, w') \<Longrightarrow> bus_more (view w) (view w')"
    and pop_empty: "\<lbrakk>con \<in> rcons; fst (snd (view w)) = 0\<rbrakk> \<Longrightarrow>
      \<exists>w'. dl_pop_message K con w = (None, w') \<and> bus_more (view w) (view w')"
begin

lemma bus_view_more:
  assumes "bus_carries wcons rcons bus_name view (a, s, w) ms" and "bus_more (view w) (view w')"
  shows "bus_carries wcons rcons bus_name view (a, s, w') ms"
    and "bus_effort view more_data (a, s, w') \<le> bus_effort view more_data (a, s, w)"
proof -
  note more = carries_more [OF assms refl refl refl]
  show "bus_carries wcons rcons bus_name view (a, s, w') ms"
    by (rule more(1))
  have "fst (snd (view w)) \<le> fst (snd (view w'))"
    using bus_more_calls(2) assms(2) by (metis prod.collapse)
  with more(2) show "bus_effort view more_data (a, s, w') \<le> bus_effort view more_data (a, s, w)"
    by (auto simp: bus_effort_def)
qed

lemma bus_await:
  assumes "bus_carries wcons rcons bus_name view (a, s, w) ms"
  shows "\<exists>w' q n k. dbus_await_data K (s, w) = (0 < n, s, w') \<and> view w' = (q, n, k) \<and>
    bus_carries wcons rcons bus_name view (a, s, w') ms \<and> (ms \<noteq> [] \<longrightarrow> 0 < n) \<and>
    bus_effort view (0 < n) (a, s, w') \<le> bus_effort view False (a, s, w)"
proof -
  from await_bus [OF assms] obtain w' q n k where
    "dbus_await_data K (s, w) = (0 < n, s, w')" "view w' = (q, n, k)"
    "bus_carries wcons rcons bus_name view (a, s, w') ms"
    "bus_delay view (a, s, w') \<le> bus_delay view (a, s, w)" "ms \<noteq> [] \<longrightarrow> 0 < n"
    by blast
  then show ?thesis
    by (intro exI [of _ w']) (simp add: bus_effort_def)
qed

lemma bus_read_any:
  assumes "bus_carries wcons rcons bus_name view (a, s, w) ms"
  shows "\<exists>r w'. dbus_read K (s, w) = Inr (r, s, w') \<and>
    ((\<exists>m ms'. ms = m # ms' \<and> r = Inr m \<and> bus_carries wcons rcons bus_name view (a, s, w') ms') \<or>
     r = Inl NO_DATA_AVAILABLE \<and> bus_carries wcons rcons bus_name view (a, s, w') ms \<and>
       bus_effort view False (a, s, w') < bus_effort view True (a, s, w))"
proof -
  obtain q n k where v: "view w = (q, n, k)" by (metis prod_cases3)
  show ?thesis
  proof (cases n)
    case 0
    from assms obtain con where con: "db_con s = Some con" "con \<in> rcons"
      by (auto simp: bus_carries_def)
    from pop_empty [OF con(2), of w] obtain w' where
      pop: "dl_pop_message K con w = (None, w')" and w': "bus_more (view w) (view w')"
      by (auto simp: v 0)
    have "bus_effort view False (a, s, w) < bus_effort view True (a, s, w)"
      by (simp add: bus_effort_def v 0)
    with bus_view_more(1) [OF assms w'] bus_view_more(2) [OF assms w', of False] pop con(1) show ?thesis
      by (auto simp: dbus_read_def)
  next
    case (Suc n')
    from bus_read_ready [OF assms v [unfolded Suc]] show ?thesis
      by (fastforce simp: bus_effort_def v Suc)
  qed
qed

end

sublocale polled_dbus_bus \<subseteq> bench: benched_pair "dbus_iface K" dbus_inv dbus_seq BUFFER_SIZE
  "bus_carries wcons rcons bus_name view" bus_seq "bus_effort view" B
proof (unfold_locales, goal_cases)
  case (1 a s w ms ts w' more_data)
  from bus_view_more [OF 1(1) bench_clock [OF 1(2)]] show ?case by simp
next
  case (2 a s w ms d)
  from bus_view_more(1) [OF 2 bench_sleep(1)] show ?case .
next
  case (3 a s w ms r w')
  from bus_view_more(1) [OF 3(1) bench_rand [OF 3(2)]] show ?case .
next
  case (4 a s w ms ts)
  from bus_view_more(1) [OF 4 bench_sleep(2)] show ?case .
next
  case (5 a s w s' w')
  show ?case by (simp add: bus_seq_def)
next
  case (6 a s w m ms)
  from bus_await [OF 6] show ?case by auto
next
  case (7 a s w m ms)
  from bus_read_any [OF 7] show ?case by auto
next
  case (8 a s w)
  from bus_await [OF 8] obtain w' q n k where await: "dbus_await_data K (s, w) = (0 < n, s, w')"
    and v: "view w' = (q, n, k)" and carried: "bus_carries wcons rcons bus_name view (a, s, w') []"
    and effort: "bus_effort view (0 < n) (a, s, w') \<le> bus_effort view False (a, s, w)"
    by blast
  show ?case
  proof (cases "0 < n")
    case False
    with await carried effort show ?thesis
      by (intro exI [of _ False] exI [of _ s] exI [of _ w']) simp
  next
    case True
    from bus_read_any [OF carried] obtain w'' where
      "dbus_read K (s, w') = Inr (Inl NO_DATA_AVAILABLE, s, w'')"
      "bus_carries wcons rcons bus_name view (a, s, w'') []"
      "bus_effort view False (a, s, w'') < bus_effort view True (a, s, w')" by auto
    with await carried effort True show ?thesis
      by (intro exI [of _ True] exI [of _ s] exI [of _ w']) auto
  qed
next
  case (9 a s w)
  from bus_read_any [OF 9] show ?case by auto
qed

end
