(* ===== verification/Benchmark_Runs.thy ===== *)
theory Benchmark_Runs
  imports Benchmark_Channels Latency_Benchmark Throughput_Benchmark Execution_Benchmark
    Realworld_Benchmark
begin

text \<open>
  The benchmarks on the handlers: the reference kernels can be polled, so every transport is a source
  of messages, and the properties of the benchmarks' runs.
\<close>

section \<open>The reference kernels under a benchmark\<close>

definition pipe_bench :: "pipe_kernel bench_os" where
  "pipe_bench = \<lparr>os_clock = os_clock pipe_calls, os_poll = os_poll pipe_calls,
     os_sleep_for = (\<lambda>_ k. k), os_sleep_until = (\<lambda>_ k. k), os_rand = (\<lambda>k. (7, k))\<rparr>"

definition mq_bench :: "mq_kernel bench_os" where
  "mq_bench = \<lparr>os_clock = os_clock mq_calls, os_poll = os_poll mq_calls,
     os_sleep_for = (\<lambda>_ k. k), os_sleep_until = (\<lambda>_ k. k), os_rand = (\<lambda>k. (7, k))\<rparr>"

definition dgram_bench :: "dgram_kernel bench_os" where
  "dgram_bench = \<lparr>os_clock = os_clock (dgram_calls False), os_poll = os_poll (dgram_calls False),
     os_sleep_for = (\<lambda>_ k. k), os_sleep_until = (\<lambda>_ k. k), os_rand = (\<lambda>k. (7, k))\<rparr>"

definition stream_bench :: "stream_kernel bench_os" where
  "stream_bench = \<lparr>os_clock = os_clock stream_calls, os_poll = os_poll stream_calls,
     os_sleep_for = (\<lambda>_ k. k), os_sleep_until = (\<lambda>_ k. k), os_rand = (\<lambda>k. (7, k))\<rparr>"

definition ring_bench :: "ring_kernel bench_os" where
  "ring_bench = \<lparr>os_clock = os_clock ring_calls, os_poll = os_poll ring_calls,
     os_sleep_for = (\<lambda>_ k. k), os_sleep_until = (\<lambda>_ k. k), os_rand = (\<lambda>k. (7, k))\<rparr>"

definition file_bench :: "file_kernel bench_os" where
  "file_bench = \<lparr>os_clock = os_clock file_calls, os_poll = os_poll file_calls,
     os_sleep_for = (\<lambda>_ k. k), os_sleep_until = (\<lambda>_ k. k), os_rand = (\<lambda>k. (7, k))\<rparr>"

definition bus_bench :: "bus_kernel bench_os" where
  "bus_bench = \<lparr>os_clock = os_clock bus_calls, os_poll = os_poll bus_calls,
     os_sleep_for = (\<lambda>_ k. k), os_sleep_until = (\<lambda>_ k. k), os_rand = (\<lambda>k. (7, k))\<rparr>"

interpretation polled_pipe: polled_pipe_os pipe_calls 3 4 pk_pipe pipe_bench
  by unfold_locales (auto simp: pipe_calls_def pipe_bench_def split: if_splits)

interpretation polled_mqueue: polled_mqueue_os mq_calls 6 5 qk_queue mq_bench
  by unfold_locales (auto simp: mq_calls_def mq_bench_def split: if_splits)

interpretation polled_dgram: polled_dgram_os "dgram_calls reliable" 6 5 addr dk_queue dgram_bench
  for reliable addr
  by unfold_locales (auto simp: dgram_calls_def dgram_bench_def split: if_splits)

interpretation polled_unix_dgram: polled_unix_dgram_os "dgram_calls True" 6 5 addr dk_queue dgram_bench
  for addr
  by unfold_locales

interpretation polled_stream: polled_stream_os stream_calls 6 7 sk_flight sk_stall stream_bench
  by unfold_locales (auto simp: stream_calls_def stream_bench_def split: if_splits)

interpretation polled_ring: polled_ring_os ring_calls "{1}" "{Some 2}" "{Some 3}" ring_view ring_bench
  by unfold_locales (auto simp: ring_calls_def ring_bench_def ring_view_def split: if_splits)

interpretation polled_file: polled_file_os file_calls "{7}" "{Some 2}" "{Some 3}" file_view file_bench
  by unfold_locales (auto simp: file_calls_def file_bench_def file_view_def split: if_splits)

interpretation polled_bus: polled_dbus_bus bus_calls id id "{1}" "{1}" bus_kernel_name bus_view bus_bench
  by unfold_locales (auto simp: bus_calls_def bus_bench_def bus_view_def)

text \<open>
  The state of the witnesses: a reader open on a pipe with three messages in it, the second of five
  and the last but one having been lost.
\<close>

definition ping_header :: "u32 \<Rightarrow> data_header" where
  "ping_header n = \<lparr>h_id = n, h_type = PING, h_body_size = 0, h_timestamp = 500\<rparr>"

definition three_pings :: "message list" where
  "three_pings = [(ping_header 1, Ping), (ping_header 3, Ping), (ping_header 5, Ping)]"

definition pipe_reader :: "fifo \<times> pipe_kernel" where
  "pipe_reader = ((fifo_new ''/tmp/ipc'' True)\<lparr>fifo_fd := 4\<rparr>,
     pipe_boot\<lparr>pk_pipe := concat (map wire three_pings)\<rparr>)"

definition pipe_waiting :: "fifo \<times> pipe_kernel \<Rightarrow> message list \<Rightarrow> bool" where
  "pipe_waiting = (\<lambda>(s, w) ms.
     fifo_carries 3 4 pk_pipe ((fifo_new [] False)\<lparr>fifo_fd := 3\<rparr>, s, w) ms \<and> fifo_inv (s, w))"

lemma pipe_source:
  "message_source (fifo_iface pipe_calls) fifo_inv fifo_seq body_capacity pipe_waiting
     (\<lambda>_ (s, w). 0) pipe_bench"
  unfolding pipe_waiting_def by (rule polled_pipe.bench.linked.source.message_source_axioms)

lemma pipe_reader_waiting: "pipe_waiting pipe_reader three_pings"
  by (simp add: pipe_waiting_def pipe_reader_def fifo_carries_def fifo_inv_def fifo_new_def
      three_pings_def ping_header_def del: wire.simps)

lemma pipe_writer_inv: "fifo_inv ((fifo_new ''/tmp/ipc'' False)\<lparr>fifo_fd := 3\<rparr>, pipe_boot)"
  by (simp add: fifo_inv_def fifo_new_def)

section \<open>Properties\<close>

text \<open>C36. For a message size below four, the clients of the throughput and the execution time benchmark
  never return: the size of the payload wraps around in 64 bits, and the 32-bit counter of the loop
  that fills it cannot reach it.\<close>

theorem small_size_diverges:
  assumes "tb_size b < 4" and "eb_size e < 4"
  shows "throughput_run_client B I b (s, w) = None \<and> execution_run_client B I e (s, w) = None"
  by (simp add: throughput_run_client_def execution_run_client_def
      dummy_data_diverges [OF payload_amount_wraps [OF assms(1)]]
      dummy_data_diverges [OF payload_amount_wraps [OF assms(2)]])

theorem small_size_diverges_witness:
  "throughput_run_client pipe_bench (fifo_iface pipe_calls) (throughput_new 10 3 False)
      (fifo_new ''/tmp/ipc'' False, pipe_boot) = None \<and>
   execution_run_client pipe_bench (fifo_iface pipe_calls) (execution_new 10 0 1 False)
      (fifo_new ''/tmp/ipc'' False, pipe_boot) = None"
  by (rule small_size_diverges) (simp_all add: throughput_new_def execution_new_def)

text \<open>The execution time server: with as many messages waiting as iterations it returns, is
  successful, has taken exactly those messages, and has recorded one time for each of them and none
  for the reads that found nothing.\<close>

lemma execution_server_measures:
  assumes "message_source I invar last_seq capacity waiting effort B"
    and "waiting h ms" and "unat (eb_iterations b) \<le> length ms" and "eb_iterations b \<noteq> - 1"
  shows "\<exists>b' h'. execution_run_server B I b h = Some (Inr (True, b', h')) \<and>
    waiting h' (drop (unat (eb_iterations b)) ms) \<and>
    length (eb_times b') = length (eb_times b) + unat (eb_iterations b)"
  using message_source.execution_server_loop_completes [OF assms(1,2) _ assms(4), of 1 False] assms(3)
  by (simp add: execution_run_server_def rounds_start)


definition five_points :: "data_point list" where
  "five_points = map (\<lambda>t. \<lparr>dp_time = t, dp_symbol = \<lparr>js_address = 0, js_length = 0, js_symbol = []\<rparr>\<rparr>)
     [0, 10, 20, 30, 40]"


text \<open>The real world client: for a non-empty recording it returns; at most one deadline is missed
  for each data point, and if the client is successful the handler has used up one sequence number
  for each of them.\<close>

lemma realworld_client_replays:
  assumes "bench_handler I invar last_seq capacity" and "invar (s, w)"
    and "rb_data b \<noteq> []" and "length (rb_data b) < 2 ^ 32"
  shows "\<exists>ok b' h' k. realworld_run_client B I b (s, w) = Some (Inr (ok, b', h')) \<and> invar h' \<and>
    rb_misses b' = rb_misses b + of_nat k \<and> k \<le> length (rb_data b) \<and>
    (ok \<longrightarrow> last_seq h' = last_seq (s, w) + of_nat (length (rb_data b)))"
proof -
  obtain ts w1 where clock: "get_timestamp B w = (ts, w1)" by fastforce
  have "invar (s, w1)" and same: "last_seq (s, w1) = last_seq (s, w)"
    using bench_handler.invar_world [OF assms(1,2)] bench_handler.seq_world [OF assms(1)] by blast+
  from bench_handler.realworld_client_loop_returns [OF assms(1) this(1) _ assms(4), of 0]
  show ?thesis
    using assms(3) same by (simp add: realworld_run_client_def estimated_time_def clock Let_def)
qed

text \<open>When a message is lost - fewer messages arrive than iterations were asked for - the latency
  server, unlike the throughput server, never returns.\<close>

lemma latency_server_hangs:
  assumes "message_source I invar last_seq capacity waiting effort B"
    and "waiting h ms" and "length ms < unat (lb_iterations b)" and "lb_iterations b \<noteq> - 1"
  shows "latency_run_server B I b h = None"
  using message_source.latency_server_loop_waits [OF assms(1,2) _ assms(4), of 1] assms(3)
  by (simp add: latency_run_server_def rounds_start)

text \<open>C16. What the throughput server reports: it takes the first of the messages that are on their way, at
  least one, and all of them if none is late.  The number of bytes is their number times the size,
  modulo \<open>2\<^sup>3\<^sup>2\<close>, so it is right up to 4 GiB.  The total time begins with the time stamp of the second
  message, the epoch if there is only one, and it ends with the clock read directly behind the read of
  the last message taken, whatever the server waits for afterwards: the run comes to a read by which
  \<open>k - 1\<close> messages have been taken, this read returns the last one, and the next reading of the clock is
  the end time.\<close>

theorem throughput_report:
  assumes "message_source I invar last_seq capacity waiting effort B"
    and "waiting h ms" and "ms \<noteq> []" and "length ms \<le> unat iterations"
  shows "\<exists>k b' h'. throughput_run_server B I (throughput_new iterations body_size True) h =
      Some (Inr (True, b', h')) \<and>
    0 < k \<and> k \<le> length ms \<and> (prompt I waiting \<longrightarrow> k = length ms) \<and> waiting h' (drop k ms) \<and>
    (\<exists>b1 h1 s1 w1 w2. throughput_run_server B I (throughput_new iterations body_size True) h =
        throughput_server_loop B I True b1 h1 \<and>
      unat (tb_received b1) = k - 1 \<and> waiting h1 (drop (k - 1) ms) \<and>
      c_read I h1 = Some (Inr (Inr (ms ! (k - 1)), s1, w1)) \<and>
      get_timestamp B w1 = (tb_end_time b', w2)) \<and>
    throughput_total_time b' = of_int (sint (tb_end_time b' -
      (if k = 1 then 0 else h_timestamp (fst (ms ! 1))))) / 1000 / 1000 \<and>
    throughput_result b' = of_nat (k * unat body_size mod 2 ^ 32) / 1024 /
      (throughput_total_time b' / 1000)"
proof -
  let ?b = "throughput_new iterations body_size True"
  have new: "tb_received ?b = 0" "length ms \<le> unat (tb_iterations ?b)"
    using assms(4) by (simp_all add: throughput_new_def)
  from message_source.throughput_server_counts_arrivals [OF assms(1-3) new] obtain k b' h'
    where run: "throughput_run_server B I ?b h = Some (Inr (True, b', h'))"
      and k: "0 < k" "k \<le> length ms" "prompt I waiting \<longrightarrow> k = length ms" "waiting h' (drop k ms)"
      and received: "unat (tb_received b') = k" "tb_size b' = tb_size ?b"
        "tb_start_time b' = start_time_after 0 (tb_start_time ?b) (take k ms)"
      and at_end: "\<exists>b1 h1 s1 w1 w2. throughput_run_server B I ?b h = throughput_server_loop B I True b1 h1 \<and>
        unat (tb_received b1) = k - 1 \<and> waiting h1 (drop (k - 1) ms) \<and>
        c_read I h1 = Some (Inr (Inr (ms ! (k - 1)), s1, w1)) \<and> get_timestamp B w1 = (tb_end_time b', w2)"
    by blast
  have "tb_start_time b' = (if k = 1 then 0 else h_timestamp (fst (ms ! 1)))"
    using k(1,2) received(3) by (auto simp: start_time_after_def throughput_new_def min_absorb2)
  moreover have "unat (tb_received b' * tb_size b') = k * unat body_size mod 2 ^ 32"
    by (simp add: unat_word_ariths received throughput_new_def)
  ultimately have times: "throughput_total_time b' = of_int (sint (tb_end_time b' -
      (if k = 1 then 0 else h_timestamp (fst (ms ! 1))))) / 1000 / 1000"
    "throughput_result b' = of_nat (k * unat body_size mod 2 ^ 32) / 1024 /
      (throughput_total_time b' / 1000)"
    by (simp_all add: throughput_total_time_def throughput_result_def)
  show ?thesis
    by (intro exI [of _ k] exI [of _ b'] exI [of _ h'] conjI run k at_end times)
qed

theorem throughput_report_witness:
  "\<exists>b' h'. throughput_run_server pipe_bench (fifo_iface pipe_calls) (throughput_new 3 8 True) pipe_reader =
      Some (Inr (True, b', h')) \<and> pipe_waiting h' [] \<and>
    (\<exists>h1 s1 w1 w2. pipe_waiting h1 [(ping_header 5, Ping)] \<and>
      c_read (fifo_iface pipe_calls) h1 = Some (Inr (Inr (ping_header 5, Ping), s1, w1)) \<and>
      get_timestamp pipe_bench w1 = (tb_end_time b', w2)) \<and>
    throughput_total_time b' = of_int (sint (tb_end_time b' - 500)) / 1000 / 1000 \<and>
    throughput_result b' = 24 / 1024 / (throughput_total_time b' / 1000)"
proof -
  have "prompt (fifo_iface pipe_calls) pipe_waiting"
    using polled_pipe.bench.never_late by (auto simp: prompt_def pipe_waiting_def)
  moreover have "three_pings \<noteq> []" and "length three_pings \<le> unat (3 :: u32)"
    by (simp_all add: three_pings_def)
  ultimately obtain b' h' h1 s1 w1 w2 where
    "throughput_run_server pipe_bench (fifo_iface pipe_calls) (throughput_new 3 8 True) pipe_reader =
      Some (Inr (True, b', h'))" "pipe_waiting h' (drop (length three_pings) three_pings)"
    "pipe_waiting h1 (drop (length three_pings - 1) three_pings)"
    "c_read (fifo_iface pipe_calls) h1 = Some (Inr (Inr (three_pings ! (length three_pings - 1)), s1, w1))"
    "get_timestamp pipe_bench w1 = (tb_end_time b', w2)"
    "throughput_total_time b' = of_int (sint (tb_end_time b' -
      (if length three_pings = 1 then 0 else h_timestamp (fst (three_pings ! 1))))) / 1000 / 1000"
    "throughput_result b' = of_nat (length three_pings * unat (8 :: u32) mod 2 ^ 32) / 1024 /
      (throughput_total_time b' / 1000)"
    using throughput_report [OF pipe_source pipe_reader_waiting, of 3 8] by blast
  then show ?thesis
    by (intro exI [of _ b'] exI [of _ h'] conjI exI [of _ h1] exI [of _ s1] exI [of _ w1] exI [of _ w2])
      (simp_all add: three_pings_def ping_header_def)
qed

end
