(* ===== verification/Ring_Protocol.thy ===== *)
theory Ring_Protocol
  imports Shared_Memory
begin

text \<open>
  The shared memory ring with both processes running at once.  \<open>ring_step\<close> is the interleaving of the
  atomic actions of \<open>SharedMemory::write\<close> (wait for a free slot, copy, signal the reader) and
  \<open>SharedMemory::read\<close> (take a filled slot, copy, signal the writer); a copy is not atomic, it has a
  begin and an end, and a slot is torn while it is written.  The lemmas show that the two semaphores
  keep the processes apart.
\<close>

section \<open>States and steps\<close>

datatype slot_content = Whole "byte list" | Torn

datatype writer_pc = W_Idle | W_Granted "byte list" | W_Copying "byte list" | W_Copied

datatype reader_pc = R_Idle | R_Granted | R_Copying | R_Copied

text \<open>
  The two semaphores, the slots, each process with its offset and where it is in its call; and, to
  state what is promised, the messages copied into the ring and the contents copied out of it.
\<close>

record ring_state =
  g_slots :: "int \<Rightarrow> slot_content"
  g_filled :: nat
  g_free :: nat
  g_woffset :: int
  g_roffset :: int
  g_writer :: writer_pc
  g_reader :: reader_pc
  g_written :: "byte list list"
  g_read :: "slot_content list"

definition ring_start :: ring_state where
  "ring_start = \<lparr>g_slots = (\<lambda>_. Whole (replicate BUFFER_SIZE 0)), g_filled = 0,
     g_free = nat TOTAL_AMOUNT, g_woffset = 0, g_roffset = 0, g_writer = W_Idle, g_reader = R_Idle,
     g_written = [], g_read = []\<rparr>"

inductive ring_step :: "ring_state \<Rightarrow> ring_state \<Rightarrow> bool" where
  write_wait: "\<lbrakk>g_writer s = W_Idle; 0 < g_free s\<rbrakk> \<Longrightarrow>
    ring_step s (s\<lparr>g_free := g_free s - 1, g_writer := W_Granted m\<rparr>)"
| write_begin: "g_writer s = W_Granted m \<Longrightarrow>
    ring_step s (s\<lparr>g_slots := (g_slots s)(g_woffset s := Torn), g_writer := W_Copying m\<rparr>)"
| write_end: "g_writer s = W_Copying m \<Longrightarrow>
    ring_step s (s\<lparr>g_slots := (g_slots s)(g_woffset s := Whole m),
      g_woffset := (g_woffset s + 1) mod TOTAL_AMOUNT, g_writer := W_Copied,
      g_written := g_written s @ [m]\<rparr>)"
| write_post: "g_writer s = W_Copied \<Longrightarrow>
    ring_step s (s\<lparr>g_filled := g_filled s + 1, g_writer := W_Idle\<rparr>)"
| read_trywait: "\<lbrakk>g_reader s = R_Idle; 0 < g_filled s\<rbrakk> \<Longrightarrow>
    ring_step s (s\<lparr>g_filled := g_filled s - 1, g_reader := R_Granted\<rparr>)"
| read_begin: "g_reader s = R_Granted \<Longrightarrow> ring_step s (s\<lparr>g_reader := R_Copying\<rparr>)"
| read_end: "g_reader s = R_Copying \<Longrightarrow>
    ring_step s (s\<lparr>g_roffset := (g_roffset s + 1) mod TOTAL_AMOUNT, g_reader := R_Copied,
      g_read := g_read s @ [g_slots s (g_roffset s)]\<rparr>)"
| read_post: "g_reader s = R_Copied \<Longrightarrow>
    ring_step s (s\<lparr>g_free := g_free s + 1, g_reader := R_Idle\<rparr>)"

inductive_cases ring_stepE: "ring_step s s'"

lemmas ring_step_cases = ring_stepE [consumes 1, case_names write_wait write_begin write_end
  write_post read_trywait read_begin read_end read_post]

inductive ring_reachable :: "ring_state \<Rightarrow> bool" where
  reach_start: "ring_reachable ring_start"
| reach_step: "\<lbrakk>ring_reachable s; ring_step s s'\<rbrakk> \<Longrightarrow> ring_reachable s'"

section \<open>The invariant\<close>

text \<open>
  \<open>writing\<close> and \<open>reading\<close> say that a process holds a slot that it has not copied yet, \<open>signalling\<close> and
  \<open>releasing\<close> that it has copied and not yet signalled.
\<close>

definition writing :: "ring_state \<Rightarrow> bool" where
  "writing s \<longleftrightarrow> (case g_writer s of W_Granted _ \<Rightarrow> True | W_Copying _ \<Rightarrow> True | _ \<Rightarrow> False)"

definition reading :: "ring_state \<Rightarrow> bool" where
  "reading s \<longleftrightarrow> g_reader s = R_Granted \<or> g_reader s = R_Copying"

definition in_ring :: "ring_state \<Rightarrow> nat" where
  "in_ring s = length (g_written s) - length (g_read s)"

definition ring_inv :: "ring_state \<Rightarrow> bool" where
  "ring_inv s \<longleftrightarrow>
     length (g_read s) \<le> length (g_written s) \<and>
     g_filled s + of_bool (reading s) + of_bool (g_writer s = W_Copied) = in_ring s \<and>
     in_ring s + of_bool (writing s) + g_free s + of_bool (g_reader s = R_Copied) = 64 \<and>
     g_woffset s = int (length (g_written s)) mod 64 \<and>
     g_roffset s = int (length (g_read s)) mod 64 \<and>
     (\<forall>i. length (g_read s) \<le> i \<and> i < length (g_written s) \<longrightarrow>
        g_slots s (int i mod 64) = Whole (g_written s ! i)) \<and>
     g_read s = map Whole (take (length (g_read s)) (g_written s))"

lemma ring_inv_start: "ring_inv ring_start"
  by (simp add: ring_inv_def ring_start_def in_ring_def writing_def reading_def)

lemma next_index: "(int n mod 64 + 1) mod 64 = int (Suc n) mod 64"
  by (simp add: mod_add_right_eq add.commute)

text \<open>The writer's slot is none of those that hold a message not yet copied out.\<close>

lemma writer_slot_is_free:
  assumes "ring_inv s" and "writing s" and "length (g_read s) \<le> i" and "i < length (g_written s)"
  shows "int i mod 64 \<noteq> g_woffset s"
proof
  assume "int i mod 64 = g_woffset s"
  then have "int i mod 64 = int (length (g_written s)) mod 64"
    using assms(1) by (simp add: ring_inv_def)
  then have "64 dvd int (length (g_written s)) - int i"
    by (metis mod_eq_dvd_iff)
  then have "64 dvd length (g_written s) - i"
    using assms(4) by (metis int_dvd_int_iff less_imp_le of_nat_diff of_nat_numeral)
  moreover have "length (g_written s) - i < 64"
    using assms by (auto simp: ring_inv_def in_ring_def)
  ultimately show False
    using assms(4) by (auto dest: dvd_imp_le)
qed

lemma ring_inv_step:
  assumes "ring_step s s'" and inv: "ring_inv s"
  shows "ring_inv s'"
  using assms(1)
proof (cases rule: ring_step_cases)
  case (write_begin m)
  then have w: "writing s" by (simp add: writing_def)
  from write_begin inv writer_slot_is_free [OF inv w] show ?thesis
    by (auto simp: ring_inv_def in_ring_def writing_def reading_def)
next
  case (write_end m)
  then have w: "writing s" by (simp add: writing_def)
  have slots: "((g_slots s)(g_woffset s := Whole m)) (int i mod 64) = Whole ((g_written s @ [m]) ! i)"
    if "length (g_read s) \<le> i" "i < Suc (length (g_written s))" for i
  proof (cases "i = length (g_written s)")
    case True
    with inv show ?thesis by (simp add: ring_inv_def)
  next
    case False
    with that have "i < length (g_written s)" by simp
    with that(1) inv writer_slot_is_free [OF inv w that(1)] show ?thesis
      by (simp add: ring_inv_def nth_append)
  qed
  have "in_ring s' = Suc (in_ring s)"
    using write_end inv by (simp add: in_ring_def ring_inv_def Suc_diff_le)
  moreover have "reading s' = reading s" "writing s" "\<not> writing s'"
    using write_end by (simp_all add: reading_def writing_def)
  ultimately show ?thesis
    using write_end inv slots by (simp add: ring_inv_def next_index)
next
  case read_end
  have "0 < in_ring s"
    using inv read_end by (simp add: ring_inv_def reading_def)
  then have less: "length (g_read s) < length (g_written s)"
    by (simp add: in_ring_def)
  then have "g_slots s (g_roffset s) = Whole (g_written s ! length (g_read s))"
    using inv by (simp add: ring_inv_def)
  moreover have "Suc (in_ring s') = in_ring s"
    using read_end less by (simp add: in_ring_def Suc_diff_Suc)
  moreover have "writing s' = writing s" "reading s" "\<not> reading s'"
    using read_end by (simp_all add: reading_def writing_def)
  ultimately show ?thesis
    using read_end inv less by (simp add: ring_inv_def next_index take_Suc_conv_app_nth Suc_leI)
qed (use inv in \<open>auto simp: ring_inv_def in_ring_def writing_def reading_def\<close>)

lemma ring_reachable_inv: "ring_reachable s \<Longrightarrow> ring_inv s"
  by (induction rule: ring_reachable.induct) (auto intro: ring_inv_start ring_inv_step)

section \<open>Properties\<close>

lemma ring_split:
  assumes "ring_inv s"
  shows "\<exists>received unread. g_written s = received @ unread \<and> g_read s = map Whole received \<and>
    length unread = in_ring s"
  using assms
  by (intro exI [of _ "take (length (g_read s)) (g_written s)"]
        exI [of _ "drop (length (g_read s)) (g_written s)"])
    (simp add: ring_inv_def in_ring_def)

lemma ring_exclusion:
  assumes "ring_inv s" and "writing s" and "reading s"
  shows "g_woffset s \<noteq> g_roffset s"
proof -
  have "0 < in_ring s"
    using assms(1,3) by (simp add: ring_inv_def)
  then have "length (g_read s) < length (g_written s)"
    by (simp add: in_ring_def)
  from writer_slot_is_free [OF assms(1,2) order_refl this] assms(1) show ?thesis
    by (auto simp: ring_inv_def)
qed

text \<open>The ring never deadlocks.\<close>

lemma ring_progress:
  assumes "ring_reachable s"
  shows "\<exists>s'. ring_step s s'"
proof -
  from ring_reachable_inv [OF assms]
  have counts: "g_filled s + of_bool (reading s) + of_bool (g_writer s = W_Copied) = in_ring s"
    "in_ring s + of_bool (writing s) + g_free s + of_bool (g_reader s = R_Copied) = 64"
    by (simp_all add: ring_inv_def)
  show ?thesis
  proof (cases "g_writer s = W_Idle \<and> g_reader s = R_Idle")
    case True
    with counts have "0 < g_free s \<or> 0 < g_filled s"
      by (auto simp: writing_def reading_def)
    with True show ?thesis
      by (blast intro: ring_step.intros)
  next
    case False
    then show ?thesis
      by (cases "g_writer s"; cases "g_reader s") (blast intro: ring_step.intros)+
  qed
qed

text \<open>C7. The shared memory ring with both processes running at once: in every state that any
  interleaving of their atomic actions reaches, the messages copied out so far are a prefix of those
  copied in, each as a whole and in order; at most 64 messages are under way; the two processes are
  never at the same slot while both hold one; the writer finds no free slot only when all 64 are
  taken, the reader no filled one only when no message is complete; and there is no deadlock, at least
  one of the two can always take its next action.\<close>

theorem ring_concurrent_fifo:
  assumes "ring_reachable s"
  shows "(\<exists>received unread. g_written s = received @ unread \<and> g_read s = map Whole received \<and>
      length unread \<le> 64) \<and>
    (writing s \<and> reading s \<longrightarrow> g_woffset s \<noteq> g_roffset s) \<and>
    (g_writer s = W_Idle \<and> g_free s = 0 \<longrightarrow>
      length (g_written s) - length (g_read s) + of_bool (g_reader s = R_Copied) = 64) \<and>
    (g_reader s = R_Idle \<and> g_filled s = 0 \<longrightarrow>
      length (g_written s) - length (g_read s) = of_bool (g_writer s = W_Copied)) \<and>
    (\<exists>s'. ring_step s s')"
proof -
  note inv = ring_reachable_inv [OF assms]
  from inv have counts: "g_filled s + of_bool (reading s) + of_bool (g_writer s = W_Copied) = in_ring s"
    "in_ring s + of_bool (writing s) + g_free s + of_bool (g_reader s = R_Copied) = 64"
    by (simp_all add: ring_inv_def)
  have "in_ring s \<le> 64"
    using counts(2) by simp
  with ring_split [OF inv] have fifo: "\<exists>received unread. g_written s = received @ unread \<and>
      g_read s = map Whole received \<and> length unread \<le> 64"
    by metis
  have full: "in_ring s + of_bool (g_reader s = R_Copied) = 64"
    if "g_writer s = W_Idle \<and> g_free s = 0"
    using that counts(2) by (simp add: writing_def)
  have empty: "in_ring s = of_bool (g_writer s = W_Copied)"
    if "g_reader s = R_Idle \<and> g_filled s = 0"
    using that counts(1) by (simp add: reading_def)
  show ?thesis
    using fifo ring_exclusion [OF inv] full empty ring_progress [OF assms] unfolding in_ring_def by blast
qed

text \<open>The witness: the first message is being copied in.\<close>

definition ring_example :: ring_state where
  "ring_example = ring_start\<lparr>g_free := 63, g_writer := W_Copying [1, 2],
     g_slots := (g_slots ring_start)(0 := Torn)\<rparr>"

lemma ring_example_reachable: "ring_reachable ring_example"
proof -
  have "ring_step ring_start (ring_start\<lparr>g_free := 63, g_writer := W_Granted [1, 2]\<rparr>)"
    using ring_step.write_wait [of ring_start "[1, 2]"] by (simp add: ring_start_def)
  moreover have "ring_step (ring_start\<lparr>g_free := 63, g_writer := W_Granted [1, 2]\<rparr>) ring_example"
    using ring_step.write_begin [of "ring_start\<lparr>g_free := 63, g_writer := W_Granted [1, 2]\<rparr>" "[1, 2]"]
    by (simp add: ring_example_def ring_start_def)
  ultimately show ?thesis
    by (blast intro: ring_reachable.intros)
qed

theorem ring_concurrent_fifo_witness:
  "(\<exists>received unread. g_written ring_example = received @ unread \<and>
    g_read ring_example = map Whole received \<and> length unread \<le> 64) \<and>
    (\<exists>s'. ring_step ring_example s')"
  using ring_concurrent_fifo [OF ring_example_reachable] by blast

end
