(* ===== verification/Statistics.thy ===== *)
theory Statistics
  imports IPC_Prelude Complex_Main
begin

text \<open>
  The statistics of the measured times (include/benchmark/stats.hpp).  The model computes with real
  numbers where the code computes with \<open>double\<close>; the elements are the 32-bit numbers that the
  benchmarks record.
\<close>

section \<open>Quantiles and statistics\<close>

text \<open>\<open>data[left]\<close> and \<open>data[right]\<close> are undefined outside of the vector.\<close>

definition quantile :: "real list \<Rightarrow> real \<Rightarrow> real res" where
  "quantile xs q =
     (let poi = (1 - q) * (- 1 / 2) + q * (real (length xs) - 1 / 2);
          left = max \<lfloor>poi\<rfloor> 0;
          right = min \<lceil>poi\<rceil> (int (length xs) - 1)
      in if left < int (length xs) \<and> 0 \<le> right then
           let data_left = xs ! nat left; data_right = xs ! nat right; tmp = poi - real_of_int left
           in Inr ((1 - tmp) * data_left + tmp * data_right)
         else Inl Out_Of_Bounds)"

record statistics =
  minimum :: real
  filtered_minimum :: real
  first_quartile :: real
  median :: real
  third_quartile :: real
  filtered_maximum :: real
  maximum :: real
  average :: real
  variance :: "real option"
  standard_deviation :: "real option"

text \<open>
  \<open>accumulate\<close> adds from the left; the squares are of \<open>int i - avg\<close>, as the parameter of the lambda is
  an \<open>int\<close>.  With a single element the code divides by zero, which gives no number: the variance is
  then \<open>None\<close>.  \<open>front\<close> of an empty vector is undefined.
\<close>

definition square_sum :: "real \<Rightarrow> u32 list \<Rightarrow> real" where
  "square_sum avg xs = foldl (\<lambda>acc i. let d = real_of_int (sint i) - avg in acc + d * d) 0 xs"

definition compute_statistics :: "u32 list \<Rightarrow> statistics res" where
  "compute_statistics data =
     (let tmp = sort data; xs = map (\<lambda>i. real (unat i)) tmp in
      if tmp = [] then Inl Out_Of_Bounds
      else
        and_then (quantile xs 0.25) (\<lambda>q1.
        and_then (quantile xs 0.75) (\<lambda>q3.
        let lo = hd xs; hi = last xs;
            avg = foldl (+) 0 xs / real (length xs);
            v = (if length xs = 1 then None else Some (square_sum avg tmp / real (length xs - 1))) in
        and_then (quantile xs 0.5) (\<lambda>med.
        Inr \<lparr>minimum = lo, filtered_minimum = max lo (q1 - (q3 - q1) * 1.5), first_quartile = q1,
             median = med, third_quartile = q3, filtered_maximum = min hi (q3 + (q3 - q1) * 1.5),
             maximum = hi, average = avg, variance = v,
             standard_deviation = map_option sqrt v\<rparr>))))"

section \<open>Quantiles of a sorted vector\<close>

text \<open>The linear interpolation that \<open>quantile\<close> computes, at a position inside of the vector.\<close>

definition interpolate :: "real list \<Rightarrow> real \<Rightarrow> real" where
  "interpolate xs x =
     (let k = nat \<lfloor>x\<rfloor> in
      xs ! k + (x - real k) * (xs ! min (Suc k) (length xs - 1) - xs ! k))"

definition position :: "real list \<Rightarrow> real \<Rightarrow> real" where
  "position xs q = q * real (length xs) - 1 / 2"

lemma quantile_interpolate:
  assumes "0 \<le> position xs q" and "position xs q \<le> real (length xs) - 1"
  shows "quantile xs q = Inr (interpolate xs (position xs q))"
proof -
  let ?x = "position xs q"
  let ?n = "length xs"
  define k where "k = nat \<lfloor>?x\<rfloor>"
  have poi: "(1 - q) * (- 1 / 2) + q * (real ?n - 1 / 2) = ?x"
    by (simp add: position_def field_simps)
  have floor: "\<lfloor>?x\<rfloor> = int k"
    using assms(1) by (simp add: k_def)
  have "real k \<le> ?x"
    using floor by (metis of_int_floor_le of_int_of_nat_eq)
  then have bound: "real k \<le> real ?n - 1"
    using assms(2) by simp
  then have kn: "k < ?n"
    by linarith
  have left: "max \<lfloor>?x\<rfloor> 0 = int k"
    by (simp add: floor)
  show ?thesis
  proof (cases "?x = real k")
    case True
    then have "\<lceil>?x\<rceil> = int k"
      by simp
    with kn have right: "min \<lceil>?x\<rceil> (int ?n - 1) = int k"
      by simp
    show ?thesis
      unfolding quantile_def poi left right Let_def
      using kn by (simp add: interpolate_def floor True)
  next
    case False
    then have "\<lceil>?x\<rceil> = int k + 1"
      using floor by (metis ceiling_altdef of_int_of_nat_eq)
    then have right: "min \<lceil>?x\<rceil> (int ?n - 1) = int (min (Suc k) (?n - 1))"
      using kn by auto
    show ?thesis
      unfolding quantile_def poi left right Let_def nat_int
      using kn by (simp add: interpolate_def floor algebra_simps)
  qed
qed

lemma interpolate_between:
  assumes "sorted xs" and "0 \<le> x" and "x \<le> real (length xs) - 1"
  shows "xs ! nat \<lfloor>x\<rfloor> \<le> interpolate xs x"
    and "interpolate xs x \<le> xs ! min (Suc (nat \<lfloor>x\<rfloor>)) (length xs - 1)"
    and "nat \<lfloor>x\<rfloor> < length xs"
proof -
  define k where "k = nat \<lfloor>x\<rfloor>"
  have k: "real k \<le> x" "x < real k + 1"
    using assms(2) by (simp_all add: k_def)
  then show kn: "nat \<lfloor>x\<rfloor> < length xs"
    using assms(3) by (simp flip: k_def)
  let ?a = "xs ! k"
  let ?b = "xs ! min (Suc k) (length xs - 1)"
  have step: "?a \<le> ?b"
    using kn by (intro sorted_nth_mono [OF assms(1)]) (auto simp flip: k_def)
  then have "0 \<le> (x - real k) * (?b - ?a)" and "(x - real k) * (?b - ?a) \<le> 1 * (?b - ?a)"
    using k by (simp, intro mult_right_mono) simp_all
  then show "xs ! nat \<lfloor>x\<rfloor> \<le> interpolate xs x"
    and "interpolate xs x \<le> xs ! min (Suc (nat \<lfloor>x\<rfloor>)) (length xs - 1)"
    by (simp_all add: interpolate_def Let_def flip: k_def)
qed

lemma interpolate_mono:
  assumes "sorted xs" and "0 \<le> x" and "x \<le> y" and "y \<le> real (length xs) - 1"
  shows "interpolate xs x \<le> interpolate xs y"
proof (cases "\<lfloor>x\<rfloor> = \<lfloor>y\<rfloor>")
  case True
  define k where "k = nat \<lfloor>x\<rfloor>"
  have "nat \<lfloor>x\<rfloor> < length xs"
    using interpolate_between(3) [OF assms(1,2)] assms(3,4) by simp
  then have "xs ! k \<le> xs ! min (Suc k) (length xs - 1)"
    by (intro sorted_nth_mono [OF assms(1)]) (auto simp flip: k_def)
  then have "(x - real k) * (xs ! min (Suc k) (length xs - 1) - xs ! k)
      \<le> (y - real k) * (xs ! min (Suc k) (length xs - 1) - xs ! k)"
    using assms(3) by (intro mult_right_mono) simp_all
  with True show ?thesis
    by (simp add: interpolate_def Let_def k_def)
next
  case False
  then have "\<lfloor>x\<rfloor> < \<lfloor>y\<rfloor>"
    using floor_mono [OF assms(3)] by simp
  moreover have y: "0 \<le> y" using assms(2,3) by simp
  ultimately have "Suc (nat \<lfloor>x\<rfloor>) \<le> nat \<lfloor>y\<rfloor>"
    using assms(2) by linarith
  moreover note below = interpolate_between(3) [OF assms(1) y assms(4)]
  ultimately have "xs ! min (Suc (nat \<lfloor>x\<rfloor>)) (length xs - 1) \<le> xs ! nat \<lfloor>y\<rfloor>"
    by (intro sorted_nth_mono [OF assms(1)]) auto
  with interpolate_between(2) [OF assms(1,2)] interpolate_between(1) [OF assms(1) y assms(4)] assms(3,4)
  show ?thesis by simp
qed

text \<open>The three quartiles lie inside of a vector with at least two elements.\<close>

lemma position_inside:
  assumes "2 \<le> length xs" and "1 / 4 \<le> q" and "q \<le> 3 / 4"
  shows "0 \<le> position xs q" and "position xs q \<le> real (length xs) - 1"
proof -
  have n: "2 \<le> real (length xs)"
    using assms(1) by simp
  have "1 / 4 * real (length xs) \<le> q * real (length xs)"
    using assms(2) by (intro mult_right_mono) simp_all
  with n show "0 \<le> position xs q"
    by (simp add: position_def)
  have "q * real (length xs) \<le> 3 / 4 * real (length xs)"
    using assms(3) by (intro mult_right_mono) simp_all
  with n show "position xs q \<le> real (length xs) - 1"
    by (simp add: position_def)
qed

lemma quantile_single:
  assumes "1 / 4 \<le> q" and "q \<le> 3 / 4"
  shows "quantile [x] q = Inr x"
proof -
  have poi: "(1 - q) * (- 1 / 2) + q * (real (length [x]) - 1 / 2) = q - 1 / 2"
    by (simp add: field_simps)
  have "max \<lfloor>q - 1 / 2\<rfloor> 0 = 0" and "min \<lceil>q - 1 / 2\<rceil> (int (length [x]) - 1) = 0"
    using assms by (auto simp: max_def min_def) linarith+
  then show ?thesis
    unfolding quantile_def poi Let_def by (simp add: algebra_simps)
qed

lemma interpolate_bounds:
  assumes "sorted xs" and "0 \<le> x" and "x \<le> real (length xs) - 1"
  shows "hd xs \<le> interpolate xs x" and "interpolate xs x \<le> last xs"
proof -
  note between = interpolate_between [OF assms]
  have ne: "xs \<noteq> []" using between(3) by auto
  have "xs ! 0 \<le> xs ! nat \<lfloor>x\<rfloor>"
    by (rule sorted_nth_mono [OF assms(1) _ between(3)]) simp
  with between(1) ne show "hd xs \<le> interpolate xs x"
    by (simp add: hd_conv_nth)
  have "xs ! min (Suc (nat \<lfloor>x\<rfloor>)) (length xs - 1) \<le> xs ! (length xs - 1)"
    using ne by (intro sorted_nth_mono [OF assms(1)]) auto
  with between(2) ne show "interpolate xs x \<le> last xs"
    by (simp add: last_conv_nth)
qed

lemma quartiles_ordered:
  assumes "sorted xs" and "xs \<noteq> []"
  shows "\<exists>q1 m q3. quantile xs 0.25 = Inr q1 \<and> quantile xs 0.5 = Inr m \<and> quantile xs 0.75 = Inr q3 \<and>
    hd xs \<le> q1 \<and> q1 \<le> m \<and> m \<le> q3 \<and> q3 \<le> last xs"
proof (cases "2 \<le> length xs")
  case True
  have inside: "0 \<le> position xs q \<and> position xs q \<le> real (length xs) - 1"
    if "q \<in> {0.25, 0.5, 0.75}" for q
    using position_inside [OF True, of q] that by auto
  have "position xs 0.25 \<le> position xs 0.5" and "position xs 0.5 \<le> position xs 0.75"
    by (simp_all add: position_def)
  with inside interpolate_mono [OF assms(1)] interpolate_bounds [OF assms(1)] show ?thesis
    by (simp add: quantile_interpolate)
next
  case False
  then obtain x where "xs = [x]"
    using assms(2) by (cases xs) (auto simp: Suc_le_eq)
  then show ?thesis
    by (simp add: quantile_single)
qed

text \<open>
  What a quartile is: the value on the line between two neighbours at the position \<open>q n - 1/2\<close>.
\<close>

lemma interpolate_neighbours:
  assumes "2 \<le> length xs" and "0 \<le> x" and "x \<le> real (length xs) - 1"
  shows "\<exists>k. Suc k < length xs \<and> real k \<le> x \<and> x \<le> real (Suc k) \<and>
    interpolate xs x = xs ! k + (x - real k) * (xs ! Suc k - xs ! k)"
proof -
  define k where "k = nat \<lfloor>x\<rfloor>"
  have k: "real k \<le> x" "x < real k + 1"
    using assms(2) by (simp_all add: k_def)
  show ?thesis
  proof (cases "Suc k < length xs")
    case True
    then have "min (Suc k) (length xs - 1) = Suc k"
      by simp
    with True k show ?thesis
      by (intro exI [of _ k]) (simp add: interpolate_def Let_def flip: k_def)
  next
    case False
    with k assms(3) have "real k = real (length xs) - 1" and x: "x = real k"
      by (auto simp: not_less)
    then have len: "length xs = Suc k"
      by linarith
    then obtain j where j: "k = Suc j"
      using assms(1) by (cases k) simp_all
    then show ?thesis
      using x by (intro exI [of _ j]) (simp add: interpolate_def len nat_add_distrib)
  qed
qed

lemma quantile_neighbours:
  assumes "2 \<le> length xs" and "1 / 4 \<le> q" and "q \<le> 3 / 4" and "quantile xs q = Inr v"
  shows "\<exists>k. Suc k < length xs \<and> real k \<le> q * real (length xs) - 1 / 2 \<and>
    q * real (length xs) - 1 / 2 \<le> real (Suc k) \<and>
    v = xs ! k + (q * real (length xs) - 1 / 2 - real k) * (xs ! Suc k - xs ! k)"
proof -
  note inside = position_inside [OF assms(1-3)]
  from quantile_interpolate [OF inside] assms(4) have "v = interpolate xs (position xs q)"
    by simp
  with interpolate_neighbours [OF assms(1) inside] show ?thesis
    by (simp add: position_def)
qed

section \<open>The computed statistics\<close>

lemma foldl_sum: "foldl (+) (a :: real) xs = a + sum_list xs"
  by (induction xs arbitrary: a) (simp_all add: add.assoc)

lemma square_sum_eq:
  "square_sum avg xs = (\<Sum>i\<leftarrow>xs. (real_of_int (sint i) - avg)\<^sup>2)"
proof -
  have "foldl (\<lambda>acc i. let d = real_of_int (sint i) - avg in acc + d * d) a xs
      = a + (\<Sum>i\<leftarrow>xs. (real_of_int (sint i) - avg)\<^sup>2)" for a
    by (induction xs arbitrary: a) (simp_all add: Let_def power2_eq_square)
  then show ?thesis by (simp add: square_sum_def)
qed

lemma sum_list_between:
  fixes l u :: real
  assumes "\<And>x. x \<in> set xs \<Longrightarrow> l \<le> x \<and> x \<le> u"
  shows "real (length xs) * l \<le> sum_list xs \<and> sum_list xs \<le> real (length xs) * u"
  using assms by (induction xs) (force simp: algebra_simps)+

lemma sorted_list_between:
  fixes xs :: "real list"
  assumes "sorted xs" and "x \<in> set xs"
  shows "hd xs \<le> x \<and> x \<le> last xs"
proof -
  obtain i where i: "i < length xs" "x = xs ! i"
    using assms(2) by (auto simp: in_set_conv_nth)
  have ne: "xs \<noteq> []" using i(1) by auto
  have "xs ! 0 \<le> x"
    unfolding i(2) by (rule sorted_nth_mono [OF assms(1) _ i(1)]) simp
  moreover have "x \<le> xs ! (length xs - 1)"
    unfolding i(2) using i(1) by (intro sorted_nth_mono [OF assms(1)]) auto
  ultimately show ?thesis
    by (simp add: hd_conv_nth last_conv_nth ne)
qed

lemma average_between:
  fixes xs :: "real list"
  assumes "sorted xs" and "xs \<noteq> []"
  shows "hd xs \<le> sum_list xs / real (length xs)" and "sum_list xs / real (length xs) \<le> last xs"
proof -
  have "0 < real (length xs)"
    using assms(2) by simp
  with sum_list_between [OF sorted_list_between [OF assms(1)]]
  show "hd xs \<le> sum_list xs / real (length xs)" and "sum_list xs / real (length xs) \<le> last xs"
    by (simp_all add: field_simps)
qed

text \<open>Facts about the sorted vector of measured times.\<close>

lemma quantile_measured:
  fixes data :: "u32 list"
  assumes "quantile (map (\<lambda>i. real (unat i)) (sort data)) q = Inr v"
    and "1 / 4 \<le> q" and "q \<le> 3 / 4" and "data \<noteq> []"
  shows "if length data = 1 then v = real (unat (hd data))
    else let p = q * real (length data) - 1 / 2; x = (\<lambda>i. real (unat (sort data ! i))) in
      \<exists>k. Suc k < length data \<and> real k \<le> p \<and> p \<le> real (Suc k) \<and> v = x k + (p - real k) * (x (Suc k) - x k)"
proof (cases "length data = 1")
  case True
  then obtain d where "data = [d]"
    by (metis One_nat_def length_0_conv length_Suc_conv)
  with assms(1-3) show ?thesis
    by (simp add: quantile_single)
next
  case False
  let ?xs = "map (\<lambda>i. real (unat i)) (sort data)"
  have len: "length ?xs = length data"
    by (simp only: length_map length_sort)
  have two: "2 \<le> length ?xs"
    unfolding len using False assms(4) by (cases data; cases "tl data") simp_all
  from quantile_neighbours [OF two assms(2,3,1)] obtain k where
    k: "Suc k < length data" "real k \<le> q * real (length data) - 1 / 2"
      "q * real (length data) - 1 / 2 \<le> real (Suc k)"
      "v = ?xs ! k + (q * real (length data) - 1 / 2 - real k) * (?xs ! Suc k - ?xs ! k)"
    unfolding len by blast
  moreover have "?xs ! i = real (unat (sort data ! i))" if "i < length data" for i
    using that by (intro nth_map) (simp only: length_sort)
  ultimately show ?thesis
    unfolding Let_def using False by (metis Suc_lessD)
qed

lemma sum_list_sort: "(\<Sum>x\<leftarrow>sort xs. f x) = (\<Sum>x\<leftarrow>xs. f x :: real)"
proof -
  have insort: "(\<Sum>x\<leftarrow>insort y ys. f x) = f y + (\<Sum>x\<leftarrow>ys. f x)" for y ys
    by (induction ys) simp_all
  show ?thesis
    by (induction xs) (simp_all add: insort)
qed

lemma sint_small: "unat (x :: u32) < 2 ^ 31 \<Longrightarrow> real_of_int (sint x) = real (unat x)"
proof -
  assume small: "unat x < 2 ^ 31"
  then have "uint x < 2 ^ 31"
    by (metis of_nat_less_iff of_nat_numeral of_nat_power uint_nat)
  then have "sint x = uint x"
    by (subst sint_uint, intro signed_take_bit_int_eq_self)
      (simp_all add: order_trans [OF _ uint_ge_0])
  then show ?thesis
    by (metis of_int_of_nat_eq uint_nat)
qed

lemma sorted_measured: "sorted (map (\<lambda>i. real (unat (i :: u32))) (sort data))"
proof -
  have "sorted (sort data)" by simp
  then show ?thesis
    unfolding sorted_map by (rule sorted_wrt_mono_rel [rotated]) (simp add: word_le_nat_alt del: of_nat_unat)
qed

lemma sorted_ends:
  fixes xs :: "real list"
  assumes "sorted xs" and "xs \<noteq> []"
  shows "hd xs = Min (set xs)" and "last xs = Max (set xs)"
proof -
  have ends: "hd xs \<le> x \<and> x \<le> last xs" if "x \<in> set xs" for x
    using sorted_list_between [OF assms(1) that] .
  then show "hd xs = Min (set xs)" and "last xs = Max (set xs)"
    using assms(2) by (auto intro!: Min_eqI [symmetric] Max_eqI [symmetric])
qed

lemma ends_measured:
  assumes "data \<noteq> []"
  shows "hd (map (\<lambda>i. real (unat (i :: u32))) (sort data)) = Min (real ` unat ` set data)"
    and "last (map (\<lambda>i. real (unat i)) (sort data)) = Max (real ` unat ` set data)"
proof -
  let ?xs = "map (\<lambda>i. real (unat (i :: u32))) (sort data)"
  have "?xs \<noteq> []"
    using assms by (metis length_0_conv length_map length_sort)
  moreover have "set ?xs = real ` unat ` set data"
    by (simp only: set_map set_sort image_image)
  ultimately show "hd ?xs = Min (real ` unat ` set data)" and "last ?xs = Max (real ` unat ` set data)"
    using sorted_ends [OF sorted_measured, of data] by metis+
qed

lemma compute_statistics_fields:
  assumes "data \<noteq> []"
  defines "avg \<equiv> (\<Sum>x\<leftarrow>data. real (unat x)) / real (length data)"
  shows "\<exists>s q1 m q3. compute_statistics data = Inr s \<and>
    minimum s = Min (real ` unat ` set data) \<and> maximum s = Max (real ` unat ` set data) \<and>
    average s = avg \<and> first_quartile s = q1 \<and> median s = m \<and> third_quartile s = q3 \<and>
    quantile (map (\<lambda>i. real (unat i)) (sort data)) 0.25 = Inr q1 \<and>
    quantile (map (\<lambda>i. real (unat i)) (sort data)) 0.5 = Inr m \<and>
    quantile (map (\<lambda>i. real (unat i)) (sort data)) 0.75 = Inr q3 \<and>
    standard_deviation s = map_option sqrt (variance s) \<and>
    filtered_minimum s = max (minimum s) (q1 - (q3 - q1) * 1.5) \<and>
    filtered_maximum s = min (maximum s) (q3 + (q3 - q1) * 1.5) \<and>
    variance s = (if length data = 1 then None
      else Some (square_sum avg (sort data) / real (length data - 1))) \<and>
    minimum s \<le> q1 \<and> q1 \<le> m \<and> m \<le> q3 \<and> q3 \<le> maximum s \<and>
    minimum s \<le> avg \<and> avg \<le> maximum s"
proof -
  define xs where "xs = map (\<lambda>i. real (unat i)) (sort data)"
  have len: "length xs = length data"
    by (simp only: xs_def length_map length_sort)
  then have ne: "xs \<noteq> []" "sort data \<noteq> []"
    using assms(1) by (metis length_0_conv, metis length_0_conv length_sort)
  have sorted: "sorted xs"
    unfolding xs_def by (rule sorted_measured)
  note ends = ends_measured [OF assms(1), folded xs_def]
  have avg: "foldl (+) 0 xs / real (length data) = avg" "sum_list xs / real (length data) = avg"
    unfolding foldl_sum avg_def by (simp_all only: xs_def sum_list_sort add_0)
  obtain q1 m q3 where q: "quantile xs 0.25 = Inr q1" "quantile xs 0.5 = Inr m"
    "quantile xs 0.75 = Inr q3" "hd xs \<le> q1" "q1 \<le> m" "m \<le> q3" "q3 \<le> last xs"
    using quartiles_ordered [OF sorted ne(1)] by blast
  show ?thesis
    using q(4-7) average_between [OF sorted ne(1)] ne(2)
    unfolding compute_statistics_def Let_def xs_def [symmetric] q(1-3) and_then_Inr len avg ends
    by simp
qed

text \<open>C38. Statistics of measured times: an empty vector is undefined behaviour; for any other vector,
  in any order, the computation succeeds without an access outside of the vector.  The minimum and
  the maximum are those of the data, the average is the sum divided by the number; the quartiles are
  read off the sorted data at the positions \<open>q n - 1/2\<close> for a quarter, a half and three quarters, on the
  straight line between the two neighbours (the only value, if there is one); the whiskers are one and a
  half times the distance of the quartiles away from them, but inside of the data; average and
  quartiles lie between minimum and maximum, the quartiles in order.  The variance - defined exactly for
  two or more values - is the unbiased estimate around the average if every value is below 2 to the 31,
  as the code squares the difference of an \<open>int\<close>, and the standard deviation is its square root.\<close>

theorem statistics_summarize:
  "compute_statistics [] = Inl Out_Of_Bounds \<and>
   (data \<noteq> [] \<longrightarrow> (\<exists>s. compute_statistics data = Inr s \<and>
      minimum s = Min (real ` unat ` set data) \<and> maximum s = Max (real ` unat ` set data) \<and>
      average s = (\<Sum>x\<leftarrow>data. real (unat x)) / real (length data) \<and>
      (\<forall>(q, v) \<in> {(0.25, first_quartile s), (0.5, median s), (0.75, third_quartile s)}.
         if length data = 1 then v = real (unat (hd data))
         else let p = q * real (length data) - 1 / 2; x = (\<lambda>i. real (unat (sort data ! i))) in
           \<exists>k. Suc k < length data \<and> real k \<le> p \<and> p \<le> real (Suc k) \<and>
             v = x k + (p - real k) * (x (Suc k) - x k)) \<and>
      filtered_minimum s =
        max (minimum s) (first_quartile s - 1.5 * (third_quartile s - first_quartile s)) \<and>
      filtered_maximum s =
        min (maximum s) (third_quartile s + 1.5 * (third_quartile s - first_quartile s)) \<and>
      minimum s \<le> average s \<and> average s \<le> maximum s \<and>
      minimum s \<le> filtered_minimum s \<and> filtered_minimum s \<le> first_quartile s \<and>
      first_quartile s \<le> median s \<and> median s \<le> third_quartile s \<and>
      third_quartile s \<le> filtered_maximum s \<and> filtered_maximum s \<le> maximum s \<and>
      (variance s = None \<longleftrightarrow> length data = 1) \<and>
      ((\<forall>x \<in> set data. unat x < 2 ^ 31) \<and> 1 < length data \<longrightarrow>
        variance s = Some ((\<Sum>x\<leftarrow>data. (real (unat x) - average s)\<^sup>2) / real (length data - 1))) \<and>
      standard_deviation s = map_option sqrt (variance s)))"
proof (cases "data = []")
  case True
  then show ?thesis by (simp add: compute_statistics_def)
next
  case False
  let ?xs = "map (\<lambda>i. real (unat i)) (sort data)"
  obtain s q1 m q3 where s: "compute_statistics data = Inr s"
    and fields: "minimum s = Min (real ` unat ` set data)" "maximum s = Max (real ` unat ` set data)"
      "average s = (\<Sum>x\<leftarrow>data. real (unat x)) / real (length data)" "first_quartile s = q1" "median s = m"
      "third_quartile s = q3" "filtered_minimum s = max (minimum s) (q1 - (q3 - q1) * 1.5)"
      "filtered_maximum s = min (maximum s) (q3 + (q3 - q1) * 1.5)"
      "variance s = (if length data = 1 then None
        else Some (square_sum (average s) (sort data) / real (length data - 1)))"
    and deviation: "standard_deviation s = map_option sqrt (variance s)"
    and q: "quantile ?xs 0.25 = Inr q1" "quantile ?xs 0.5 = Inr m" "quantile ?xs 0.75 = Inr q3"
    and order: "minimum s \<le> q1" "q1 \<le> m" "m \<le> q3" "q3 \<le> maximum s"
      "minimum s \<le> average s" "average s \<le> maximum s"
    using compute_statistics_fields [OF False] by metis
  have var: "square_sum (average s) (sort data) = (\<Sum>x\<leftarrow>data. (real (unat x) - average s)\<^sup>2)"
    if "\<forall>x \<in> set data. unat x < 2 ^ 31"
    unfolding square_sum_eq sum_list_sort
    by (intro arg_cong [of _ _ sum_list] map_cong refl) (simp only: sint_small that)
  have empty: "compute_statistics [] = Inl Out_Of_Bounds"
    by (simp add: compute_statistics_def)
  have quartiles: "\<forall>(q, v) \<in> {(0.25, first_quartile s), (0.5, median s), (0.75, third_quartile s)}.
      if length data = 1 then v = real (unat (hd data))
      else let p = q * real (length data) - 1 / 2; x = (\<lambda>i. real (unat (sort data ! i))) in
        \<exists>k. Suc k < length data \<and> real k \<le> p \<and> p \<le> real (Suc k) \<and>
          v = x k + (p - real k) * (x (Suc k) - x k)"
    unfolding fields(4-6) ball_simps case_prod_conv
    using quantile_measured [OF q(1) _ _ False] quantile_measured [OF q(2) _ _ False]
      quantile_measured [OF q(3) _ _ False] by simp
  have fences: "filtered_minimum s =
      max (minimum s) (first_quartile s - 1.5 * (third_quartile s - first_quartile s))"
    "filtered_maximum s = min (maximum s) (third_quartile s + 1.5 * (third_quartile s - first_quartile s))"
    unfolding fields(4-8) by (simp_all only: mult.commute)
  have whiskers: "minimum s \<le> filtered_minimum s" "filtered_minimum s \<le> first_quartile s"
    "first_quartile s \<le> median s" "median s \<le> third_quartile s"
    "third_quartile s \<le> filtered_maximum s" "filtered_maximum s \<le> maximum s"
    unfolding fields(4-8) using order by simp_all
  have variance: "variance s = None \<longleftrightarrow> length data = 1"
    "(\<forall>x \<in> set data. unat x < 2 ^ 31) \<and> 1 < length data \<longrightarrow>
      variance s = Some ((\<Sum>x\<leftarrow>data. (real (unat x) - average s)\<^sup>2) / real (length data - 1))"
    unfolding fields(9) using var by simp_all
  show ?thesis
    by (rule conjI [OF empty], rule impI, rule exI [of _ s])
      (intro conjI s fields(1-3) quartiles fences order(5,6) whiskers variance deviation)
qed

text \<open>The quartiles of one, two and three lie a quarter of the way from the ends.\<close>

theorem statistics_summarize_witness:
  "\<exists>s. compute_statistics [3, 1, 2] = Inr s \<and> minimum s = 1 \<and> maximum s = 3 \<and> average s = 2 \<and>
     first_quartile s = 5 / 4 \<and> median s = 2 \<and> third_quartile s = 11 / 4 \<and>
     filtered_minimum s = 1 \<and> filtered_maximum s = 3 \<and>
     variance s = Some 1 \<and> standard_deviation s = Some 1"
  using statistics_summarize [of "[3, 1, 2]", THEN conjunct2, THEN mp, OF list.distinct(2)]
proof (elim exE conjE)
  let ?d = "[3, 1, 2 :: u32]"
  fix s
  assume s: "compute_statistics ?d = Inr s" "minimum s = Min (real ` unat ` set ?d)"
      "maximum s = Max (real ` unat ` set ?d)"
      "average s = (\<Sum>x\<leftarrow>?d. real (unat x)) / real (length ?d)"
    and q: "\<forall>(q, v) \<in> {(0.25, first_quartile s), (0.5, median s), (0.75, third_quartile s)}.
      if length ?d = 1 then v = real (unat (hd ?d))
      else let p = q * real (length ?d) - 1 / 2; x = (\<lambda>i. real (unat (sort ?d ! i))) in
        \<exists>k. Suc k < length ?d \<and> real k \<le> p \<and> p \<le> real (Suc k) \<and>
          v = x k + (p - real k) * (x (Suc k) - x k)"
    and fences: "filtered_minimum s =
        max (minimum s) (first_quartile s - 1.5 * (third_quartile s - first_quartile s))"
      "filtered_maximum s =
        min (maximum s) (third_quartile s + 1.5 * (third_quartile s - first_quartile s))"
    and v: "(\<forall>x \<in> set ?d. unat x < 2 ^ 31) \<and> 1 < length ?d \<longrightarrow>
        variance s = Some ((\<Sum>x\<leftarrow>?d. (real (unat x) - average s)\<^sup>2) / real (length ?d - 1))"
    and deviation: "standard_deviation s = map_option sqrt (variance s)"
  from s(2-4) have f: "minimum s = 1" "maximum s = 3" "average s = 2"
    by simp_all
  have sorted: "sort ?d = [1, 2, 3]"
    by (simp add: word_le_nat_alt)
  have line: "v = p + 1"
    if "\<exists>k. Suc k < length ?d \<and> real k \<le> p \<and> p \<le> real (Suc k) \<and> v =
      real (unat ([1, 2, 3 :: u32] ! k)) + (p - real k) *
        (real (unat ([1, 2, 3 :: u32] ! Suc k)) - real (unat ([1, 2, 3 :: u32] ! k)))" for p v
  proof -
    from that obtain k where "k = 0 \<or> k = 1" and "v = real (unat ([1, 2, 3 :: u32] ! k)) + (p - real k) *
        (real (unat ([1, 2, 3 :: u32] ! Suc k)) - real (unat ([1, 2, 3 :: u32] ! k)))"
      by (elim exE conjE) (rule that, simp_all, arith)
    then show ?thesis by auto
  qed
  have several: "length ?d \<noteq> 1" by simp
  note each = q [unfolded sorted Let_def ball_simps case_prod_conv if_not_P [OF several]]
  have quartiles: "first_quartile s = 5 / 4" "median s = 2" "third_quartile s = 11 / 4"
    using line [OF each [THEN conjunct1]] line [OF each [THEN conjunct2, THEN conjunct1]]
      line [OF each [THEN conjunct2, THEN conjunct2, THEN conjunct1]] by simp_all
  have var: "variance s = Some 1"
    using v by (simp add: f power2_eq_square)
  have "filtered_minimum s = 1" and "filtered_maximum s = 3"
    unfolding fences quartiles f by simp_all
  with s(1) f quartiles var deviation show ?thesis
    by (intro exI [of _ s]) simp
qed

end
