(* ===== verification/Handlers.thy ===== *)
theory Handlers
  imports DBus_Channel Fifo_Channel Message_Queue_Channel Datagram_Channel Stream_Channel
    Shared_Memory_Channel Shared_File_Channel Benchmark_Interface
begin

text \<open>
  All handlers behind one interface: the classes that implement \<open>ICommunicationHandler\<close> as one
  datatype, its virtual methods by case distinction on the class, and the function of src/main.cpp
  that creates a handler by its name.  The contract of the interface holds for whatever handler it
  creates.
\<close>

section \<open>The handler objects\<close>

datatype handler =
    DBus_Handler dbus
  | Fifo_Handler fifo
  | Queue_Handler message_queue
  | Datagram_Handler dgram_socket
  | Stream_Handler stream_socket
  | Memory_Handler shared_memory
  | File_Handler shared_file

text \<open>Everything the program calls: the D-Bus library and the system calls of each handler.\<close>

record ('w, 'm, 'i) program_os =
  po_dbus :: "('w, 'm, 'i) dbus_lib"
  po_fifo :: "'w fifo_os"
  po_mq :: "'w mq_os"
  po_sock :: "'w sock_os"
  po_shm :: "'w shm_os"
  po_file :: "'w file_os"
  po_bench :: "'w bench_os"

text \<open>A result of a method of one class as a result for the handler.\<close>

definition via :: "('s \<Rightarrow> handler) \<Rightarrow> 'r \<times> ('s \<times> 'w) \<Rightarrow> 'r \<times> (handler \<times> 'w)" where
  "via C = (\<lambda>(r, s, w). (r, C s, w))"

definition via_res :: "('s \<Rightarrow> handler) \<Rightarrow> ('r \<times> ('s \<times> 'w)) res \<Rightarrow> ('r \<times> (handler \<times> 'w)) res" where
  "via_res C = map_sum id (via C)"

section \<open>The virtual methods\<close>

definition handler_open :: "('w, 'm, 'i) program_os \<Rightarrow> handler \<times> 'w \<Rightarrow> bool \<times> (handler \<times> 'w)" where
  "handler_open K = (\<lambda>(h, w).
     case h of
          DBus_Handler s \<Rightarrow> via DBus_Handler (dbus_open (po_dbus K) (s, w))
        | Fifo_Handler s \<Rightarrow> via Fifo_Handler (fifo_open (po_fifo K) (s, w))
        | Queue_Handler s \<Rightarrow> via Queue_Handler (mq_open (po_mq K) (s, w))
        | Datagram_Handler s \<Rightarrow> via Datagram_Handler (dgram_open (po_sock K) (s, w))
        | Stream_Handler s \<Rightarrow> via Stream_Handler (stream_open (po_sock K) (s, w))
        | Memory_Handler s \<Rightarrow> via Memory_Handler (shm_open (po_shm K) (s, w))
        | File_Handler s \<Rightarrow> via File_Handler (file_open (po_file K) (s, w)))"

definition handler_close :: "('w, 'm, 'i) program_os \<Rightarrow> handler \<times> 'w \<Rightarrow> bool \<times> (handler \<times> 'w)" where
  "handler_close K = (\<lambda>(h, w).
     case h of
          DBus_Handler s \<Rightarrow> via DBus_Handler (dbus_close (po_dbus K) (s, w))
        | Fifo_Handler s \<Rightarrow> via Fifo_Handler (fifo_close (po_fifo K) (s, w))
        | Queue_Handler s \<Rightarrow> via Queue_Handler (mq_close (po_mq K) (s, w))
        | Datagram_Handler s \<Rightarrow> via Datagram_Handler (dgram_close (po_sock K) (s, w))
        | Stream_Handler s \<Rightarrow> via Stream_Handler (stream_close (po_sock K) (s, w))
        | Memory_Handler s \<Rightarrow> via Memory_Handler (shm_close (po_shm K) (s, w))
        | File_Handler s \<Rightarrow> via File_Handler (file_close (po_file K) (s, w)))"

definition handler_is_open :: "handler \<times> 'w \<Rightarrow> bool" where
  "handler_is_open = (\<lambda>(h, w).
     case h of
          DBus_Handler s \<Rightarrow> dbus_is_open (s, w)
        | Fifo_Handler s \<Rightarrow> fifo_is_open (s, w)
        | Queue_Handler s \<Rightarrow> mq_is_open (s, w)
        | Datagram_Handler s \<Rightarrow> dgram_is_open (s, w)
        | Stream_Handler s \<Rightarrow> stream_is_open (s, w)
        | Memory_Handler s \<Rightarrow> shm_is_open (s, w)
        | File_Handler s \<Rightarrow> file_is_open (s, w))"

definition handler_await_data :: "('w, 'm, 'i) program_os \<Rightarrow> handler \<times> 'w \<Rightarrow> bool \<times> (handler \<times> 'w)" where
  "handler_await_data K = (\<lambda>(h, w).
     case h of
          DBus_Handler s \<Rightarrow> via DBus_Handler (dbus_await_data (po_dbus K) (s, w))
        | Fifo_Handler s \<Rightarrow> via Fifo_Handler (fifo_await_data (po_fifo K) (s, w))
        | Queue_Handler s \<Rightarrow> via Queue_Handler (mq_await_data (po_mq K) (s, w))
        | Datagram_Handler s \<Rightarrow> via Datagram_Handler (dgram_await_data (po_sock K) (s, w))
        | Stream_Handler s \<Rightarrow> via Stream_Handler (stream_await_data (po_sock K) (s, w))
        | Memory_Handler s \<Rightarrow> via Memory_Handler (shm_await_data (po_shm K) (s, w))
        | File_Handler s \<Rightarrow> via File_Handler (file_await_data (po_file K) (s, w)))"

definition handler_has_data :: "('w, 'm, 'i) program_os \<Rightarrow> handler \<times> 'w \<Rightarrow> bool \<times> (handler \<times> 'w)" where
  "handler_has_data K = (\<lambda>(h, w).
     case h of
          DBus_Handler s \<Rightarrow> via DBus_Handler (dbus_has_data (po_dbus K) (s, w))
        | Fifo_Handler s \<Rightarrow> via Fifo_Handler (fifo_has_data (po_fifo K) (s, w))
        | Queue_Handler s \<Rightarrow> via Queue_Handler (mq_has_data (po_mq K) (s, w))
        | Datagram_Handler s \<Rightarrow> via Datagram_Handler (dgram_has_data (po_sock K) (s, w))
        | Stream_Handler s \<Rightarrow> via Stream_Handler (stream_has_data (po_sock K) (s, w))
        | Memory_Handler s \<Rightarrow> via Memory_Handler (shm_has_data (po_shm K) (s, w))
        | File_Handler s \<Rightarrow> via File_Handler (file_has_data (po_file K) (s, w)))"

definition handler_destroy :: "('w, 'm, 'i) program_os \<Rightarrow> handler \<times> 'w \<Rightarrow> handler \<times> 'w" where
  "handler_destroy K = (\<lambda>(h, w).
     case h of
          DBus_Handler s \<Rightarrow> map_prod DBus_Handler id (dbus_destroy (po_dbus K) (s, w))
        | Fifo_Handler s \<Rightarrow> map_prod Fifo_Handler id (fifo_destroy (po_fifo K) (s, w))
        | Queue_Handler s \<Rightarrow> map_prod Queue_Handler id (mq_destroy (po_mq K) (s, w))
        | Datagram_Handler s \<Rightarrow> map_prod Datagram_Handler id (dgram_destroy (po_sock K) (s, w))
        | Stream_Handler s \<Rightarrow> map_prod Stream_Handler id (stream_destroy (po_sock K) (s, w))
        | Memory_Handler s \<Rightarrow> map_prod Memory_Handler id (shm_destroy (po_shm K) (s, w))
        | File_Handler s \<Rightarrow> map_prod File_Handler id (file_destroy (po_file K) (s, w)))"

definition handler_write ::
  "('w, 'm, 'i) program_os \<Rightarrow> data_object \<Rightarrow> handler \<times> 'w \<Rightarrow> (bool \<times> (handler \<times> 'w)) res" where
  "handler_write K obj = (\<lambda>(h, w).
     case h of
          DBus_Handler s \<Rightarrow> via_res DBus_Handler (dbus_write (po_dbus K) obj (s, w))
        | Fifo_Handler s \<Rightarrow> via_res Fifo_Handler (fifo_write (po_fifo K) obj (s, w))
        | Queue_Handler s \<Rightarrow> via_res Queue_Handler (mq_write (po_mq K) obj (s, w))
        | Datagram_Handler s \<Rightarrow> via_res Datagram_Handler (dgram_write (po_sock K) obj (s, w))
        | Stream_Handler s \<Rightarrow> via_res Stream_Handler (stream_write (po_sock K) obj (s, w))
        | Memory_Handler s \<Rightarrow> via_res Memory_Handler (shm_write (po_shm K) obj (s, w))
        | File_Handler s \<Rightarrow> via_res File_Handler (file_write (po_file K) obj (s, w)))"

definition handler_read ::
  "('w, 'm, 'i) program_os \<Rightarrow> handler \<times> 'w \<Rightarrow> (read_result \<times> (handler \<times> 'w)) res option" where
  "handler_read K = (\<lambda>(h, w).
     case h of
          DBus_Handler s \<Rightarrow> Some (via_res DBus_Handler (dbus_read (po_dbus K) (s, w)))
        | Fifo_Handler s \<Rightarrow> Some (via_res Fifo_Handler (fifo_read (po_fifo K) (s, w)))
        | Queue_Handler s \<Rightarrow> Some (via_res Queue_Handler (mq_read (po_mq K) (s, w)))
        | Datagram_Handler s \<Rightarrow> Some (via_res Datagram_Handler (dgram_read (po_sock K) (s, w)))
        | Stream_Handler s \<Rightarrow> map_option (via_res Stream_Handler) (stream_read (po_sock K) (s, w))
        | Memory_Handler s \<Rightarrow> Some (via_res Memory_Handler (shm_read (po_shm K) (s, w)))
        | File_Handler s \<Rightarrow> Some (via_res File_Handler (file_read (po_file K) (s, w))))"

definition handler_iface :: "('w, 'm, 'i) program_os \<Rightarrow> (handler \<times> 'w) comm_iface" where
  "handler_iface K =
     \<lparr>c_open = handler_open K, c_close = handler_close K, c_is_open = handler_is_open,
      c_await_data = handler_await_data K, c_has_data = handler_has_data K,
      c_write = handler_write K, c_read = handler_read K\<rparr>"

lemma handler_iface_simps [simp]:
  "c_open (handler_iface K) = handler_open K" "c_close (handler_iface K) = handler_close K"
  "c_is_open (handler_iface K) = handler_is_open" "c_await_data (handler_iface K) = handler_await_data K"
  "c_has_data (handler_iface K) = handler_has_data K" "c_write (handler_iface K) = handler_write K"
  "c_read (handler_iface K) = handler_read K"
  by (simp_all add: handler_iface_def)

lemmas handler_methods = handler_open_def handler_close_def handler_is_open_def
  handler_await_data_def handler_has_data_def handler_write_def handler_read_def

section \<open>The contract of the interface\<close>

definition handler_inv :: "handler \<times> 'w \<Rightarrow> bool" where
  "handler_inv = (\<lambda>(h, w).
     case h of
          DBus_Handler s \<Rightarrow> dbus_inv (s, w)
        | Fifo_Handler s \<Rightarrow> fifo_inv (s, w)
        | Queue_Handler s \<Rightarrow> mq_inv (s, w)
        | Datagram_Handler s \<Rightarrow> dgram_inv (s, w)
        | Stream_Handler s \<Rightarrow> stream_inv (s, w)
        | Memory_Handler s \<Rightarrow> shm_inv (s, w)
        | File_Handler s \<Rightarrow> file_inv (s, w))"

definition handler_seq :: "handler \<times> 'w \<Rightarrow> u32" where
  "handler_seq = (\<lambda>(h, w).
     case h of
          DBus_Handler s \<Rightarrow> dbus_seq (s, w)
        | Fifo_Handler s \<Rightarrow> fifo_seq (s, w)
        | Queue_Handler s \<Rightarrow> mq_seq (s, w)
        | Datagram_Handler s \<Rightarrow> dgram_seq (s, w)
        | Stream_Handler s \<Rightarrow> stream_seq (s, w)
        | Memory_Handler s \<Rightarrow> shm_seq (s, w)
        | File_Handler s \<Rightarrow> file_seq (s, w))"

text \<open>
  A class embedded into the handlers: every method of the handler \<open>C s\<close> is that of the class at \<open>s\<close>.
\<close>

definition embedded ::
  "('s \<Rightarrow> handler) \<Rightarrow> ('s \<times> 'w) comm_iface \<Rightarrow> ('s \<times> 'w \<Rightarrow> bool) \<Rightarrow> ('s \<times> 'w \<Rightarrow> u32) \<Rightarrow>
   (handler \<times> 'w) comm_iface \<Rightarrow> bool" where
  "embedded C I invar seq J \<longleftrightarrow> (\<forall>s w.
     c_open J (C s, w) = via C (c_open I (s, w)) \<and> c_close J (C s, w) = via C (c_close I (s, w)) \<and>
     c_is_open J (C s, w) = c_is_open I (s, w) \<and>
     c_await_data J (C s, w) = via C (c_await_data I (s, w)) \<and>
     c_has_data J (C s, w) = via C (c_has_data I (s, w)) \<and>
     (\<forall>obj. c_write J obj (C s, w) = via_res C (c_write I obj (s, w))) \<and>
     c_read J (C s, w) = map_option (via_res C) (c_read I (s, w)) \<and>
     handler_inv (C s, w) = invar (s, w) \<and> handler_seq (C s, w) = seq (s, w))"

lemma via_eq: "via C r = (b, h') \<longleftrightarrow> (\<exists>s' w'. r = (b, s', w') \<and> h' = (C s', w'))"
  by (cases r) (auto simp: via_def)

lemma via_res_eq: "via_res C r = Inr (b, h') \<longleftrightarrow> (\<exists>s' w'. r = Inr (b, s', w') \<and> h' = (C s', w'))"
  by (cases r) (auto simp: via_res_def via_def)

lemma embedded_contract:
  assumes I: "comm_handler I invar seq cap" and emb: "embedded C I invar seq J"
    and inv': "handler_inv (C s, w)" and cap: "cap \<le> cap'"
  shows "c_open J (C s, w) = (b, h') \<Longrightarrow>
      handler_inv h' \<and> c_is_open J h' = b \<and> handler_seq h' = handler_seq (C s, w)"
    and "c_is_open J (C s, w) \<Longrightarrow> c_open J (C s, w) = (True, C s, w)"
    and "c_close J (C s, w) = (b, h') \<Longrightarrow> handler_inv h' \<and> \<not> c_is_open J h' \<and>
      b = c_is_open J (C s, w) \<and> handler_seq h' = handler_seq (C s, w)"
    and "\<not> c_is_open J (C s, w) \<Longrightarrow> c_close J (C s, w) = (False, C s, w)"
    and "c_await_data J (C s, w) = (b, h') \<Longrightarrow> handler_inv h' \<and>
      c_is_open J h' = c_is_open J (C s, w) \<and> handler_seq h' = handler_seq (C s, w)"
    and "\<not> c_is_open J (C s, w) \<Longrightarrow> c_await_data J (C s, w) = (False, C s, w)"
    and "c_has_data J (C s, w) = (b, h') \<Longrightarrow> handler_inv h' \<and>
      c_is_open J h' = c_is_open J (C s, w) \<and> handler_seq h' = handler_seq (C s, w)"
    and "\<exists>b h'. c_write J obj (C s, w) = Inr (b, h') \<and> handler_inv h' \<and>
      c_is_open J h' = c_is_open J (C s, w) \<and>
      (b \<longrightarrow> c_is_open J (C s, w) \<and> length (object_bytes obj) \<le> cap' \<and>
        handler_seq h' = handler_seq (C s, w) + 1)"
    and "\<not> c_is_open J (C s, w) \<Longrightarrow> c_write J obj (C s, w) = Inr (False, C s, w)"
    and "c_read J (C s, w) = Some (Inr (r, h')) \<Longrightarrow> handler_inv h' \<and>
      c_is_open J h' = c_is_open J (C s, w) \<and> handler_seq h' = handler_seq (C s, w) \<and> typed_result r"
    and "\<not> c_is_open J (C s, w) \<Longrightarrow> c_read J (C s, w) = Some (Inr (Inl CONNECTION_CLOSED, C s, w))"
proof -
  have eqs: "c_open J (C s, w) = via C (c_open I (s, w))" "c_close J (C s, w) = via C (c_close I (s, w))"
     "c_is_open J (C s, w) = c_is_open I (s, w)"
     "c_await_data J (C s, w) = via C (c_await_data I (s, w))"
     "c_has_data J (C s, w) = via C (c_has_data I (s, w))"
     "c_write J obj (C s, w) = via_res C (c_write I obj (s, w))"
     "c_read J (C s, w) = map_option (via_res C) (c_read I (s, w))"
     "handler_inv (C s, w) = invar (s, w)" "handler_seq (C s, w) = seq (s, w)" for s w obj
    using emb unfolding embedded_def by simp_all
  have inv: "invar (s, w)"
    using inv' by (simp add: eqs)
  show "c_open J (C s, w) = (b, h') \<Longrightarrow>
      handler_inv h' \<and> c_is_open J h' = b \<and> handler_seq h' = handler_seq (C s, w)"
    using comm_handler.open_law [OF I inv] by (auto simp: eqs via_eq)
  show "c_is_open J (C s, w) \<Longrightarrow> c_open J (C s, w) = (True, C s, w)"
    using comm_handler.open_again [OF I inv] by (simp add: eqs via_def)
  show "c_close J (C s, w) = (b, h') \<Longrightarrow> handler_inv h' \<and> \<not> c_is_open J h' \<and>
      b = c_is_open J (C s, w) \<and> handler_seq h' = handler_seq (C s, w)"
    using comm_handler.close_law [OF I inv] by (auto simp: eqs via_eq)
  show "\<not> c_is_open J (C s, w) \<Longrightarrow> c_close J (C s, w) = (False, C s, w)"
    using comm_handler.close_closed [OF I inv] by (simp add: eqs via_def)
  show "c_await_data J (C s, w) = (b, h') \<Longrightarrow> handler_inv h' \<and>
      c_is_open J h' = c_is_open J (C s, w) \<and> handler_seq h' = handler_seq (C s, w)"
    using comm_handler.await_law [OF I inv] by (auto simp: eqs via_eq)
  show "\<not> c_is_open J (C s, w) \<Longrightarrow> c_await_data J (C s, w) = (False, C s, w)"
    using comm_handler.await_closed [OF I inv] by (simp add: eqs via_def)
  show "c_has_data J (C s, w) = (b, h') \<Longrightarrow> handler_inv h' \<and>
      c_is_open J h' = c_is_open J (C s, w) \<and> handler_seq h' = handler_seq (C s, w)"
    using comm_handler.has_data_law [OF I inv] by (auto simp: eqs via_eq)
  obtain b s' w' where wr: "c_write I obj (s, w) = Inr (b, s', w')" "invar (s', w')"
      "c_is_open I (s', w') = c_is_open I (s, w)"
      "b \<longrightarrow> c_is_open I (s, w) \<and> length (object_bytes obj) \<le> cap \<and> seq (s', w') = seq (s, w) + 1"
    using comm_handler.write_law [OF I inv, of obj] by (metis surj_pair)
  then show "\<exists>b h'. c_write J obj (C s, w) = Inr (b, h') \<and> handler_inv h' \<and>
      c_is_open J h' = c_is_open J (C s, w) \<and>
      (b \<longrightarrow> c_is_open J (C s, w) \<and> length (object_bytes obj) \<le> cap' \<and>
        handler_seq h' = handler_seq (C s, w) + 1)"
    using cap by (intro exI [of _ b] exI [of _ "(C s', w')"]) (auto simp: eqs via_res_def via_def)
  show "\<not> c_is_open J (C s, w) \<Longrightarrow> c_write J obj (C s, w) = Inr (False, C s, w)"
    using comm_handler.write_closed [OF I inv] by (simp add: eqs via_res_def via_def)
  show "c_read J (C s, w) = Some (Inr (r, h')) \<Longrightarrow> handler_inv h' \<and>
      c_is_open J h' = c_is_open J (C s, w) \<and> handler_seq h' = handler_seq (C s, w) \<and> typed_result r"
    using comm_handler.read_law [OF I inv] by (auto simp: eqs via_res_eq)
  show "\<not> c_is_open J (C s, w) \<Longrightarrow> c_read J (C s, w) = Some (Inr (Inl CONNECTION_CLOSED, C s, w))"
    using comm_handler.read_closed [OF I inv] by (simp add: eqs via_res_def via_def)
qed

text \<open>Every class is embedded in the handlers.\<close>

lemma embeddings:
  "embedded DBus_Handler (dbus_iface (po_dbus K)) dbus_inv dbus_seq (handler_iface K)"
    "embedded Fifo_Handler (fifo_iface (po_fifo K)) fifo_inv fifo_seq (handler_iface K)"
    "embedded Queue_Handler (mq_iface (po_mq K)) mq_inv mq_seq (handler_iface K)"
    "embedded Datagram_Handler (dgram_iface (po_sock K)) dgram_inv dgram_seq (handler_iface K)"
    "embedded Stream_Handler (stream_iface (po_sock K)) stream_inv stream_seq (handler_iface K)"
    "embedded Memory_Handler (shm_iface (po_shm K)) shm_inv shm_seq (handler_iface K)"
    "embedded File_Handler (file_iface (po_file K)) file_inv file_seq (handler_iface K)"
  by (simp_all add: embedded_def handler_methods handler_inv_def handler_seq_def)

lemma handler_pair_cases:
  obtains (dbus) s w where "h = (DBus_Handler s, w)"
  | (fifo) s w where "h = (Fifo_Handler s, w)"
  | (queue) s w where "h = (Queue_Handler s, w)"
  | (datagram) s w where "h = (Datagram_Handler s, w)"
  | (stream) s w where "h = (Stream_Handler s, w)"
  | (memory) s w where "h = (Memory_Handler s, w)"
  | (shared_file) s w where "h = (File_Handler s, w)"
  by (cases h) (metis handler.exhaust)

lemma capacities: "body_capacity \<le> BUFFER_SIZE" "BUFFER_SIZE \<le> BUFFER_SIZE"
  by simp_all

lemmas handler_laws =
  embedded_contract [OF bus.comm_handler_axioms embeddings(1) _ capacities(2)]
  embedded_contract [OF fifo.comm_handler_axioms embeddings(2) _ capacities(1)]
  embedded_contract [OF mq.comm_handler_axioms embeddings(3) _ capacities(1)]
  embedded_contract [OF dgram.comm_handler_axioms embeddings(4) _ capacities(1)]
  embedded_contract [OF stream.comm_handler_axioms embeddings(5) _ capacities(1)]
  embedded_contract [OF shm.comm_handler_axioms embeddings(6) _ capacities(1)]
  embedded_contract [OF sfile.comm_handler_axioms embeddings(7) _ capacities(1)]

interpretation handlers: comm_handler "handler_iface K" handler_inv handler_seq BUFFER_SIZE
  for K :: "('w, 'm, 'i) program_os"
proof (unfold_locales, goal_cases)
  case (1 h)
  show ?case
    by (insert 1, cases h rule: handler_pair_cases) (hypsubst, rule handler_laws; assumption)+
next
  case (2 h)
  show ?case
    by (insert 2, cases h rule: handler_pair_cases) (hypsubst, rule handler_laws; assumption)+
next
  case (3 h)
  show ?case
    by (insert 3, cases h rule: handler_pair_cases) (hypsubst, rule handler_laws; assumption)+
next
  case (4 h)
  show ?case
    by (insert 4, cases h rule: handler_pair_cases) (hypsubst, rule handler_laws; assumption)+
next
  case (5 h)
  show ?case
    by (insert 5, cases h rule: handler_pair_cases) (hypsubst, rule handler_laws; assumption)+
next
  case (6 h)
  show ?case
    by (insert 6, cases h rule: handler_pair_cases) (hypsubst, rule handler_laws; assumption)+
next
  case (7 h)
  show ?case
    by (insert 7, cases h rule: handler_pair_cases) (hypsubst, rule handler_laws; assumption)+
next
  case (8 h)
  show ?case
    by (insert 8, cases h rule: handler_pair_cases) (hypsubst, rule handler_laws; assumption)+
next
  case (9 h)
  show ?case
    by (insert 9, cases h rule: handler_pair_cases) (hypsubst, rule handler_laws; assumption)+
next
  case (10 h)
  show ?case
    by (insert 10, cases h rule: handler_pair_cases) (hypsubst, rule handler_laws; assumption)+
next
  case (11 h)
  show ?case
    by (insert 11, cases h rule: handler_pair_cases) (hypsubst, rule handler_laws; assumption)+
qed

interpretation bench_handlers: bench_handler "handler_iface K" handler_inv handler_seq BUFFER_SIZE
  for K :: "('w, 'm, 'i) program_os"
proof (unfold_locales, goal_cases)
  case (1 s w w')
  then show ?case
    by (cases s) (simp_all add: handler_inv_def dbus_inv_def fifo_inv_def mq_inv_def dgram_inv_def
        stream_inv_def shm_inv_def file_inv_def)
next
  case (2 s w w')
  then show ?case
    by (cases s) (simp_all add: handler_is_open_def dbus_is_open_def fifo_is_open_def mq_is_open_def
        dgram_is_open_def stream_is_open_def shm_is_open_def file_is_open_def)
next
  case (3 s w w')
  then show ?case
    by (cases s) (simp_all add: handler_seq_def dbus_seq_def fifo_seq_def mq_seq_def dgram_seq_def
        stream_seq_def shm_seq_def file_seq_def)
qed

text \<open>The destructor of a closed handler does nothing.\<close>

lemma handler_destroy_closed:
  "\<not> handler_is_open (h, w) \<Longrightarrow> handler_destroy K (h, w) = (h, w)"
  by (cases h) (simp_all add: handler_destroy_def handler_is_open_def dbus_destroy_def dbus_is_open_def
      fifo_destroy_def fifo_is_open_def mq_destroy_def mq_is_open_def dgram_destroy_def
      dgram_is_open_def stream_destroy_def stream_is_open_def shm_destroy_def shm_is_open_def
      file_destroy_def file_is_open_def)

section \<open>Creating a handler\<close>

text \<open>\<open>create_handler\<close> of src/main.cpp; \<open>None\<close> is the null pointer.\<close>

definition create_handler :: "string \<Rightarrow> string \<Rightarrow> bool \<Rightarrow> handler option" where
  "create_handler type path reader =
     (if type = ''dbus'' then Some (DBus_Handler (dbus_new (''ipc.'' @ path @ ''.server'') reader))
      else if type = ''fifo'' then Some (Fifo_Handler (fifo_new (''/tmp/'' @ path) reader))
      else if type = ''queue'' then Some (Queue_Handler (mq_new (''/'' @ path) reader))
      else if type = ''dgram'' then Some (Datagram_Handler (dgram_new_unix (''/tmp/'' @ path) reader))
      else if type = ''stream'' then Some (Stream_Handler (stream_new_unix (''/tmp/'' @ path) reader))
      else if type = ''udp'' then Some (Datagram_Handler (dgram_new_inet path 8080 reader))
      else if type = ''tcp'' then Some (Stream_Handler (stream_new_inet path 8080 reader))
      else if type = ''memory'' then Some (Memory_Handler (shm_new path reader False))
      else if type = ''mapped'' then Some (Memory_Handler (shm_new (''/tmp/'' @ path) reader True))
      else if type = ''file'' then Some (File_Handler (file_new (''/tmp/'' @ path) reader))
      else None)"

definition handler_types :: "string list" where
  "handler_types = [''dbus'', ''fifo'', ''queue'', ''dgram'', ''stream'', ''udp'', ''tcp'', ''memory'',
     ''mapped'', ''file'']"

lemma create_handler_types: "create_handler type path reader \<noteq> None \<longleftrightarrow> type \<in> set handler_types"
  by (simp add: create_handler_def handler_types_def)

lemma create_handler_fresh:
  assumes "create_handler type path reader = Some h"
  shows "handler_inv (h, w) \<and> \<not> handler_is_open (h, w) \<and> handler_seq (h, w) = 0"
  using assms
  by (auto simp: create_handler_def handler_inv_def handler_is_open_def handler_seq_def
      dbus_new_def dbus_inv_def dbus_is_open_def dbus_seq_def
      fifo_new_def fifo_inv_def fifo_is_open_def fifo_seq_def
      mq_new_def mq_inv_def mq_is_open_def mq_seq_def
      dgram_new_unix_def dgram_new_inet_def dgram_inv_def dgram_address_matches_def dgram_is_open_def dgram_seq_def
      stream_new_unix_def stream_new_inet_def stream_inv_def stream_is_open_def stream_seq_def
      shm_new_def shm_inv_def shm_is_open_def shm_seq_def
      file_new_def file_inv_def file_is_open_def file_seq_def fstream_closed_def fstream_is_open_def
      split: if_splits)

text \<open>C6. Every handler implements the communication interface: for each of the ten names there is a
  handler, for no other name; it starts closed, valid and without a message sent; and from then on,
  whatever the system calls answer, every method keeps the handler valid and does what the interface
  promises - opening and closing report and reach the state they name, waiting changes nothing, a
  write always returns, numbers the message if it succeeds and only then, a read gives typed results,
  and on a closed handler nothing reaches the system.\<close>

theorem handlers_implement_interface:
  "comm_handler (handler_iface K) handler_inv handler_seq BUFFER_SIZE \<and>
   (create_handler type path reader \<noteq> None \<longleftrightarrow> type \<in> set handler_types) \<and>
   (\<forall>h. create_handler type path reader = Some h \<longrightarrow>
      handler_inv (h, w) \<and> \<not> handler_is_open (h, w) \<and> handler_seq (h, w) = 0)"
  by (intro conjI allI impI handlers.comm_handler_axioms create_handler_types)
    (drule create_handler_fresh [where w = w], simp)+

theorem handlers_implement_interface_witness:
  "\<exists>h. create_handler ''tcp'' ''127.0.0.1'' True = Some h \<and> handler_inv (h, ()) \<and>
     \<not> handler_is_open (h, ())"
proof -
  have tcp: "''tcp'' \<in> set handler_types"
    by (simp add: handler_types_def)
  note spec = handlers_implement_interface [where K = "undefined :: (unit, unit, unit) program_os"
      and type = "''tcp''" and path = "''127.0.0.1''" and reader = True and w = "()"]
  from spec [THEN conjunct2, THEN conjunct1, THEN iffD2, OF tcp]
  obtain h where h: "create_handler ''tcp'' ''127.0.0.1'' True = Some h"
    unfolding not_None_eq by (elim exE) (rule that)
  from spec [THEN conjunct2, THEN conjunct2, rule_format, OF h] h show ?thesis
    by (intro exI [of _ h] conjI) simp_all
qed

end
