(* ===== verification/Trace.thy ===== *)
theory Trace
  imports Realworld_Benchmark Text_Numbers
begin

text \<open>
  The recorded traces that the real world benchmark replays (\<open>run_real_world\<close> in src/main.cpp): one
  line for each data point, such as \<open>fifo write: @1704961363753386690 0x7f024484cbfd 1: name\<close>.  Every
  item is accessed without a check, so a line that is too short is undefined behaviour, and one whose
  numbers are none throws.
\<close>

section \<open>Splitting text\<close>

text \<open>
  Repeated \<open>std::getline\<close> with a delimiter: what follows the last delimiter is an item only if it is
  not empty.
\<close>

function getlines :: "char \<Rightarrow> string \<Rightarrow> string list" where
  "getlines d s =
     (if s = [] then []
      else let item = takeWhile (\<lambda>c. c \<noteq> d) s in item # getlines d (drop (Suc (length item)) s))"
  by pat_completeness auto

termination getlines
  by (relation "measure (length \<circ> snd)") (auto simp: Let_def)

declare getlines.simps [simp del]

lemma getlines_Nil [simp]: "getlines d [] = []"
  by (simp add: getlines.simps)

lemma getlines_item:
  assumes "d \<notin> set item"
  shows "getlines d (item @ d # s) = item # getlines d s"
proof -
  have "takeWhile (\<lambda>c. c \<noteq> d) (item @ d # s) = item"
    using assms by (auto simp: takeWhile_append)
  then show ?thesis
    by (subst getlines.simps) (simp add: Let_def)
qed

lemma getlines_last:
  assumes "d \<notin> set item" and "item \<noteq> []"
  shows "getlines d item = [item]"
proof -
  have "takeWhile (\<lambda>c. c \<noteq> d) item = item"
    using assms(1) by (auto simp: takeWhile_eq_all_conv)
  note all = this
  show ?thesis
    using assms(2) by (subst getlines.simps) (simp add: Let_def all)
qed

section \<open>Parsing\<close>

definition elem_at :: "string list \<Rightarrow> nat \<Rightarrow> string res" where
  "elem_at elems i = (if i < length elems then Inr (elems ! i) else Inl Out_Of_Bounds)"

text \<open>\<open>s.erase(s.size() - 1)\<close>: for an empty string the position is behind its end and the call throws.\<close>

definition erase_last :: "string \<Rightarrow> string res" where
  "erase_last s = (if s = [] then Inl Uncaught_Exception else Inr (butlast s))"

definition parse_line :: "string \<Rightarrow> data_point res" where
  "parse_line str =
     (let elems = getlines CHR '' '' str in
      and_then (elem_at elems 2) (\<lambda>e2.
      and_then (stoll (drop 1 e2)) (\<lambda>time.
      and_then (elem_at elems 3) (\<lambda>e3.
      and_then (stoull 16 e3) (\<lambda>address.
      and_then (elem_at elems 4) (\<lambda>e4.
      and_then (erase_last e4) (\<lambda>e4.
      and_then (stoull 10 e4) (\<lambda>len.
      and_then (elem_at elems 5) (\<lambda>name.
      let name = foldl (\<lambda>name p. name @ '' '' @ p) name (drop 6 elems);
          name = filter (\<lambda>c. c \<noteq> CHR 0x0D) name in
      Inr \<lparr>dp_time = time,
           dp_symbol = \<lparr>js_address = address, js_length = ucast len, js_symbol = name\<rparr>\<rparr>)))))))))"

fun parse_lines :: "string list \<Rightarrow> data_point list res" where
  "parse_lines [] = Inr []"
| "parse_lines (str # strs) =
     and_then (parse_line str) (\<lambda>point.
     and_then (parse_lines strs) (\<lambda>points. Inr (point # points)))"

definition parse_trace :: "string \<Rightarrow> data_point list res" where
  "parse_trace content = parse_lines (getlines CHR 0x0A content)"

section \<open>The format of a trace\<close>

text \<open>
  A line as the recorder writes it: any two words, the time, the address, the length and the name,
  which may have spaces in it.
\<close>

definition trace_line :: "string \<Rightarrow> string \<Rightarrow> data_point \<Rightarrow> string" where
  "trace_line w1 w2 p =
     w1 @ '' '' @ w2 @ '' @'' @ to_string (sint (dp_time p)) @
     '' 0x'' @ digits_string 16 (unat (js_address (dp_symbol p))) @
     '' '' @ digits_string 10 (unat (js_length (dp_symbol p))) @ '': '' @ js_symbol (dp_symbol p)"

text \<open>
  The names that survive: no line ends, and a first and a last character that are not spaces -
  \<open>getline\<close> keeps empty items in the middle but not at the end.
\<close>

definition trace_name :: "string \<Rightarrow> bool" where
  "trace_name name \<longleftrightarrow> name \<noteq> [] \<and> last name \<noteq> CHR '' '' \<and> CHR 0x0A \<notin> set name \<and> CHR 0x0D \<notin> set name"

text \<open>Joining the items of a name gives the name back.\<close>

lemma join_items:
  "s \<noteq> [] \<Longrightarrow> last s \<noteq> d \<Longrightarrow>
     \<exists>item items. getlines d s = item # items \<and> foldl (\<lambda>a p. a @ [d] @ p) item items = s"
proof (induction d s rule: getlines.induct)
  case (1 d s)
  let ?item = "takeWhile (\<lambda>c. c \<noteq> d) s"
  let ?rest = "drop (Suc (length ?item)) s"
  have unfold: "getlines d s = ?item # getlines d ?rest"
    using 1(2) by (subst getlines.simps) (simp add: Let_def)
  show ?case
  proof (cases "dropWhile (\<lambda>c. c \<noteq> d) s")
    case Nil
    then have item: "?item = s"
      by (metis append_Nil2 takeWhile_dropWhile_id)
    show ?thesis
      unfolding unfold item by simp
  next
    case (Cons c cs)
    then have c: "c = d"
      by (metis (mono_tags) hd_dropWhile list.distinct(1) list.sel(1))
    have s: "s = ?item @ d # cs"
      using takeWhile_dropWhile_id [of "\<lambda>c. c \<noteq> d" s] Cons c by simp
    then have rest: "?rest = cs"
      by (metis append.assoc append_Cons append_Nil append_eq_conv_conj length_append_singleton)
    have "cs \<noteq> []" "last cs \<noteq> d"
      using 1(3) s by (metis last_snoc, metis last_appendR last_ConsR list.distinct(1) last_snoc)
    with 1(1) [OF 1(2) refl] obtain item items where
      it: "getlines d cs = item # items" "foldl (\<lambda>a p. a @ [d] @ p) item items = cs"
      by (auto simp: rest)
    have shift: "foldl (\<lambda>a p. a @ [d] @ p) (x @ y) ps = x @ foldl (\<lambda>a p. a @ [d] @ p) y ps" for x y ps
      by (induction ps arbitrary: y) simp_all
    have "foldl (\<lambda>a p. a @ [d] @ p) (?item @ [d] @ item) items = ?item @ d # cs"
      using shift [of "?item @ [d]" item items] it(2) by simp
    with s it(1) show ?thesis
      by (simp add: unfold rest)
  qed
qed

text \<open>A printed number has no characters besides digits and a sign.\<close>

lemma digits_string_chars:
  assumes "c \<in> set (digits_string base n)" and "base \<le> 36"
  shows "c \<noteq> CHR '' ''" and "c \<noteq> CHR 0x0A" and "c \<noteq> CHR '':''"
proof -
  have "is_digit base c"
    by (rule digits_string_digits [OF assms(2,1)])
  then show "c \<noteq> CHR '' ''" "c \<noteq> CHR 0x0A" "c \<noteq> CHR '':''"
    by (auto simp: is_digit_def digit_value_def Let_def split: if_splits)
qed

lemma to_string_chars:
  assumes "c \<in> set (to_string i)"
  shows "c \<noteq> CHR '' ''" and "c \<noteq> CHR 0x0A"
  using assms digits_string_chars [of c 10] by (auto simp: to_string_def split: if_splits)

lemma ucast_ucast_u32: "ucast (ucast (n :: u32) :: u64) = n"
  by (rule bit_word_eqI) (simp add: bit_simps)

lemma parse_trace_line:
  assumes "CHR '' '' \<notin> set w1" and "CHR '' '' \<notin> set w2" and "trace_name (js_symbol (dp_symbol p))"
  shows "parse_line (trace_line w1 w2 p) = Inr p"
proof -
  let ?name = "js_symbol (dp_symbol p)"
  let ?t = "to_string (sint (dp_time p))"
  let ?a = "digits_string 16 (unat (js_address (dp_symbol p)))"
  let ?l = "digits_string 10 (unat (js_length (dp_symbol p)))"
  from assms(3) obtain item items where name: "getlines CHR '' '' ?name = item # items"
    "foldl (\<lambda>a p. a @ [CHR '' ''] @ p) item items = ?name"
    using join_items [of ?name "CHR '' ''"] by (auto simp: trace_name_def)
  have line: "trace_line w1 w2 p = w1 @ CHR '' '' # w2 @ CHR '' '' # (CHR ''@'' # ?t) @
      CHR '' '' # (''0x'' @ ?a) @ CHR '' '' # (?l @ '':'') @ CHR '' '' # ?name"
    by (simp add: trace_line_def)
  have free: "CHR '' '' \<notin> set (CHR ''@'' # ?t)" "CHR '' '' \<notin> set (''0x'' @ ?a)"
    "CHR '' '' \<notin> set (?l @ '':'')"
    using to_string_chars(1) [of "CHR '' ''"] digits_string_chars(1) [of "CHR '' ''" 16]
      digits_string_chars(1) [of "CHR '' ''" 10] by auto
  have elems: "getlines CHR '' '' (trace_line w1 w2 p) =
      [w1, w2, CHR ''@'' # ?t, ''0x'' @ ?a, ?l @ '':'', item] @ items"
    unfolding line getlines_item [OF assms(1)] getlines_item [OF assms(2)] getlines_item [OF free(1)]
      getlines_item [OF free(2)] getlines_item [OF free(3)] name(1)
    by simp
  have time: "stoll ?t = Inr (dp_time p)"
  proof -
    have "- (2 ^ 63) \<le> sint (dp_time p)" "sint (dp_time p) < 2 ^ 63"
      using sint_greater_eq [of "dp_time p"] sint_less [of "dp_time p"] by simp_all
    from stoll_to_string [OF this] show ?thesis by simp
  qed
  have "unat (js_address (dp_symbol p)) < 2 ^ 64"
    using unsigned_less [of "js_address (dp_symbol p)", where ?'a = nat] by simp
  from stoull_hex [OF this] have address: "stoull 16 (CHR ''0'' # CHR ''x'' # ?a) = Inr (js_address (dp_symbol p))"
    by simp
  have "unat (js_length (dp_symbol p)) < 2 ^ 64"
    by (rule less_trans [OF unat_u32_less]) simp
  from stoull_digits_string [OF this, of "[]"]
  have len: "stoull 10 ?l = Inr (word_of_nat (unat (js_length (dp_symbol p))))"
    by simp
  have kept: "filter (\<lambda>c. c \<noteq> CHR 0x0D) ?name = ?name"
    using assms(3) by (auto simp: trace_name_def filter_id_conv)
  have last: "erase_last (?l @ '':'') = Inr ?l"
    by (simp add: erase_last_def)
  have cr: "foldl (\<lambda>name p. name @ CHR '' '' # p) item items = ?name"
    using name(2) by simp
  show ?thesis
    unfolding parse_line_def elems Let_def elem_at_def
    by (simp add: time address last len cr kept ucast_ucast_u32)
qed

section \<open>Properties\<close>

lemma newline_free:
  assumes "CHR 0x0A \<notin> set w1" and "CHR 0x0A \<notin> set w2" and "trace_name (js_symbol (dp_symbol p))"
  shows "CHR 0x0A \<notin> set (trace_line w1 w2 p)"
  using assms to_string_chars(2) [of "CHR 0x0A"] digits_string_chars(2) [of "CHR 0x0A" 16]
    digits_string_chars(2) [of "CHR 0x0A" 10]
  by (auto simp: trace_line_def trace_name_def)

text \<open>C26. Reading a recorded trace gives back the recorded data points: whatever the two words in front,
  the signed 64-bit time, the 64-bit address in hexadecimal, the 32-bit length and the name - spaces
  in it included - of every line are recovered, for every number of lines.\<close>

theorem trace_roundtrip:
  assumes "CHR '' '' \<notin> set w1" and "CHR 0x0A \<notin> set w1" and "CHR '' '' \<notin> set w2" and "CHR 0x0A \<notin> set w2"
    and "list_all (\<lambda>p. trace_name (js_symbol (dp_symbol p))) ps"
  shows "parse_trace (concat (map (\<lambda>p. trace_line w1 w2 p @ [CHR 0x0A]) ps)) = Inr ps"
  using assms(5)
proof (induction ps)
  case Nil
  show ?case
    by (simp add: parse_trace_def)
next
  case (Cons p ps)
  then have name: "trace_name (js_symbol (dp_symbol p))" by simp
  let ?rest = "concat (map (\<lambda>p. trace_line w1 w2 p @ [CHR 0x0A]) ps)"
  have "getlines CHR 0x0A (trace_line w1 w2 p @ CHR 0x0A # ?rest) =
      trace_line w1 w2 p # getlines CHR 0x0A ?rest"
    by (rule getlines_item [OF newline_free [OF assms(2,4) name]])
  moreover have "parse_lines (getlines CHR 0x0A ?rest) = Inr ps"
    using Cons by (simp add: parse_trace_def)
  ultimately show ?case
    by (simp add: parse_trace_def parse_trace_line [OF assms(1,3) name])
qed

definition trace_example :: data_point where
  "trace_example = \<lparr>dp_time = 1704961363753386690,
     dp_symbol = \<lparr>js_address = 0x7f024484cbfd, js_length = 143, js_symbol = ''a b''\<rparr>\<rparr>"

theorem trace_roundtrip_witness:
  "parse_trace (concat (map (\<lambda>p. trace_line ''fifo'' ''write:'' p @ [CHR 0x0A])
     [trace_example, trace_example])) = Inr [trace_example, trace_example]"
  by (rule trace_roundtrip) (simp_all add: trace_name_def trace_example_def)

text \<open>C39. Which lines are read: exactly those with six items of which the third, without its first
  character, is a number in the range of the type, the fourth one in hexadecimal, and the fifth one
  followed by one more character.  Every other line - an empty one, for instance - is undefined
  behaviour or ends the program by an exception, and so is the whole trace.\<close>

theorem trace_line_accepted:
  "((\<exists>p. parse_line str = Inr p) \<longleftrightarrow>
     (let elems = getlines CHR '' '' str in
      6 \<le> length elems \<and> (\<exists>t. stoll (drop 1 (elems ! 2)) = Inr t) \<and> (\<exists>a. stoull 16 (elems ! 3) = Inr a) \<and>
      elems ! 4 \<noteq> [] \<and> (\<exists>n. stoull 10 (butlast (elems ! 4)) = Inr n))) \<and>
   ((\<exists>ps. parse_trace content = Inr ps) \<longleftrightarrow>
     list_all (\<lambda>str. \<exists>p. parse_line str = Inr p) (getlines CHR 0x0A content))"
proof (rule conjI)
  show "(\<exists>p. parse_line str = Inr p) \<longleftrightarrow>
     (let elems = getlines CHR '' '' str in
      6 \<le> length elems \<and> (\<exists>t. stoll (drop 1 (elems ! 2)) = Inr t) \<and> (\<exists>a. stoull 16 (elems ! 3) = Inr a) \<and>
      elems ! 4 \<noteq> [] \<and> (\<exists>n. stoull 10 (butlast (elems ! 4)) = Inr n))"
    by (auto simp: parse_line_def Let_def elem_at_def erase_last_def res_simps)
  have "(\<exists>ps. parse_lines strs = Inr ps) \<longleftrightarrow> list_all (\<lambda>str. \<exists>p. parse_line str = Inr p) strs" for strs
    by (induction strs) (auto simp: res_simps)
  then show "(\<exists>ps. parse_trace content = Inr ps) \<longleftrightarrow>
     list_all (\<lambda>str. \<exists>p. parse_line str = Inr p) (getlines CHR 0x0A content)"
    by (simp add: parse_trace_def)
qed

end
