(* ===== verification/Printing.thy ===== *)
theory Printing
  imports Data_Objects Text_Numbers
begin

text \<open>
  What the program prints of its data: the stream output operators of the header and the objects
  (src/object) and \<open>print_array\<close> (src/utility.cpp), on a model of \<open>std::ostream\<close> with the format state
  they use.
\<close>

section \<open>Streams\<close>

text \<open>
  The text written so far, the base, the fill character and the width.  A formatted output pads its text
  to the width and sets the width back to zero; the saved and restored \<open>flags()\<close> contain the base, but
  neither the fill character nor the width.  The other format flags are never set by the program and have
  their defaults: fields are adjusted to the right, numbers have no prefix, digits are lower case.
\<close>

datatype number_base = Dec | Oct | Hex

fun radix :: "number_base \<Rightarrow> nat" where
  "radix Dec = 10"
| "radix Oct = 8"
| "radix Hex = 16"

record out_stream =
  out_text :: string
  out_base :: number_base
  out_fill :: char
  out_width :: nat

definition set_base :: "number_base \<Rightarrow> out_stream \<Rightarrow> out_stream" where
  "set_base b out = out\<lparr>out_base := b\<rparr>"

definition set_fill :: "char \<Rightarrow> out_stream \<Rightarrow> out_stream" where
  "set_fill c out = out\<lparr>out_fill := c\<rparr>"

definition set_width :: "nat \<Rightarrow> out_stream \<Rightarrow> out_stream" where
  "set_width n out = out\<lparr>out_width := n\<rparr>"

definition put_text :: "string \<Rightarrow> out_stream \<Rightarrow> out_stream" where
  "put_text s out = out\<lparr>out_text := out_text out @ replicate (out_width out - length s) (out_fill out) @ s,
     out_width := 0\<rparr>"

definition put_unsigned :: "nat \<Rightarrow> out_stream \<Rightarrow> out_stream" where
  "put_unsigned n out = put_text (digits_string (radix (out_base out)) n) out"

definition put_signed :: "'a::len word \<Rightarrow> out_stream \<Rightarrow> out_stream" where
  "put_signed n out =
     put_text (if out_base out = Dec then to_string (sint n) else digits_string (radix (out_base out)) (unat n)) out"

text \<open>\<open>std::endl\<close> puts the newline without formatting, and flushes.\<close>

definition put_endl :: "out_stream \<Rightarrow> out_stream" where
  "put_endl out = out\<lparr>out_text := out_text out @ [CHR 0x0A]\<rparr>"

section \<open>The output operators\<close>

definition print_header :: "data_header \<Rightarrow> out_stream \<Rightarrow> out_stream" where
  "print_header h out =
     (let f = out_base out;
          out = put_text ''('' (set_fill CHR ''0'' out);
          out = put_text '', '' (put_unsigned (unat (h_id h)) out);
          out = put_text '', 0x'' (put_unsigned (unat (type_code (h_type h))) out);
          out = put_unsigned (unat (h_body_size h)) (set_width 4 (set_base Hex out));
          out = set_base Dec (put_text '', '' out);
          out = put_text '')'' (put_signed (h_timestamp h) out)
      in set_base f out)"

definition print_java :: "java_symbol \<Rightarrow> out_stream \<Rightarrow> out_stream" where
  "print_java s out =
     (let f = out_base out;
          out = put_text ''(0x'' (set_base Hex (set_fill CHR ''0'' out));
          out = put_unsigned (unat (js_address s)) (set_width 16 out);
          out = put_text '', 0x'' out;
          out = put_unsigned (unat (js_length s)) (set_width 8 out);
          out = put_text [CHR '','', CHR '' '', CHR 0x22] out;
          out = put_text [CHR 0x22, CHR '')''] (put_text (js_symbol s) out)
      in set_base f out)"

definition print_ping :: "out_stream \<Rightarrow> out_stream" where
  "print_ping out = put_text ''()'' out"

definition print_bytes :: "byte list \<Rightarrow> out_stream \<Rightarrow> out_stream" where
  "print_bytes bs out = fold (\<lambda>b out. put_unsigned (unat b) (set_width 2 out)) bs out"

definition print_binary :: "binary_data \<Rightarrow> out_stream \<Rightarrow> out_stream" where
  "print_binary d out =
     (let f = out_base out;
          out = put_text ''('' (set_base Hex (set_fill CHR ''0'' out));
          out = put_text '')'' (print_bytes (bd_data d) out)
      in set_base f out)"

definition print_array :: "byte list \<Rightarrow> out_stream \<Rightarrow> out_stream" where
  "print_array bs out =
     (let f = out_base out;
          out = set_base Hex (set_fill CHR ''0'' out);
          out = put_endl (print_bytes bs out)
      in set_base f out)"

section \<open>What is printed\<close>

definition hex_field :: "nat \<Rightarrow> nat \<Rightarrow> string" where
  "hex_field width n =
     (let ds = digits_string 16 n in replicate (width - length ds) (CHR ''0'') @ ds)"

definition hex_bytes :: "byte list \<Rightarrow> string" where
  "hex_bytes bs = concat (map (\<lambda>b. hex_field 2 (unat b)) bs)"

lemmas put_defs = set_base_def set_fill_def set_width_def put_text_def put_unsigned_def put_signed_def
  put_endl_def

lemma print_bytes_text:
  assumes "out_base out = Hex" and "out_fill out = CHR ''0''"
  shows "print_bytes bs out = out\<lparr>out_text := out_text out @ hex_bytes bs,
    out_width := if bs = [] then out_width out else 0\<rparr>"
  using assms
  by (induction bs arbitrary: out) (simp_all add: print_bytes_def put_defs hex_bytes_def hex_field_def Let_def)

lemma digits_string_length:
  assumes "2 \<le> base" and "n < base ^ width" and "0 < width"
  shows "length (digits_string base n) \<le> width"
  using assms
proof (induction base n arbitrary: width rule: digits_string.induct)
  case (1 base n)
  show ?case
  proof (cases "n < base")
    case True
    with 1 show ?thesis by (subst digits_string.simps) simp
  next
    case False
    with "1.prems" obtain w where width: "width = Suc w" "0 < w"
      by (cases width; cases "width - 1") auto
    with "1.prems" have "n div base < base ^ w"
      by (simp add: div_less_iff_less_mult mult.commute)
    from "1.IH" [OF _ False "1.prems"(1) this width(2)] "1.prems"(1) False width(1) show ?thesis
      by (subst digits_string.simps) simp
  qed
qed

lemma digits_value_zeros:
  "digits_value base (replicate k (CHR ''0'') @ ds) = digits_value base ds"
proof -
  have "foldl (\<lambda>n c. base * n + the (digit_value c)) 0 (replicate k (CHR ''0'')) = 0"
    by (induction k) (simp_all add: digit_value_def)
  then show ?thesis by (simp add: digits_value_def)
qed

lemma hex_field_value: "digits_value 16 (hex_field width n) = n"
  by (simp add: hex_field_def Let_def digits_value_zeros digits_value_digits_string)

lemma hex_field_length: "n < 16 ^ width \<Longrightarrow> 0 < width \<Longrightarrow> length (hex_field width n) = width"
  using digits_string_length [of 16 n width] by (simp add: hex_field_def Let_def)

lemma hex_field_digits: "c \<in> set (hex_field width n) \<Longrightarrow> is_digit 16 c"
proof -
  have "is_digit 16 CHR ''0''" by (simp add: is_digit_def digit_value_def)
  with digits_string_digits [of 16 c n] show "c \<in> set (hex_field width n) \<Longrightarrow> is_digit 16 c"
    by (auto simp: hex_field_def Let_def)
qed

text \<open>A field is read back by the conversion that the program uses.\<close>

lemma stoull_hex_field:
  assumes "n < 2 ^ 64" and "rest = [] \<or> \<not> is_digit 16 (hd rest)"
  shows "stoull 16 (''0x'' @ hex_field width n @ rest) = Inr (word_of_nat n)"
proof -
  let ?ds = "hex_field width n"
  have digits: "\<forall>c \<in> set ?ds. is_digit 16 c"
    using hex_field_digits by blast
  have "?ds \<noteq> []" by (simp add: hex_field_def Let_def)
  then obtain c cs where ds: "?ds = c # cs" by (cases ?ds) auto
  with digits have c: "is_digit 16 c" by simp
  have zero: "\<not> is_space CHR ''0''"
    by (simp add: is_space_def)
  have "strip_sign (dropWhile is_space (''0x'' @ ?ds @ rest)) = (False, ''0x'' @ ?ds @ rest)"
    using zero by simp
  moreover have "strip_hex (''0x'' @ ?ds @ rest) = ?ds @ rest"
    using c by (simp add: ds)
  ultimately have "scan_number 16 (''0x'' @ ?ds @ rest) = Some (False, n)"
    using takeWhile_digits [OF digits assms(2)] \<open>?ds \<noteq> []\<close> hex_field_value [of width n]
    by (simp add: scan_number_def)
  with assms(1) show ?thesis by (simp add: stoull_def)
qed

lemma hex_bytes_inj:
  assumes "hex_bytes bs = hex_bytes cs"
  shows "bs = cs"
  using assms
proof (induction bs arbitrary: cs)
  case Nil
  have "hex_field 2 n \<noteq> []" for n by (simp add: hex_field_def Let_def)
  with Nil show ?case by (cases cs) (auto simp: hex_bytes_def)
next
  case (Cons b bs)
  have len: "length (hex_field 2 (unat c)) = 2" for c :: byte
    using unsigned_less [of c, where 'a = nat] by (intro hex_field_length) simp_all
  from Cons.prems obtain c cs' where cs: "cs = c # cs'"
    using len [of b] by (cases cs) (auto simp: hex_bytes_def)
  with Cons.prems len have "hex_field 2 (unat b) = hex_field 2 (unat c)" "hex_bytes bs = hex_bytes cs'"
    by (simp_all add: hex_bytes_def)
  then have "digits_value 16 (hex_field 2 (unat b)) = digits_value 16 (hex_field 2 (unat c))"
    by simp
  then have "b = c" by (simp only: hex_field_value unsigned_word_eqI)
  with Cons.IH [OF \<open>hex_bytes bs = hex_bytes cs'\<close>] show ?case by (simp add: cs)
qed

section \<open>Property\<close>

text \<open>C40. What the output operators of the header and of the three kinds of objects, and \<open>print_array\<close>, do
  to a stream in any state.  Each appends exactly its text - the opening bracket padded to a width that
  was left set, with zeros, except for \<open>Ping\<close>, which uses the stream's own fill character - and leaves the
  base as it was, the width zero and the fill character zero (\<open>Ping\<close> keeps it); only an array of no
  bytes, whose newline is not formatted, leaves the width.  The address and the length printed with a
  symbol are read back by the conversion that reads the traces, and two byte arrays print the same only
  if they are the same.\<close>

theorem print_objects_text:
  "print_header h out = out\<lparr>out_text := out_text out @
        replicate (out_width out - 1) (CHR ''0'') @ ''('' @
        digits_string (radix (out_base out)) (unat (h_id h)) @ '', '' @
        digits_string (radix (out_base out)) (unat (type_code (h_type h))) @ '', 0x'' @
        hex_field 4 (unat (h_body_size h)) @ '', '' @ to_string (sint (h_timestamp h)) @ '')'',
      out_fill := CHR ''0'', out_width := 0\<rparr> \<and>
   print_java s out = out\<lparr>out_text := out_text out @
        replicate (out_width out - 3) (CHR ''0'') @ ''(0x'' @ hex_field 16 (unat (js_address s)) @
        '', 0x'' @ hex_field 8 (unat (js_length s)) @ [CHR '','', CHR '' '', CHR 0x22] @ js_symbol s @
        [CHR 0x22, CHR '')''], out_fill := CHR ''0'', out_width := 0\<rparr> \<and>
   print_binary d out = out\<lparr>out_text := out_text out @
        replicate (out_width out - 1) (CHR ''0'') @ ''('' @ hex_bytes (bd_data d) @ '')'',
      out_fill := CHR ''0'', out_width := 0\<rparr> \<and>
   print_ping out = out\<lparr>out_text := out_text out @
        replicate (out_width out - 2) (out_fill out) @ ''()'', out_width := 0\<rparr> \<and>
   print_array bs out = out\<lparr>out_text := out_text out @ hex_bytes bs @ [CHR 0x0A],
      out_fill := CHR ''0'', out_width := if bs = [] then out_width out else 0\<rparr> \<and>
   stoull 16 (''0x'' @ hex_field 16 (unat (js_address s)) @ '', '' @ rest) = Inr (js_address s) \<and>
   stoull 16 (''0x'' @ hex_field 8 (unat (js_length s)) @ '', '' @ rest) = Inr (ucast (js_length s)) \<and>
   length (hex_field 16 (unat (js_address s))) = 16 \<and>
   (hex_bytes bs = hex_bytes (bd_data d)) = (bs = bd_data d)"
proof -
  have comma: "'', '' @ rest = [] \<or> \<not> is_digit 16 (hd ('', '' @ rest))"
    by (simp add: is_digit_def digit_value_def)
  have address: "unat (js_address s) < 2 ^ 64" and len: "unat (js_length s) < 2 ^ 64"
    using unsigned_less [of "js_address s", where 'a = nat] unsigned_less [of "js_length s", where 'a = nat]
    by simp_all
  have header: "print_header h out = out\<lparr>out_text := out_text out @
        replicate (out_width out - 1) (CHR ''0'') @ ''('' @
        digits_string (radix (out_base out)) (unat (h_id h)) @ '', '' @
        digits_string (radix (out_base out)) (unat (type_code (h_type h))) @ '', 0x'' @
        hex_field 4 (unat (h_body_size h)) @ '', '' @ to_string (sint (h_timestamp h)) @ '')'',
      out_fill := CHR ''0'', out_width := 0\<rparr>"
    by (simp add: print_header_def put_defs hex_field_def Let_def)
  have java: "print_java s out = out\<lparr>out_text := out_text out @
        replicate (out_width out - 3) (CHR ''0'') @ ''(0x'' @ hex_field 16 (unat (js_address s)) @
        '', 0x'' @ hex_field 8 (unat (js_length s)) @ [CHR '','', CHR '' '', CHR 0x22] @ js_symbol s @
        [CHR 0x22, CHR '')''], out_fill := CHR ''0'', out_width := 0\<rparr>"
    by (simp add: print_java_def put_defs hex_field_def Let_def)
  have binary: "print_binary d out = out\<lparr>out_text := out_text out @
        replicate (out_width out - 1) (CHR ''0'') @ ''('' @ hex_bytes (bd_data d) @ '')'',
      out_fill := CHR ''0'', out_width := 0\<rparr>"
    by (simp add: print_binary_def print_bytes_text put_defs Let_def)
  have ping: "print_ping out = out\<lparr>out_text := out_text out @
        replicate (out_width out - 2) (out_fill out) @ ''()'', out_width := 0\<rparr>"
    by (simp add: print_ping_def put_defs)
  have array: "print_array bs out = out\<lparr>out_text := out_text out @ hex_bytes bs @ [CHR 0x0A],
      out_fill := CHR ''0'', out_width := if bs = [] then out_width out else 0\<rparr>"
    by (simp add: print_array_def print_bytes_text put_defs Let_def)
  have read: "stoull 16 (''0x'' @ hex_field 16 (unat (js_address s)) @ '', '' @ rest) = Inr (js_address s)"
    "stoull 16 (''0x'' @ hex_field 8 (unat (js_length s)) @ '', '' @ rest) = Inr (ucast (js_length s))"
    using stoull_hex_field [OF address comma, of 16] stoull_hex_field [OF len comma, of 8] by simp_all
  have "length (hex_field 16 (unat (js_address s))) = 16"
    using address by (intro hex_field_length) simp_all
  moreover have "(hex_bytes bs = hex_bytes (bd_data d)) = (bs = bd_data d)"
    using hex_bytes_inj by blast
  ultimately show ?thesis
    by (intro conjI header java binary ping array read)
qed

text \<open>A binary object printed where a width of four was left set.\<close>

theorem print_objects_text_witness:
  "print_binary \<lparr>bd_data = [1, 255]\<rparr> \<lparr>out_text = ''x '', out_base = Oct, out_fill = CHR '' '', out_width = 4\<rparr> =
    \<lparr>out_text = ''x 000(01ff)'', out_base = Oct, out_fill = CHR ''0'', out_width = 0\<rparr>"
proof -
  have "hex_bytes [1, 255] = ''01ff''"
    by (simp add: hex_bytes_def hex_field_def digits_string.simps digit_char_def char_of_eq_iff)
  then show ?thesis
    using print_objects_text [where d = "\<lparr>bd_data = [1, 255]\<rparr>" and
      out = "\<lparr>out_text = ''x '', out_base = Oct, out_fill = CHR '' '', out_width = 4\<rparr>",
      THEN conjunct2, THEN conjunct2, THEN conjunct1]
    by (simp add: numeral_nat)
qed

end
