(* ===== verification/Command_Line.thy ===== *)
theory Command_Line
  imports Handlers Latency_Benchmark Throughput_Benchmark Execution_Benchmark Realworld_Benchmark
    Statistics Trace
begin

text \<open>
  The program (src/main.cpp): the two loops of the normal mode, the functions that run one benchmark
  and report its results, and \<open>main\<close>, which chooses the handler and the benchmark by the command line.
  What is printed is the report that a run returns, and for the normal server the log of its reads.
\<close>

section \<open>The environment of the program\<close>

text \<open>
  Besides the handlers' systems: the flag \<open>stop\<close>, which the main thread sets while the loop of the
  other thread runs, so every reading of it may find it set; and the contents of a file, empty if
  there is none.
\<close>

record ('w, 'm, 'i) command_os =
  co_program :: "('w, 'm, 'i) program_os"
  co_stop :: "'w \<Rightarrow> bool \<times> 'w"
  co_contents :: "string \<Rightarrow> 'w \<Rightarrow> string \<times> 'w"

definition EXIT_SUCCESS :: int where
  "EXIT_SUCCESS = 0"

definition EXIT_FAILURE :: int where
  "EXIT_FAILURE = 1"

lemma exit_codes [simp]: "EXIT_SUCCESS \<noteq> EXIT_FAILURE" "EXIT_FAILURE \<noteq> EXIT_SUCCESS"
  by (simp_all add: EXIT_SUCCESS_def EXIT_FAILURE_def)

datatype report =
    Latency_Report nat u32 statistics
  | Throughput_Report u32 u32 u32 rat rat
  | Execution_Report nat u32 u32 statistics
  | Realworld_Report string nat u32 u32

text \<open>Continuing after a call that may not return or fault.\<close>

definition run_then :: "'a res option \<Rightarrow> ('a \<Rightarrow> 'b res option) \<Rightarrow> 'b res option" where
  "run_then m f =
     (case m of None \<Rightarrow> None | Some (Inl e) \<Rightarrow> Some (Inl e) | Some (Inr x) \<Rightarrow> f x)"

lemma run_then_simps [simp]:
  "run_then None f = None" "run_then (Some (Inl e)) f = Some (Inl e)" "run_then (Some (Inr x)) f = f x"
  by (simp_all add: run_then_def)

section \<open>Running a benchmark\<close>

definition run_latency ::
  "'w bench_os \<Rightarrow> ('s \<times> 'w) comm_iface \<Rightarrow> u32 \<Rightarrow> u32 \<Rightarrow> bool \<Rightarrow> 's \<times> 'w \<Rightarrow>
   (int \<times> report option \<times> 's \<times> 'w) res option" where
  "run_latency B I iterations delay readonly h =
     (let bench = latency_new iterations delay readonly; (ok, h) = latency_setup I h in
      if \<not> ok then Some (Inr (EXIT_FAILURE, None, h))
      else
        run_then (latency_run B I bench h) (\<lambda>(success, bench, h).
        let h = latency_cleanup I h in
        if \<not> success then Some (Inr (EXIT_FAILURE, None, h))
        else if readonly then
          let results = lb_latencies bench in
          Some (and_then (compute_statistics results) (\<lambda>stats.
            Inr (EXIT_SUCCESS, Some (Latency_Report (length results) delay stats), h)))
        else Some (Inr (EXIT_SUCCESS, None, h))))"

definition run_throughput ::
  "'w bench_os \<Rightarrow> ('s \<times> 'w) comm_iface \<Rightarrow> u32 \<Rightarrow> u32 \<Rightarrow> bool \<Rightarrow> 's \<times> 'w \<Rightarrow>
   (int \<times> report option \<times> 's \<times> 'w) res option" where
  "run_throughput B I iterations body_size readonly h =
     (let bench = throughput_new iterations body_size readonly; (ok, h) = throughput_setup I h in
      if \<not> ok then Some (Inr (EXIT_FAILURE, None, h))
      else
        run_then (throughput_run B I bench h) (\<lambda>(success, bench, h).
        let h = throughput_cleanup I h in
        if \<not> success then Some (Inr (EXIT_FAILURE, None, h))
        else if readonly then
          Some (Inr (EXIT_SUCCESS,
            Some (Throughput_Report (tb_iterations bench) (tb_size bench)
              (tb_iterations bench - tb_received bench)
              (throughput_total_time bench) (throughput_result bench)), h))
        else Some (Inr (EXIT_SUCCESS, None, h))))"

definition run_execution_time ::
  "'w bench_os \<Rightarrow> ('s \<times> 'w) comm_iface \<Rightarrow> u32 \<Rightarrow> u32 \<Rightarrow> u32 \<Rightarrow> bool \<Rightarrow> 's \<times> 'w \<Rightarrow>
   (int \<times> report option \<times> 's \<times> 'w) res option" where
  "run_execution_time B I iterations body_size delay readonly h =
     (let bench = execution_new iterations body_size delay readonly; (ok, h) = execution_setup I h in
      if \<not> ok then Some (Inr (EXIT_FAILURE, None, h))
      else
        run_then (execution_run B I bench h) (\<lambda>(success, bench, h).
        let h = execution_cleanup I h in
        if \<not> success then Some (Inr (EXIT_FAILURE, None, h))
        else
          let results = eb_times bench in
          Some (and_then (compute_statistics results) (\<lambda>stats.
            Inr (EXIT_SUCCESS, Some (Execution_Report (length results) delay (eb_size bench) stats), h)))))"

text \<open>The benchmark gets the constant 5 as its threshold, the report the parameter.\<close>

definition run_real_world ::
  "('w, 'm, 'i) command_os \<Rightarrow> 'w bench_os \<Rightarrow> ('s \<times> 'w) comm_iface \<Rightarrow> string \<Rightarrow> u32 \<Rightarrow> bool \<Rightarrow> 's \<times> 'w \<Rightarrow>
   (int \<times> report option \<times> 's \<times> 'w) res option" where
  "run_real_world E B I path threshold readonly = (\<lambda>(s, w).
     let (content, w) = co_contents E path w in
     run_then (Some (parse_trace content)) (\<lambda>points.
     let bench = realworld_new points 5 readonly; (ok, h) = realworld_setup I (s, w) in
     if \<not> ok then Some (Inr (EXIT_FAILURE, None, h))
     else
       run_then (realworld_run B I bench h) (\<lambda>(success, bench, h).
       let h = realworld_cleanup I h in
       if \<not> success then Some (Inr (EXIT_FAILURE, None, h))
       else Some (Inr (EXIT_SUCCESS,
         Some (Realworld_Report path (length (rb_data bench)) threshold (rb_misses bench)), h)))))"

section \<open>The normal mode\<close>

text \<open>
  The client writes random symbols until it is stopped; whether a write fails makes no difference to
  the loop.  The four random numbers are drawn in the order of the text.
\<close>

partial_function (option) run_client ::
  "('w, 'm, 'i) command_os \<Rightarrow> handler \<times> 'w \<Rightarrow> (handler \<times> 'w) res option" where
  "run_client E h =
     (let (h, w) = h; (stop, w) = co_stop E w; B = po_bench (co_program E) in
      if stop \<or> \<not> handler_is_open (h, w) then Some (Inr (h, w))
      else
        let (ts, w) = get_timestamp B w;
            (r1, w) = os_rand B w; (r2, w) = os_rand B w; (r3, w) = os_rand B w;
            data = JavaSymbol \<lparr>js_address = or (push_bit 32 (word_of_int r1)) (word_of_int r2),
                     js_length = word_of_int r3, js_symbol = ''test123''\<rparr> in
        case handler_write (co_program E) data (h, w) of
          Inl f \<Rightarrow> Some (Inl f)
        | Inr (res, h, w) \<Rightarrow>
            let (r4, w) = os_rand B w in
            run_client E (h, os_sleep_for B (word_of_int (r4 mod 2)) w))"

text \<open>A lost connection of a stream socket is replaced by the next one.\<close>

definition reconnect :: "('w, 'm, 'i) program_os \<Rightarrow> handler \<times> 'w \<Rightarrow> handler \<times> 'w" where
  "reconnect K = (\<lambda>(h, w).
     case h of
       Stream_Handler s \<Rightarrow> snd (via Stream_Handler (stream_accept (po_sock K) (s, w)))
     | _ \<Rightarrow> (h, w))"

text \<open>
  One round of the server's loop: whether there may be more data, and what it printed, the results
  of the reads apart from those that found nothing.
\<close>

definition server_round ::
  "('w, 'm, 'i) program_os \<Rightarrow> bool \<Rightarrow> handler \<times> 'w \<Rightarrow>
   (bool \<times> read_result list \<times> (handler \<times> 'w)) res option" where
  "server_round K more_data h =
     (let (ready, h) = (if more_data then (True, h) else handler_await_data K h) in
      if \<not> ready then Some (Inr (False, [], h))
      else
        run_then (handler_read K h) (\<lambda>(result, h).
        case result of
          Inl e \<Rightarrow>
            if e = NO_DATA_AVAILABLE then Some (Inr (False, [], h))
            else Some (Inr (False, [Inl e], if e = CONNECTION_CLOSED then reconnect K h else h))
        | Inr m \<Rightarrow> Some (Inr (True, [Inr m], h))))"

partial_function (option) run_server ::
  "('w, 'm, 'i) command_os \<Rightarrow> bool \<Rightarrow> read_result list \<Rightarrow> handler \<times> 'w \<Rightarrow>
   (read_result list \<times> (handler \<times> 'w)) res option" where
  "run_server E more_data seen h =
     (let (h, w) = h; (stop, w) = co_stop E w in
      if stop \<or> \<not> handler_is_open (h, w) then Some (Inr (seen, h, w))
      else
        case server_round (co_program E) more_data (h, w) of
          None \<Rightarrow> None
        | Some (Inl f) \<Rightarrow> Some (Inl f)
        | Some (Inr (more_data, new, h)) \<Rightarrow> run_server E more_data (seen @ new) h)"

section \<open>The main function\<close>

text \<open>
  \<open>main\<close> after it created the handler.  A number on the command line is an \<open>unsigned long\<close>, of which
  the benchmarks get the low 32 bits.
\<close>

definition number_arg :: "string \<Rightarrow> u32 res" where
  "number_arg s = and_then (stoull 10 s) (\<lambda>n. Inr (ucast n))"

definition run_kind ::
  "('w, 'm, 'i) command_os \<Rightarrow> string list \<Rightarrow> string \<Rightarrow> bool \<Rightarrow> handler \<times> 'w \<Rightarrow>
   (int \<times> report option \<times> (handler \<times> 'w)) res option" where
  "run_kind E argv kind mode h =
     (let K = co_program E; B = po_bench K; I = handler_iface K; argc = length argv in
      if kind = ''normal'' then
        let (ok, h) = c_open I h in
        if \<not> ok then Some (Inr (EXIT_FAILURE, None, h))
        else
          run_then (if mode then map_option (map_sum id snd) (run_server E False [] h) else run_client E h)
            (\<lambda>h. Some (Inr (EXIT_SUCCESS, None, snd (c_close I h))))
      else if kind = ''latency'' then
        if argc < 6 then Some (Inr (EXIT_FAILURE, None, h))
        else
          run_then (Some (number_arg (argv ! 4))) (\<lambda>iterations.
          run_then (Some (number_arg (argv ! 5))) (\<lambda>delay.
          run_latency B I iterations delay mode h))
      else if kind = ''throughput'' then
        if argc < 6 then Some (Inr (EXIT_FAILURE, None, h))
        else
          run_then (Some (number_arg (argv ! 4))) (\<lambda>iterations.
          run_then (Some (number_arg (argv ! 5))) (\<lambda>body_size.
          run_throughput B I iterations body_size mode h))
      else if kind = ''execution'' then
        if argc < 7 then Some (Inr (EXIT_FAILURE, None, h))
        else
          run_then (Some (number_arg (argv ! 4))) (\<lambda>iterations.
          run_then (Some (number_arg (argv ! 5))) (\<lambda>body_size.
          run_then (Some (number_arg (argv ! 6))) (\<lambda>delay.
          run_execution_time B I iterations body_size delay mode h)))
      else if kind = ''realworld'' then
        if argc < 6 then Some (Inr (EXIT_FAILURE, None, h))
        else
          run_then (Some (number_arg (argv ! 5))) (\<lambda>threshold.
          run_real_world E B I (argv ! 4) threshold mode h)
      else Some (Inr (EXIT_FAILURE, None, h)))"

text \<open>The handler is destroyed when \<open>main\<close> returns.\<close>

definition main_program ::
  "('w, 'm, 'i) command_os \<Rightarrow> string list \<Rightarrow> 'w \<Rightarrow> (int \<times> report option \<times> 'w) res option" where
  "main_program E argv w =
     (if length argv < 4 then Some (Inr (EXIT_FAILURE, None, w))
      else
        let kind = argv ! 1; type = argv ! 2; mode = (argv ! 3 = ''reader'');
            path = (if type = ''udp'' \<or> type = ''tcp'' then ''127.0.0.1'' else ''ipc-handler'') in
        case create_handler type path mode of
          None \<Rightarrow> Some (Inr (EXIT_FAILURE, None, w))
        | Some handler \<Rightarrow>
            run_then (run_kind E argv kind mode (handler, w)) (\<lambda>(code, report, h).
            Some (Inr (code, report, snd (handler_destroy (co_program E) h)))))"

end
