(* ===== verification/Normal_Server.thy ===== *)
theory Normal_Server
  imports Command_Line Benchmark_Runs
begin

text \<open>
  The server of the normal mode, \<open>run_server\<close>: what it may print at all, the locale \<open>server_log\<close>,
  in which each round of the loop settles a part of what is due to be printed, and its instance for
  every handler that is a source of messages.
\<close>

section \<open>Sources of messages behind the interface\<close>

lemma embedded_source:
  assumes "message_source I invar seq cap holds effort B" and emb: "embedded C I invar seq (handler_iface K)"
    and C: "\<And>s s'. C s = C s' \<Longrightarrow> s = s'"
    and effort: "\<And>more_data s w. effort' more_data (C s, w) = effort more_data (s, w)"
  shows "message_source (handler_iface K) handler_inv handler_seq BUFFER_SIZE
    (\<lambda>(h, w) ms. \<exists>s. h = C s \<and> holds (s, w) ms) effort' B"
proof -
  have eqs: "handler_await_data K (C s, w) = via C (c_await_data I (s, w))"
     "handler_read K (C s, w) = map_option (via_res C) (c_read I (s, w))"
     "handler_inv (C s, w) = invar (s, w)" for s w
    using emb unfolding embedded_def by simp_all
  show ?thesis
  proof (unfold_locales, goal_cases)
    case (1 h ms)
    then show ?case
      using message_source.holds_invar [OF assms(1)] by (cases h) (auto simp: eqs)
  next
    case (2 s w ms ts w')
    then show ?case
      using message_source.clock_holds [OF assms(1)] by (fastforce simp: effort)
  next
    case (3 h m ms)
    then obtain s w where h: "h = (C s, w)" "holds (s, w) (m # ms)" by (cases h) auto
    from message_source.await_holds [OF assms(1) h(2)] obtain ready s' w' where
      "c_await_data I (s, w) = (ready, s', w')" "holds (s', w') (m # ms)"
      "if ready then effort True (s', w') \<le> effort False (s, w)
       else effort False (s', w') < effort False (s, w)"
      by (metis surj_pair)
    then show ?case
      by (intro exI [of _ ready] exI [of _ "(C s', w')"]) (auto simp: h(1) eqs via_def effort)
  next
    case (4 h m ms)
    then obtain s w where h: "h = (C s, w)" "holds (s, w) (m # ms)" by (cases h) auto
    from message_source.read_holds [OF assms(1) h(2)] show ?case
      by (fastforce simp: h(1) eqs via_res_def via_def effort)
  next
    case (5 h)
    then obtain s w where h: "h = (C s, w)" "holds (s, w) []" by (cases h) auto
    from message_source.await_idle [OF assms(1) h(2)] obtain ready s' w' where
      await: "c_await_data I (s, w) = (ready, s', w')" and idle: "holds (s', w') []"
      and next_read: "if ready then \<exists>h''. c_read I (s', w') = Some (Inr (Inl NO_DATA_AVAILABLE, h'')) \<and>
         holds h'' [] \<and> effort False h'' < effort False (s, w)
       else effort False (s', w') \<le> effort False (s, w)"
      by (metis surj_pair)
    from next_read idle show ?case
      by (cases ready) (fastforce simp: h(1) eqs await via_def via_res_def effort)+
  next
    case (6 h)
    then obtain s w where h: "h = (C s, w)" "holds (s, w) []" by (cases h) auto
    from message_source.read_idle [OF assms(1) h(2)] show ?case
      by (auto simp: h(1) eqs via_res_def via_def)
  qed
qed

section \<open>The normal mode\<close>

lemma reconnect_keeps:
  assumes "handler_inv h"
  shows "handler_inv (reconnect K h) \<and> handler_is_open (reconnect K h) = handler_is_open h \<and>
    handler_seq (reconnect K h) = handler_seq h"
proof (cases h rule: handler_pair_cases)
  case (stream s w)
  obtain b s' w' where accepted: "stream_accept (po_sock K) (s, w) = (b, s', w')"
    by (metis surj_pair)
  from assms stream_accept_frame [OF accepted] show ?thesis
    by (simp add: stream reconnect_def accepted via_def handler_inv_def handler_is_open_def
        handler_seq_def stream_inv_def stream_is_open_def stream_seq_def)
qed (use assms in \<open>simp_all add: reconnect_def\<close>)

definition logged :: "read_result \<Rightarrow> bool" where
  "logged r \<longleftrightarrow> typed_result r \<and> r \<noteq> Inl NO_DATA_AVAILABLE"

lemma handler_keeps:
  assumes "handler_inv h"
  shows "handler_await_data K h = (b, h') \<Longrightarrow>
      handler_inv h' \<and> handler_is_open h' = handler_is_open h \<and> handler_seq h' = handler_seq h"
    and "handler_read K h = Some (Inr (r, h')) \<Longrightarrow> typed_result r \<and>
      handler_inv h' \<and> handler_is_open h' = handler_is_open h \<and> handler_seq h' = handler_seq h"
  using handlers.await_law [OF assms] handlers.read_law [OF assms] by (simp, blast)+

lemma handler_world:
  fixes w w' :: 'w
  shows "handler_inv (s, w) = handler_inv (s, w')"
    and "handler_is_open (s, w) = handler_is_open (s, w')"
    and "handler_seq (s, w) = handler_seq (s, w')"
  using bench_handlers.invar_world [of s w w'] bench_handlers.invar_world [of s w' w]
    bench_handlers.open_world [of _ s w w'] bench_handlers.seq_world [of s w w'] by auto

lemma server_round_log:
  assumes "server_round K more_data h = Some (Inr (more', new, h'))" and "handler_inv h"
  shows "list_all logged new \<and> handler_inv h' \<and> handler_is_open h' = handler_is_open h \<and>
    handler_seq h' = handler_seq h"
proof -
  obtain ready h1 where await: "(if more_data then (True, h) else handler_await_data K h) = (ready, h1)"
    by (rule prod.exhaust)
  have keep: "handler_inv h1 \<and> handler_is_open h1 = handler_is_open h \<and> handler_seq h1 = handler_seq h"
  proof (cases more_data)
    case True
    with await assms(2) show ?thesis by simp
  next
    case False
    with await have "handler_await_data K h = (ready, h1)" by simp
    from handler_keeps(1) [OF assms(2) this] show ?thesis .
  qed
  show ?thesis
  proof (cases ready)
    case False
    with assms(1) keep show ?thesis
      by (simp add: server_round_def await)
  next
    case True
    with assms(1) obtain p where "handler_read K h1 = Some (Inr p)"
      unfolding server_round_def await
      by (cases "handler_read K h1"; cases "the (handler_read K h1)"; simp)
    then obtain r h2 where read: "handler_read K h1 = Some (Inr (r, h2))"
      by (cases p) simp
    from handler_keeps(2) [OF _ read] keep
    have read_keeps: "typed_result r" "handler_inv h2" "handler_is_open h2 = handler_is_open h"
        "handler_seq h2 = handler_seq h"
      by simp_all
    from assms(1) True read_keeps reconnect_keeps [OF read_keeps(2), of K] show ?thesis
      by (auto simp: server_round_def await read logged_def split: sum.splits if_splits)
  qed
qed

lemma run_server_log:
  assumes "run_server E more_data seen h = Some (Inr (log', h'))" and "handler_inv h"
  shows "(\<exists>new. log' = seen @ new \<and> list_all logged new) \<and> handler_inv h' \<and>
    handler_is_open h' = handler_is_open h \<and> handler_seq h' = handler_seq h"
proof -
  have "\<exists>new. log' = seen @ new \<and> list_all logged new \<and> handler_inv h' \<and>
      handler_is_open h' = handler_is_open h \<and> handler_seq h' = handler_seq h"
    if "run_server E more_data seen h = Some r" and "r = Inr (log', h')" for r
  proof (rule run_server.raw_induct
      [where P = "\<lambda>F more seen h r. F = E \<longrightarrow> handler_inv h \<longrightarrow> r = Inr (log', h') \<longrightarrow>
        (\<exists>new. log' = seen @ new \<and> list_all logged new \<and> handler_inv h' \<and>
         handler_is_open h' = handler_is_open h \<and> handler_seq h' = handler_seq h)",
       OF _ that(1), rule_format, OF _ refl assms(2) that(2)], goal_cases)
    case (1 loop F more seen h r)
    obtain hh w stop w1 where h: "h = (hh, w)" and flag: "co_stop E w = (stop, w1)"
      by (metis surj_pair)
    have keep: "handler_inv (hh, w1)" "handler_is_open (hh, w1) = handler_is_open h"
        "handler_seq (hh, w1) = handler_seq h"
      using 1(4) handler_world [of hh w1 w] by (simp_all add: h)
    note step = 1(2) [unfolded 1(3) 1(5) h flag Let_def prod.case]
    show ?case
    proof (cases "stop \<or> \<not> handler_is_open (hh, w1)")
      case True
      with step keep show ?thesis by auto
    next
      case False
      with step obtain more' new h2
        where next_round: "server_round (co_program E) more (hh, w1) = Some (Inr (more', new, h2))"
          "loop E more' (seen @ new) h2 = Some (Inr (log', h'))"
        by (auto split: option.splits sum.splits)
      from server_round_log [OF next_round(1) keep(1)]
      have "list_all logged new" "handler_inv h2" "handler_is_open h2 = handler_is_open h"
        "handler_seq h2 = handler_seq h"
        using keep by simp_all
      with 1(1) [OF next_round(2) refl _ refl] show ?thesis by auto
    qed
  qed
  from this [OF assms(1) refl] show ?thesis by blast
qed

section \<open>What is due to be printed\<close>

text \<open>
  \<open>due more_data h rest\<close> states that the server still has to print \<open>rest\<close>.  A round prints a first part
  of it; a round that prints nothing while something is due brings the next one nearer.
\<close>

locale server_log =
  fixes E :: "('w, 'm, 'i) command_os"
    and due :: "bool \<Rightarrow> handler \<times> 'w \<Rightarrow> read_result list \<Rightarrow> bool"
    and effort :: "bool \<Rightarrow> handler \<times> 'w \<Rightarrow> 'e :: wellorder"
  assumes due_invar: "due more_data h rest \<Longrightarrow> handler_inv h"
    and stop_due: "due more_data (s, w) rest \<Longrightarrow> co_stop E w = (b, w') \<Longrightarrow>
      due more_data (s, w') rest \<and> effort more_data (s, w') \<le> effort more_data (s, w)"
    and round_due: "due more_data h rest \<Longrightarrow> \<exists>more_data' new rest' h'.
      server_round (co_program E) more_data h = Some (Inr (more_data', new, h')) \<and>
      rest = new @ rest' \<and> due more_data' h' rest' \<and>
      (rest = [] \<or> new \<noteq> [] \<or> effort more_data' h' < effort more_data h)"
begin

text \<open>Whenever the loop is stopped, it has printed a first part of what was due.\<close>

lemma run_server_takes:
  assumes "run_server E more_data seen h = Some r" and "due more_data h rest"
  shows "\<exists>k more_data' h'. r = Inr (seen @ take k rest, h') \<and> due more_data' h' (drop k rest)"
proof (rule run_server.raw_induct
    [where P = "\<lambda>F more seen h r. F = E \<longrightarrow> (\<forall>rest. due more h rest \<longrightarrow>
      (\<exists>k more' h'. r = Inr (seen @ take k rest, h') \<and> due more' h' (drop k rest)))",
     OF _ assms(1), rule_format, OF _ refl assms(2)], goal_cases)
  case (1 loop F more seen h r rest)
  obtain hh w stop w1 where h: "h = (hh, w)" and flag: "co_stop E w = (stop, w1)"
    by (metis surj_pair)
  have kept: "due more (hh, w1) rest"
    using stop_due [of more hh w rest] 1(4) flag by (simp add: h)
  note step = 1(2) [unfolded 1(3) h flag Let_def prod.case]
  show ?case
  proof (cases "stop \<or> \<not> handler_is_open (hh, w1)")
    case True
    with step have "r = Inr (seen, hh, w1)" by auto
    with kept show ?thesis by (intro exI [of _ 0]) auto
  next
    case False
    from round_due [OF kept] obtain more' new rest' h2 where
      "server_round (co_program E) more (hh, w1) = Some (Inr (more', new, h2))"
      and rest: "rest = new @ rest'" and h2: "due more' h2 rest'" by blast
    with step False have "loop E more' (seen @ new) h2 = Some r" by simp
    from 1(1) [OF this refl h2] obtain k more'' h' where
      "r = Inr ((seen @ new) @ take k rest', h')" "due more'' h' (drop k rest')" by blast
    then show ?thesis
      by (intro exI [of _ "length new + k"]) (auto simp: rest)
  qed
qed

text \<open>If the flag is set as soon as nothing is due, the loop ends, and has printed everything.\<close>

lemma run_server_completes:
  assumes "due more_data h rest" and "handler_is_open h"
    and flag: "\<And>more_data s w rest. due more_data (s, w) rest \<Longrightarrow> fst (co_stop E w) = (rest = [])"
  shows "\<exists>more_data' h'. run_server E more_data seen h = Some (Inr (seen @ rest, h')) \<and>
    due more_data' h' []"
  using assms(1,2)
proof (induction rest arbitrary: more_data seen h rule: length_induct)
  case outer: (1 rest)
  from outer.prems show ?case
  proof (induction "effort more_data h" arbitrary: more_data seen h rule: less_induct)
    case less
    obtain hh w stop w1 where h: "h = (hh, w)" and stop: "co_stop E w = (stop, w1)"
      by (metis surj_pair)
    have w1: "due more_data (hh, w1) rest" "effort more_data (hh, w1) \<le> effort more_data h" "stop = (rest = [])"
        "handler_is_open (hh, w1)"
      using less.prems stop_due [of more_data hh w rest] flag [of more_data hh w rest]
        handler_world(2) [of hh w1 w] stop by (simp_all add: h)
    show ?case
    proof (cases "rest = []")
      case True
      with w1 show ?thesis
        by (subst run_server.simps) (auto simp: h stop)
    next
      case False
      from round_due [OF w1(1)] False obtain more' new rest' h2 where
        this_round: "server_round (co_program E) more_data (hh, w1) = Some (Inr (more', new, h2))"
        and rest: "rest = new @ rest'" and h2: "due more' h2 rest'"
        and progress: "new \<noteq> [] \<or> effort more' h2 < effort more_data (hh, w1)" by blast
      have run: "run_server E more_data seen h = run_server E more' (seen @ new) h2"
        using w1(3,4) False by (subst run_server.simps) (simp add: h stop this_round)
      have still_open: "handler_is_open h2"
        using server_round_log [OF this_round due_invar [OF w1(1)]] w1(4) by simp
      show ?thesis
      proof (cases "new = []")
        case True
        with progress w1(2) have "effort more' h2 < effort more_data h" by auto
        from less.hyps [OF this _ still_open, of seen] h2 True show ?thesis
          by (simp add: run rest)
      next
        case False
        then have "length rest' < length rest" by (simp add: rest)
        with outer.IH h2 still_open have "\<exists>more'' h'. run_server E more' (seen @ new) h2 =
            Some (Inr ((seen @ new) @ rest', h')) \<and> due more'' h' []" by blast
        then show ?thesis by (simp add: run rest)
      qed
    qed
  qed
qed

end

section \<open>The normal server on a source of messages\<close>

text \<open>
  The handler is a source of messages, and reading the flag \<open>stop\<close>, which may be set at any time,
  takes none of them away.
\<close>

locale server_source =
  message_source "handler_iface (co_program E)" handler_inv handler_seq BUFFER_SIZE holds effort B
  for E :: "('w, 'm, 'i) command_os" and holds effort B +
  assumes stop_holds: "holds (s, w) ms \<Longrightarrow> co_stop E w = (b, w') \<Longrightarrow>
    holds (s, w') ms \<and> effort more_data (s, w') \<le> effort more_data (s, w)"
begin

lemma round_ready:
  assumes "holds h (m # ms)"
  shows "\<exists>h'. server_round (co_program E) more_data h = Some (Inr (True, [Inr m], h')) \<and> holds h' ms \<or>
    server_round (co_program E) more_data h = Some (Inr (False, [], h')) \<and> holds h' (m # ms) \<and>
    effort False h' < effort more_data h"
proof -
  obtain ready h1 where await: "(if more_data then (True, h) else handler_await_data (co_program E) h) = (ready, h1)"
    and h1: "holds h1 (m # ms)"
      "if ready then effort True h1 \<le> effort more_data h else effort False h1 < effort more_data h"
    using assms await_holds [OF assms] by (cases more_data) auto
  show ?thesis
  proof (cases ready)
    case False
    with await h1 show ?thesis
      by (intro exI [of _ h1]) (simp add: server_round_def)
  next
    case True
    with h1(2) have le: "effort True h1 \<le> effort more_data h" by simp
    obtain r h2 where read: "handler_read (co_program E) h1 = Some (Inr (r, h2))"
      and r: "r = Inr m \<and> holds h2 ms \<or> r = Inl NO_DATA_AVAILABLE \<and> holds h2 (m # ms) \<and>
        effort False h2 < effort True h1"
      using read_holds [OF h1(1)] by auto
    from r le True show ?thesis
      by (intro exI [of _ h2]) (auto simp: server_round_def await read)
  qed
qed

lemma round_idle:
  assumes "holds h []"
  shows "\<exists>h'. server_round (co_program E) more_data h = Some (Inr (False, [], h')) \<and> holds h' []"
proof (cases more_data)
  case True
  with read_idle [OF assms] show ?thesis
    by (auto simp: server_round_def)
next
  case False
  from await_idle [OF assms] obtain ready h1 where "c_await_data (handler_iface (co_program E)) h = (ready, h1)"
    "holds h1 []" "ready \<longrightarrow> (\<exists>h2. c_read (handler_iface (co_program E)) h1 =
      Some (Inr (Inl NO_DATA_AVAILABLE, h2)) \<and> holds h2 [])" by metis
  with False show ?thesis
    by (cases ready) (auto simp: server_round_def)
qed

end

sublocale server_source \<subseteq> messages: server_log E
  "\<lambda>more_data h rest. \<exists>ms. rest = map Inr ms \<and> holds h ms" effort
proof (unfold_locales, goal_cases)
  case (1 more_data h rest)
  then show ?case using holds_invar by blast
next
  case (2 more_data s w rest b w')
  then show ?case using stop_holds by blast
next
  case (3 more_data h rest)
  then obtain ms where rest: "rest = map Inr ms" and h: "holds h ms" by blast
  show ?case
  proof (cases ms)
    case Nil
    from round_idle [of h more_data] h show ?thesis by (auto simp: rest Nil)
  next
    case (Cons m ms')
    from round_ready [of h m ms' more_data] h obtain h' where
      "server_round (co_program E) more_data h = Some (Inr (True, [Inr m], h')) \<and> holds h' ms' \<or>
       server_round (co_program E) more_data h = Some (Inr (False, [], h')) \<and> holds h' ms \<and>
       effort False h' < effort more_data h"
      unfolding Cons by blast
    then show ?thesis
    proof (elim disjE conjE)
      assume "server_round (co_program E) more_data h = Some (Inr (True, [Inr m], h'))" "holds h' ms'"
      then show ?thesis
        by (intro exI [of _ True] exI [of _ "[Inr m]"] exI [of _ "map Inr ms'"] exI [of _ h'])
          (auto simp: rest Cons)
    next
      assume "server_round (co_program E) more_data h = Some (Inr (False, [], h'))" "holds h' ms"
        "effort False h' < effort more_data h"
      then show ?thesis
        by (intro exI [of _ False] exI [of _ "[]"] exI [of _ rest] exI [of _ h']) (auto simp: rest)
    qed
  qed
qed


context server_source
begin

lemma takes_messages:
  assumes "run_server E more_data seen h = Some r" and "holds h ms"
  shows "\<exists>k h'. r = Inr (seen @ map Inr (take k ms), h') \<and> holds h' (drop k ms)"
proof -
  from assms(2) have "\<exists>ms'. map Inr ms = map Inr ms' \<and> holds h ms'" by blast
  from messages.run_server_takes [OF assms(1) this] obtain k h' ms' where
    r: "r = Inr (seen @ take k (map Inr ms), h')" and ms': "drop k (map Inr ms) = (map Inr ms' :: read_result list)" "holds h' ms'"
    by (elim exE conjE) (rule that)
  have "(map Inr (drop k ms) :: read_result list) = map Inr ms'"
    using ms'(1) by (rule subst [OF drop_map])
  from map_injective [OF this] have "ms' = drop k ms"
    by simp
  with r ms'(2) show ?thesis
    by (intro exI [of _ k] exI [of _ h']) (simp add: take_map)
qed

lemma completes_messages:
  assumes "holds h ms" and "handler_is_open h"
    and "\<And>s w rest. holds (s, w) rest \<Longrightarrow> fst (co_stop E w) = (rest = [])"
  shows "\<exists>h'. run_server E more_data seen h = Some (Inr (seen @ map Inr ms, h')) \<and> holds h' []"
proof -
  from assms(1) have "\<exists>ms'. map Inr ms = map Inr ms' \<and> holds h ms'" by blast
  moreover have "fst (co_stop E w) = (rest = [])" if "\<exists>ms. rest = map Inr ms \<and> holds (s, w) ms" for s w rest
    using that assms(3) by auto
  ultimately have "\<exists>h'. run_server E more_data seen h = Some (Inr (seen @ map Inr ms, h')) \<and>
      (\<exists>ms. [] = map Inr ms \<and> holds h' ms)"
    using messages.run_server_completes [OF _ assms(2),
        where more_data = more_data and rest = "map Inr ms" and seen = seen] by blast
  then show ?thesis by auto
qed

end

text \<open>
  A pipe as the source, behind a handler whose other system calls are arbitrary, and a user who stops
  the program once everything has been read.
\<close>

definition pipe_program ::
  "(pipe_kernel, 'm, 'i) command_os \<Rightarrow> (pipe_kernel, 'm, 'i) command_os" where
  "pipe_program E = E\<lparr>co_program := (co_program E)\<lparr>po_fifo := pipe_calls, po_bench := pipe_bench\<rparr>,
     co_stop := (\<lambda>k. (pk_pipe k = [], k))\<rparr>"

definition pipe_handler_waiting :: "handler \<times> pipe_kernel \<Rightarrow> message list \<Rightarrow> bool" where
  "pipe_handler_waiting = (\<lambda>(h, w) ms. \<exists>s. h = Fifo_Handler s \<and> pipe_waiting (s, w) ms)"

lemma pipe_program_simps [simp]:
  "po_fifo (co_program (pipe_program E)) = pipe_calls" "po_bench (co_program (pipe_program E)) = pipe_bench"
  "co_stop (pipe_program E) k = (pk_pipe k = [], k)"
  by (simp_all add: pipe_program_def)

interpretation pipe_server: server_source "pipe_program E" pipe_handler_waiting "\<lambda>_ _. 0" pipe_bench
  for E :: "(pipe_kernel, 'm, 'i) command_os"
proof -
  have "message_source (handler_iface (co_program (pipe_program E))) handler_inv handler_seq BUFFER_SIZE
      pipe_handler_waiting (\<lambda>_ _. 0) pipe_bench"
    unfolding pipe_handler_waiting_def
    by (rule embedded_source [OF pipe_source embeddings(2) [where K = "co_program (pipe_program E)",
        unfolded pipe_program_simps]]) auto
  then show "server_source (pipe_program E) pipe_handler_waiting (\<lambda>_ _. 0) pipe_bench"
    by (auto simp: server_source_def server_source_axioms_def)
qed

lemma pipe_program_waiting:
  "pipe_handler_waiting (Fifo_Handler (fst pipe_reader), snd pipe_reader) three_pings"
  using pipe_reader_waiting by (simp add: pipe_handler_waiting_def)

lemma pipe_program_stops:
  assumes "pipe_handler_waiting (h, w) rest"
  shows "fst (co_stop (pipe_program E) w) = (rest = [])"
proof -
  have nonempty: "wire m \<noteq> []" for m
    by (cases m) (simp add: length_greater_0_conv [symmetric] del: length_greater_0_conv)
  have "pk_pipe w = concat (map wire rest)"
    using assms by (auto simp: pipe_handler_waiting_def pipe_waiting_def fifo_carries_def)
  with nonempty show ?thesis
    by (cases rest) (simp_all del: wire.simps)
qed

text \<open>The normal server, with a handler of any kind as a source of messages: whenever it is
  stopped, even in between, it has printed exactly the messages it took, in their order, and the rest
  is still waiting; and if it is stopped when nothing is left, it ends and has printed all of them.\<close>

lemma normal_server_prints:
  assumes "server_source E waiting effort B" and "waiting h ms" and "handler_is_open h"
  shows "(\<forall>r. run_server E False [] h = Some r \<longrightarrow>
      (\<exists>k h'. r = Inr (map Inr (take k ms), h') \<and> waiting h' (drop k ms))) \<and>
    ((\<forall>s w rest. waiting (s, w) rest \<longrightarrow> fst (co_stop E w) = (rest = [])) \<longrightarrow>
      (\<exists>h'. run_server E False [] h = Some (Inr (map Inr ms, h')) \<and> waiting h' []))"
  using server_source.takes_messages [OF assms(1) _ assms(2), of False "[]"]
    server_source.completes_messages [OF assms, of False "[]"] by simp

section \<open>Properties\<close>

text \<open>C19. What the normal server prints is well typed: whatever the system calls answer and whenever it is
  stopped, every result it printed is an error other than a missing message, or a message whose
  object is of the type that its header names; and the handler it leaves, reconnected or not, is valid
  and as open as before.\<close>

theorem normal_log_typed:
  assumes "run_server E False [] h = Some (Inr (printed, h'))" and "handler_inv h"
  shows "list_all (\<lambda>r. case r of Inl e \<Rightarrow> e \<noteq> NO_DATA_AVAILABLE \<and> e \<noteq> INVALID_HEADER
      | Inr (header, obj) \<Rightarrow> get_type obj = h_type header) printed \<and>
    handler_inv h' \<and> handler_is_open h' = handler_is_open h \<and> handler_seq h' = handler_seq h"
proof -
  have "logged = (\<lambda>r. case r of Inl e \<Rightarrow> e \<noteq> NO_DATA_AVAILABLE \<and> e \<noteq> INVALID_HEADER
      | Inr (header, obj) \<Rightarrow> get_type obj = h_type header)"
    by (auto simp: logged_def typed_result_def fun_eq_iff split: sum.splits)
  with run_server_log [OF assms] show ?thesis by auto
qed

theorem normal_log_typed_witness:
  "\<forall>E :: (pipe_kernel, 'm, 'i) command_os. \<exists>h'.
     run_server (pipe_program E) False [] (Fifo_Handler (fst pipe_reader), snd pipe_reader) =
       Some (Inr (map Inr three_pings, h')) \<and> handler_inv h' \<and> handler_is_open h' \<and>
     list_all (\<lambda>r. case r of Inl e \<Rightarrow> e \<noteq> NO_DATA_AVAILABLE \<and> e \<noteq> INVALID_HEADER
      | Inr (header, obj) \<Rightarrow> get_type obj = h_type header) (map Inr three_pings)"
proof (intro allI)
  fix E :: "(pipe_kernel, 'm, 'i) command_os"
  let ?h = "(Fifo_Handler (fst pipe_reader), snd pipe_reader)"
  have is_open: "handler_is_open ?h" and inv: "handler_inv ?h"
    by (simp_all add: handler_is_open_def fifo_is_open_def handler_inv_def fifo_inv_def pipe_reader_def
        fifo_new_def)
  have "\<exists>h'. run_server (pipe_program E) False [] ?h = Some (Inr ([] @ map Inr three_pings, h')) \<and>
      pipe_handler_waiting h' []"
    by (rule pipe_server.completes_messages [OF pipe_program_waiting is_open]) (rule pipe_program_stops)
  then obtain h' where run: "run_server (pipe_program E) False [] ?h = Some (Inr (map Inr three_pings, h'))"
    unfolding append_Nil by (elim exE conjE)
  then show "\<exists>h'. run_server (pipe_program E) False [] ?h = Some (Inr (map Inr three_pings, h')) \<and>
      handler_inv h' \<and> handler_is_open h' \<and>
      list_all (\<lambda>r. case r of Inl e \<Rightarrow> e \<noteq> NO_DATA_AVAILABLE \<and> e \<noteq> INVALID_HEADER
        | Inr (header, obj) \<Rightarrow> get_type obj = h_type header) (map Inr three_pings)"
    using normal_log_typed [OF run inv] is_open by blast
qed

end
