(* ===== verification/Benchmark_Sessions.thy ===== *)
theory Benchmark_Sessions
  imports Benchmark_Runs
begin

text \<open>
  Whole benchmarks: a client and a server at the two ends of one transport, the client's run followed
  by the server's.  What the client wrote is what the server measures.
\<close>

section \<open>What a client leaves in transit\<close>

context benched_channel
begin

lemma write_step:
  assumes "carries (a, b, w) ms" and "c_write I obj (a, w) = Inr (ok, a', w')"
  shows "\<exists>new. carries (a', b, w') (ms @ new) \<and> length new \<le> (if ok then 1 else 0) \<and>
    list_all (\<lambda>m. snd m = obj) new"
proof -
  have sent: "channel_send I obj (a, b, w) = Inr (ok, a', b, w')"
    using assms(2) by (simp add: channel_send_def)
  from send_law [OF assms(1), of obj] sent obtain h
    where "carries (a', b, w') ms \<or> ok \<and> carries (a', b, w') (ms @ [(h, obj)])"
    by auto
  then show ?thesis
    by (elim disjE conjE) (rule exI [of _ "[]"], simp, rule exI [of _ "[(h, obj)]"], simp)
qed

lemma dummy_data_carries:
  assumes "dummy_data B amount i bs w = Some (bs', w')" and "carries (a, b, w) ms"
  shows "carries (a, b, w') ms"
proof (rule dummy_data.raw_induct
    [where P = "\<lambda>C amount i bs w r. C = B \<longrightarrow> carries (a, b, w) ms \<longrightarrow> carries (a, b, snd r) ms",
     OF _ assms(1), rule_format, OF _ refl assms(2), unfolded snd_conv], goal_cases)
  case (1 loop C amount i bs w r)
  obtain x w1 where rand: "os_rand B w = (x, w1)" by fastforce
  from rand_carried [OF 1(4) rand] have "carries (a, b, w1) ms" .
  with 1(1) [of C amount "i + 1" "bs @ [word_of_int x]" w1 r] 1(2,3,4) rand show ?case
    by (auto split: if_splits)
qed

text \<open>A client leaves at most one message for each round behind those that were in transit.\<close>

lemma throughput_client_sends:
  assumes "carries (a, b, w) ms" and "tb_iterations bm \<noteq> - 1"
    and "throughput_client_loop I data i bm (a, w) = Some (Inr (ok, a', w'))"
  shows "\<exists>new. carries (a', b, w') (ms @ new) \<and> length new \<le> rounds i (tb_iterations bm) \<and>
    list_all (\<lambda>m. snd m = data) new"
  using assms(1,3)
proof (induction "rounds i (tb_iterations bm)" arbitrary: i a w ms)
  case 0
  then have "\<not> i \<le> tb_iterations bm"
    using rounds_step(1) [OF _ assms(2)] by fastforce
  with 0 show ?case
    by (subst (asm) throughput_client_loop.simps) (auto intro: exI [of _ "[]"])
next
  case (Suc n)
  then have le: "i \<le> tb_iterations bm"
    using rounds_end by fastforce
  have n: "n = rounds (i + 1) (tb_iterations bm)"
    using Suc.hyps(2) rounds_step(1) [OF le assms(2)] by simp
  obtain res a1 w1 where written: "c_write I data (a, w) = Inr (res, a1, w1)"
    using send_law [OF Suc.prems(1), of data] by (cases "c_write I data (a, w)") (auto simp: channel_send_def)
  from write_step [OF Suc.prems(1) written] obtain new1
    where new1: "carries (a1, b, w1) (ms @ new1)" "length new1 \<le> (if res then 1 else 0)"
      "list_all (\<lambda>m. snd m = data) new1"
    by blast
  show ?case
  proof (cases res)
    case False
    with Suc.prems(2) le written have "a' = a1" "w' = w1"
      by (subst (asm) throughput_client_loop.simps; simp)+
    with new1 False show ?thesis by (intro exI [of _ new1]) simp
  next
    case True
    with Suc.prems(2) le written
    have "throughput_client_loop I data (i + 1) bm (a1, w1) = Some (Inr (ok, a', w'))"
      by (subst (asm) throughput_client_loop.simps) simp
    from Suc.hyps(1) [OF n new1(1) this] obtain new2
      where "carries (a', b, w') ((ms @ new1) @ new2)" "length new2 \<le> rounds (i + 1) (tb_iterations bm)"
        "list_all (\<lambda>m. snd m = data) new2"
      by blast
    with new1(2,3) True Suc.hyps(2) n show ?thesis
      by (intro exI [of _ "new1 @ new2"]) simp
  qed
qed

end

context benched_pair
begin

lemma write_step_exact:
  assumes "carries (a, b, w) ms" and "c_write I obj (a, w) = Inr (ok, a', w')"
  shows "\<exists>new. carries (a', b, w') (ms @ new) \<and> map snd new = (if ok then [obj] else [])"
proof -
  have sent: "channel_send I obj (a, b, w) = Inr (ok, a', b, w')"
    using assms(2) by (simp add: channel_send_def)
  show ?thesis
  proof (cases ok)
    case True
    with reliable_law [OF assms(1), of obj "(a', b, w')"] sent obtain h
      where "carries (a', b, w') (ms @ [(h, obj)])"
      by auto
    with True show ?thesis by (intro exI [of _ "[(h, obj)]"]) simp
  next
    case False
    with send_failed [OF assms(1), of obj "(a', b, w')"] sent show ?thesis
      by (intro exI [of _ "[]"]) simp
  qed
qed

text \<open>A successful latency client leaves exactly one empty message for each round.\<close>

lemma latency_client_sends:
  assumes "carries (a, b, w) ms" and "lb_iterations bm \<noteq> - 1"
    and "latency_client_loop B I i bm (a, w) = Some (Inr (True, a', w'))"
  shows "\<exists>new. carries (a', b, w') (ms @ new) \<and>
    map snd new = replicate (rounds i (lb_iterations bm)) Ping"
  using assms(1,3)
proof (induction "rounds i (lb_iterations bm)" arbitrary: i a w ms)
  case 0
  then have "\<not> i \<le> lb_iterations bm"
    using rounds_step(1) [OF _ assms(2)] by fastforce
  with 0 show ?case
    by (subst (asm) latency_client_loop.simps) (auto intro: exI [of _ "[]"])
next
  case (Suc n)
  then have le: "i \<le> lb_iterations bm"
    using rounds_end by fastforce
  have n: "n = rounds (i + 1) (lb_iterations bm)"
    using Suc.hyps(2) rounds_step(1) [OF le assms(2)] by simp
  obtain res a1 w1 where written: "c_write I Ping (a, w) = Inr (res, a1, w1)"
    using send_law [OF Suc.prems(1), of Ping] by (cases "c_write I Ping (a, w)") (auto simp: channel_send_def)
  let ?w2 = "os_sleep_for B (lb_delay bm) w1"
  from Suc.prems(2) le written
  have res: "res" and rest: "latency_client_loop B I (i + 1) bm (a1, ?w2) = Some (Inr (True, a', w'))"
    by (subst (asm) latency_client_loop.simps; simp split: if_splits)+
  from write_step_exact [OF Suc.prems(1) written] res obtain new1
    where new1: "carries (a1, b, w1) (ms @ new1)" "map snd new1 = [Ping]"
    by auto
  from Suc.hyps(1) [OF n sleep_carried [OF new1(1)] rest] obtain new2
    where "carries (a', b, w') ((ms @ new1) @ new2)"
      "map snd new2 = replicate (rounds (i + 1) (lb_iterations bm)) Ping"
    by blast
  with new1(2) rounds_step(1) [OF le assms(2)] show ?case
    by (intro exI [of _ "new1 @ new2"]) simp
qed

end

text \<open>Consecutive numbers arrive without a gap.\<close>

lemma arrives_consecutive:
  assumes "map ident ms = [Suc i..<Suc n]" and "i < n"
  shows "arrives i n ms \<and> gaps i ms = {}"
  using assms
proof (induction ms arbitrary: i)
  case (Cons m ms)
  then have m: "ident m = Suc i" and rest: "map ident ms = [Suc (Suc i)..<Suc n]"
    by (simp_all add: upt_conv_Cons del: upt_Suc)
  show ?case
  proof (cases "Suc i < n")
    case True
    have "arrives (Suc i) n ms" and "gaps (Suc i) ms = {}"
      using Cons.IH [OF rest True] by simp_all
    moreover have "ms \<noteq> []"
      using arg_cong [OF rest, of length] True by (auto simp del: upt_Suc)
    moreover have "{i<..ident (last ms)} \<subseteq> insert (Suc i) {Suc i<..ident (last ms)}"
      by auto
    ultimately show ?thesis
      using m True by (auto simp: arrives_Cons gaps_def)
  next
    case False
    with Cons.prems(2) rest have "ms = []" and "n = Suc i" by auto
    with m show ?thesis by (auto simp: gaps_def)
  qed
qed simp

context benched_pair
begin

lemma write_step_numbered:
  assumes "carries (a, b, w) ms" and "c_write I obj (a, w) = Inr (True, a', w')"
  shows "\<exists>h. carries (a', b, w') (ms @ [(h, obj)]) \<and> h_id h = seq (a, b, w) + 1 \<and>
    seq (a', b, w') = seq (a, b, w) + 1"
proof -
  have sent: "channel_send I obj (a, b, w) = Inr (True, a', b, w')"
    using assms(2) by (simp add: channel_send_def)
  from assms(1) show ?thesis
    by (cases rule: reliable_cases [where obj = obj]) (auto simp: sent)
qed

text \<open>A successful client of the execution time benchmark leaves one object for each round.\<close>

lemma execution_client_sends:
  assumes "carries (a, b, w) ms" and "eb_iterations bm \<noteq> - 1"
    and "execution_client_loop B I data i bm (a, w) = Some (Inr (True, bm', a', w'))"
  shows "\<exists>new. carries (a', b, w') (ms @ new) \<and>
    map snd new = replicate (rounds i (eb_iterations bm)) data"
  using assms
proof (induction "rounds i (eb_iterations bm)" arbitrary: i a w ms bm)
  case 0
  then have "\<not> i \<le> eb_iterations bm"
    using rounds_step(1) [OF _ 0(3)] by fastforce
  with 0 show ?case
    by (subst (asm) execution_client_loop.simps) (auto intro: exI [of _ "[]"])
next
  case (Suc n)
  then have le: "i \<le> eb_iterations bm"
    using rounds_end by fastforce
  note r = rounds_step(1) [OF le Suc.prems(2)]
  obtain before w1 where c1: "get_timestamp B w = (before, w1)" by fastforce
  have start: "carries (a, b, w1) ms"
    using Suc.prems(1) c1 by (auto simp: get_timestamp_def dest: clock_carried)
  obtain res a2 w2 where written: "c_write I data (a, w1) = Inr (res, a2, w2)"
    using send_law [OF start, of data] by (cases "c_write I data (a, w1)") (auto simp: channel_send_def)
  obtain after w3 where c2: "get_timestamp B w2 = (after, w3)" by fastforce
  let ?b = "bm\<lparr>eb_times := eb_times bm @ [ucast (after - before)]\<rparr>"
  let ?w4 = "os_sleep_for B (eb_delay bm) w3"
  have "execution_client_loop B I data i bm (a, w) =
      (if res then execution_client_loop B I data (i + 1) ?b (a2, ?w4) else Some (Inr (False, ?b, a2, w3)))"
    using le c1 written c2 by (subst execution_client_loop.simps) simp
  with Suc.prems(3) have res: "res"
    and rest: "execution_client_loop B I data (i + 1) ?b (a2, ?w4) = Some (Inr (True, bm', a', w'))"
    by (simp_all split: if_splits)
  from write_step_numbered [OF start, of data a2 w2] written res obtain h
    where "carries (a2, b, w2) (ms @ [(h, data)])"
    by auto
  then have "carries (a2, b, ?w4) (ms @ [(h, data)])"
    using c2 by (auto simp: get_timestamp_def intro: sleep_carried dest: clock_carried)
  moreover have "n = rounds (i + 1) (eb_iterations ?b)" and "eb_iterations ?b \<noteq> - 1"
    using Suc.hyps(2) Suc.prems(2) r by simp_all
  ultimately obtain new where "carries (a', b, w') ((ms @ [(h, data)]) @ new)"
      "map snd new = replicate (rounds (i + 1) (eb_iterations ?b)) data"
    using Suc.hyps(1) rest by blast
  with r show ?case
    by (intro exI [of _ "(h, data) # new"]) simp
qed

text \<open>
  A successful client of the real world benchmark leaves the recorded symbols, in order, under
  consecutive numbers.
\<close>

lemma realworld_client_sends:
  assumes "carries (a, b, w) ms" and "unat i + n = length (rb_data bm)" and "length (rb_data bm) < 2 ^ 32"
    and "realworld_client_loop B I delta threshold i bm (a, w) = Some (Inr (True, bm', a', w'))"
  shows "\<exists>new. carries (a', b, w') (ms @ new) \<and>
    map snd new = map (JavaSymbol \<circ> dp_symbol) (drop (unat i) (rb_data bm)) \<and>
    map (h_id \<circ> fst) new = map (\<lambda>k. seq (a, b, w) + 1 + of_nat k) [0..<n]"
  using assms
proof (induction n arbitrary: i a w ms bm)
  case 0
  then show ?case
    by (subst (asm) realworld_client_loop.simps) (auto intro!: exI [of _ "[]"])
next
  case (Suc n)
  then have less: "unat i < length (rb_data bm)" by simp
  then have "unat i + 1 < 2 ^ 32"
    using Suc.prems by linarith
  then have next_i: "unat (i + 1) = unat i + 1"
    by (simp add: unat_word_ariths)
  obtain ts w1 where clock: "get_timestamp B w = (ts, w1)" by fastforce
  define point where "point = rb_data bm ! unat i"
  define late where "late = (sint (dp_time point + delta) < sint (ts - ucast threshold))"
  define b2 where "b2 = (if late then bm\<lparr>rb_misses := rb_misses bm + 1\<rparr> else bm)"
  define w2 where "w2 = (if late then w1 else os_sleep_until B (dp_time point + delta) w1)"
  have branch: "(if late then (bm\<lparr>rb_misses := rb_misses bm + 1\<rparr>, w1)
      else (bm, os_sleep_until B (dp_time point + delta) w1)) = (b2, w2)"
    by (simp add: b2_def w2_def)
  have data: "rb_data b2 = rb_data bm"
    by (simp add: b2_def)
  have "carries (a, b, w1) ms"
    using Suc.prems(1) clock by (auto simp: get_timestamp_def dest: clock_carried)
  then have start: "carries (a, b, w2) ms"
    by (simp add: w2_def sleep_until_carried)
  obtain res a3 w3 where
    written: "c_write I (JavaSymbol (dp_symbol point)) (a, w2) = Inr (res, a3, w3)"
    using send_law [OF start, of "JavaSymbol (dp_symbol point)"]
    by (cases "c_write I (JavaSymbol (dp_symbol point)) (a, w2)") (auto simp: channel_send_def)
  have "realworld_client_loop B I delta threshold i bm (a, w) =
      (if res then realworld_client_loop B I delta threshold (i + 1) b2 (a3, w3)
       else Some (Inr (False, b2, a3, w3)))"
    by (subst realworld_client_loop.simps)
      (simp add: less clock branch written Let_def flip: point_def late_def)
  with Suc.prems(4) have res: "res"
    and rest: "realworld_client_loop B I delta threshold (i + 1) b2 (a3, w3) = Some (Inr (True, bm', a', w'))"
    by (simp_all split: if_splits)
  from write_step_numbered [OF start, of "JavaSymbol (dp_symbol point)" a3 w3] written res obtain h
    where h: "carries (a3, b, w3) (ms @ [(h, JavaSymbol (dp_symbol point))])"
      "h_id h = seq (a, b, w2) + 1" "seq (a3, b, w3) = seq (a, b, w2) + 1"
    by auto
  have "unat (i + 1) + n = length (rb_data b2)" and "length (rb_data b2) < 2 ^ 32"
    using Suc.prems(2,3) data next_i by simp_all
  from Suc.IH [OF h(1) this rest] obtain new
    where new: "carries (a', b, w') ((ms @ [(h, JavaSymbol (dp_symbol point))]) @ new)"
      "map snd new = map (JavaSymbol \<circ> dp_symbol) (drop (unat (i + 1)) (rb_data bm))"
      "map (h_id \<circ> fst) new = map (\<lambda>k. seq (a3, b, w3) + 1 + of_nat k) [0..<n]"
    unfolding data by blast
  have "drop (unat i) (rb_data bm) = point # drop (unat (i + 1)) (rb_data bm)"
    using less next_i by (simp add: point_def Cons_nth_drop_Suc)
  moreover have "[0..<Suc n] = 0 # map Suc [0..<n]"
    by (simp add: map_Suc_upt upt_conv_Cons del: upt_Suc)
  ultimately show ?case
    using new h(2,3) writer_seq [of a b w b w2]
    by (intro exI [of _ "(h, JavaSymbol (dp_symbol point)) # new"]) (simp add: comp_def algebra_simps del: upt_Suc)
qed

end

section \<open>The server after the client\<close>

context benched_pair
begin

lemma latency_session_completes:
  assumes "carries (a, b, w) []" and "invar (a, w)" and "invar (b, w)" and "iterations \<noteq> - 1"
  shows "\<exists>ok a' w'. latency_run_client B I (latency_new iterations pause False) (a, w) =
      Some (Inr (ok, a', w')) \<and>
    (ok \<longrightarrow> (\<exists>bm b' w''. latency_run_server B I (latency_new iterations pause True) (b, w') =
        Some (Inr (True, bm, b', w'')) \<and>
      length (lb_latencies bm) = unat iterations \<and> carries (a', b', w'') []))"
proof -
  let ?c = "latency_new iterations pause False" and ?s = "latency_new iterations pause True"
  have n: "lb_iterations ?c = iterations" "lb_iterations ?s = iterations" "lb_latencies ?s = []"
    by (simp_all add: latency_new_def)
  have limit: "lb_iterations ?c \<noteq> - 1" "lb_iterations ?s \<noteq> - 1"
    using assms(4) by (simp_all add: n)
  from latency_client_returns [OF assms(2) limit(1), of B] obtain ok a' w'
    where client: "latency_run_client B I ?c (a, w) = Some (Inr (ok, a', w'))"
    by auto
  have "\<exists>bm b' w''. latency_run_server B I ?s (b, w') = Some (Inr (True, bm, b', w'')) \<and>
      length (lb_latencies bm) = unat iterations \<and> carries (a', b', w'') []" if ok
  proof -
    from client that have "latency_client_loop B I 1 ?c (a, w) = Some (Inr (True, a', w'))"
      by (simp add: latency_run_client_def)
    from latency_client_sends [OF assms(1) limit(1) this] obtain new
      where new: "carries (a', b, w') new" "map snd new = replicate (unat iterations) Ping"
      unfolding n rounds_start append_Nil by blast
    from arg_cong [OF new(2), of length] have len: "length new = unat iterations" by simp
    have "carries (a', b, w') new \<and> invar (b, w')"
      using new(1) invar_world [OF assms(3)] by blast
    then show ?thesis
      using source.latency_server_completes [of a' "(b, w')" new ?s] limit(2) len
      by (auto simp: n)
  qed
  with client show ?thesis by blast
qed

end

context benched_channel
begin

lemma throughput_session_counts:
  assumes "carries (a, b, w) []" and "invar (a, w)" and "invar (b, w)"
    and "iterations \<noteq> - 1" and "4 \<le> body_size"
  shows "\<exists>ok a' w' ms. throughput_run_client B I (throughput_new iterations body_size False) (a, w) =
      Some (Inr (ok, a', w')) \<and> carries (a', b, w') ms \<and> length ms \<le> unat iterations \<and>
    list_all (\<lambda>m. length (object_bytes (snd m)) = unat body_size) ms \<and>
    (ok \<and> 0 < iterations \<longrightarrow> unat body_size \<le> capacity) \<and>
    (ms \<noteq> [] \<longrightarrow> (\<exists>k bm b' w''. throughput_run_server B I (throughput_new iterations body_size True) (b, w') =
        Some (Inr (True, bm, b', w'')) \<and> 0 < k \<and> k \<le> length ms \<and> carries (a', b', w'') (drop k ms) \<and>
      unat (tb_received bm) = k \<and> unat (tb_iterations bm - tb_received bm) = unat iterations - k \<and>
      ((\<forall>s v m rest. carries (a', s, v) (m # rest) \<longrightarrow> fst (c_await_data I (s, v))) \<longrightarrow> k = length ms)))"
proof -
  let ?c = "throughput_new iterations body_size False" and ?s = "throughput_new iterations body_size True"
  have n: "tb_iterations ?c = iterations" "tb_iterations ?s = iterations" "tb_received ?s = 0" "tb_size ?c = body_size"
    by (simp_all add: throughput_new_def)
  have limit: "tb_iterations ?c \<noteq> - 1"
    using assms(4) by (simp add: n)
  from throughput_client_returns [OF assms(2), of ?c B] assms(5) limit obtain bs w1 ok a' w'
    where data: "dummy_data B (payload_amount body_size) 0 [] w = Some (bs, w1)"
      and size: "length (object_bytes (BinaryData \<lparr>bd_data = bs\<rparr>)) = unat body_size"
      and client: "throughput_run_client B I ?c (a, w) = Some (Inr (ok, a', w'))"
      and room: "ok \<and> 0 < iterations \<longrightarrow> unat body_size \<le> capacity"
    by (auto simp: n)
  have "throughput_client_loop I (BinaryData \<lparr>bd_data = bs\<rparr>) 1 ?c (a, w1) = Some (Inr (ok, a', w'))"
    using client data by (simp add: throughput_run_client_def n)
  from throughput_client_sends [OF dummy_data_carries [OF data assms(1)] limit this] obtain ms
    where ms: "carries (a', b, w') ms" "length ms \<le> unat iterations"
      "list_all (\<lambda>m. snd m = BinaryData \<lparr>bd_data = bs\<rparr>) ms"
    unfolding n rounds_start append_Nil by blast
  from ms(3) size have sizes: "list_all (\<lambda>m. length (object_bytes (snd m)) = unat body_size) ms"
    by (auto simp: list_all_iff)
  have "carries (a', b, w') ms \<and> invar (b, w')"
    using ms(1) invar_world [OF assms(3)] by blast
  then have server: "\<exists>k bm b' w''. throughput_run_server B I ?s (b, w') = Some (Inr (True, bm, b', w'')) \<and>
      0 < k \<and> k \<le> length ms \<and> carries (a', b', w'') (drop k ms) \<and>
      unat (tb_received bm) = k \<and> unat (tb_iterations bm - tb_received bm) = unat iterations - k \<and>
      ((\<forall>s v m rest. carries (a', s, v) (m # rest) \<longrightarrow> fst (c_await_data I (s, v))) \<longrightarrow> k = length ms)"
    if "ms \<noteq> []"
  proof -
    have all: "prompt I (\<lambda>(s, w) ms. carries (a', s, w) ms \<and> invar (s, w))"
      if "\<forall>s v m rest. carries (a', s, v) (m # rest) \<longrightarrow> fst (c_await_data I (s, v))"
      using that by (auto simp: prompt_def)
    from source.throughput_server_counts_arrivals [of a' "(b, w')" ms ?s] ms(2) n that
      \<open>carries (a', b, w') ms \<and> invar (b, w')\<close>
    obtain k bm h' where
      run: "throughput_run_server B I ?s (b, w') = Some (Inr (True, bm, h'))"
      and k: "0 < k" "k \<le> length ms" "unat (tb_received bm) = k"
        "unat (tb_iterations bm - tb_received bm) = unat iterations - k"
      and exact: "prompt I (\<lambda>(s, w) ms. carries (a', s, w) ms \<and> invar (s, w)) \<longrightarrow> k = length ms"
      and rest: "carries (a', h') (drop k ms)"
      by (auto simp: n)
    obtain b' w'' where "h' = (b', w'')" by (cases h')
    with run k rest all exact show ?thesis
      by (intro exI [of _ k] exI [of _ bm] exI [of _ b'] exI [of _ w'']) blast
  qed
  with client ms(1,2) sizes room show ?thesis by blast
qed

end

context benched_pair
begin

text \<open>The two sessions on a transport that loses nothing.\<close>

lemma execution_session_completes:
  assumes "carries (a, b, w) []" and "invar (a, w)" and "invar (b, w)"
    and "iterations \<noteq> - 1" and "4 \<le> body_size"
  shows "\<exists>ok bm a' w'. execution_run_client B I (execution_new iterations body_size pause False) (a, w) =
      Some (Inr (ok, bm, a', w')) \<and> length (eb_times bm) \<le> unat iterations \<and>
    (ok \<longrightarrow> length (eb_times bm) = unat iterations \<and>
      (\<exists>bm' b' w''. execution_run_server B I (execution_new iterations body_size pause True) (b, w') =
          Some (Inr (True, bm', b', w'')) \<and>
        length (eb_times bm') = unat iterations \<and> carries (a', b', w'') []))"
proof -
  let ?c = "execution_new iterations body_size pause False"
  let ?s = "execution_new iterations body_size pause True"
  have n: "eb_iterations ?c = iterations" "eb_iterations ?s = iterations" "eb_size ?c = body_size"
      "eb_times ?c = []" "eb_times ?s = []"
    by (simp_all add: execution_new_def)
  have limit: "eb_iterations ?c \<noteq> - 1" "eb_iterations ?s \<noteq> - 1"
    using assms(4) by (simp_all add: n)
  have amount: "unat (0 :: u32) + (unat body_size - 4) = unat (payload_amount body_size)"
    and small: "unat (payload_amount body_size) < 2 ^ 32"
    using payload_amount_enough [OF assms(5)] unat_u32_less [of body_size] by simp_all
  from dummy_data_length [OF amount small, of B "[]" w] obtain bs w1
    where data: "dummy_data B (payload_amount body_size) 0 [] w = Some (bs, w1)"
    by auto
  let ?data = "BinaryData \<lparr>bd_data = bs\<rparr>"
  from execution_client_loop_returns [OF invar_world [OF assms(2), of w1] limit(1), of B ?data 1]
  obtain ok bm a' w' where loop: "execution_client_loop B I ?data 1 ?c (a, w1) = Some (Inr (ok, bm, a', w'))"
    and times: "length (eb_times bm) \<le> unat iterations" "ok \<longrightarrow> unat iterations \<le> length (eb_times bm)"
    unfolding n rounds_start by (fastforce split: if_splits)
  have client: "execution_run_client B I ?c (a, w) = Some (Inr (ok, bm, a', w'))"
    using data loop by (simp add: execution_run_client_def n)
  have "\<exists>bm' b' w''. execution_run_server B I ?s (b, w') = Some (Inr (True, bm', b', w'')) \<and>
      length (eb_times bm') = unat iterations \<and> carries (a', b', w'') []" if ok
  proof -
    from loop that have "execution_client_loop B I ?data 1 ?c (a, w1) = Some (Inr (True, bm, a', w'))"
      by simp
    from execution_client_sends [OF dummy_data_carries [OF data assms(1)] limit(1) this] obtain new
      where new: "carries (a', b, w') new" "map snd new = replicate (unat iterations) ?data"
      unfolding n rounds_start append_Nil by blast
    from arg_cong [OF new(2), of length] have len: "length new = unat iterations" by simp
    have "carries (a', b, w') new \<and> invar (b, w')"
      using new(1) invar_world [OF assms(3)] by blast
    then show ?thesis
      using source.execution_server_loop_completes [of a' "(b, w')" new 1 ?s False] limit(2) len
      by (auto simp: n rounds_start execution_run_server_def)
  qed
  with client times show ?thesis by fastforce
qed

lemma realworld_session_completes:
  assumes "carries (a, b, w) []" and "invar (a, w)" and "invar (b, w)" and "seq (a, b, w) = 0"
    and "points \<noteq> []" and "length points < 2 ^ 32"
  shows "\<exists>ok bm a' w' k. realworld_run_client B I (realworld_new points threshold False) (a, w) =
      Some (Inr (ok, bm, a', w')) \<and> rb_misses bm = of_nat k \<and> k \<le> length points \<and>
    (ok \<longrightarrow> (\<exists>bm' b' w''. realworld_run_server I (realworld_new points threshold True) (b, w') =
        Some (Inr (True, bm', b', w'')) \<and> rb_misses bm' = 0 \<and> carries (a', b', w'') []))"
proof -
  let ?c = "realworld_new points threshold False" and ?s = "realworld_new points threshold True"
  have n: "rb_data ?c = points" "rb_data ?s = points" "rb_misses ?c = 0" "rb_misses ?s = 0"
    by (simp_all add: realworld_new_def)
  obtain ts w1 where clock: "get_timestamp B w = (ts, w1)" by fastforce
  define delta where "delta = ts - dp_time (hd points) + 1000000000"
  have small: "unat (0 :: u32) + length points = length (rb_data ?c)" "length (rb_data ?c) < 2 ^ 32"
    using assms(6) by (simp_all add: n)
  from realworld_client_loop_returns [OF invar_world [OF assms(2), of w1] small, of B delta
      "rb_threshold ?c * 1000"]
  obtain ok bm a' w' k where
    loop: "realworld_client_loop B I delta (rb_threshold ?c * 1000) 0 ?c (a, w1) = Some (Inr (ok, bm, a', w'))"
    and misses: "rb_misses bm = of_nat k" "k \<le> length points"
    by (auto simp: n)
  have client: "realworld_run_client B I ?c (a, w) = Some (Inr (ok, bm, a', w'))"
    using loop assms(5) by (simp add: realworld_run_client_def estimated_time_def n clock delta_def Let_def)
  have start: "carries (a, b, w1) []"
    using assms(1) clock by (auto simp: get_timestamp_def dest: clock_carried)
  have "\<exists>bm' b' w''. realworld_run_server I ?s (b, w') = Some (Inr (True, bm', b', w'')) \<and>
      rb_misses bm' = 0 \<and> carries (a', b', w'') []" if ok
  proof -
    from loop that
    have "realworld_client_loop B I delta (rb_threshold ?c * 1000) 0 ?c (a, w1) = Some (Inr (True, bm, a', w'))"
      by simp
    from realworld_client_sends [OF start small this] obtain new
      where new: "carries (a', b, w') new" 
        "map (h_id \<circ> fst) new = map (\<lambda>k. 1 + of_nat k) [0..<length points]"
      using writer_seq [of a b w1 b w] assms(4) by auto
    have "map ident new = map (\<lambda>k. unat (1 + of_nat k :: u32)) [0..<length points]"
      using arg_cong [OF new(2), of "map unat"] by (simp add: ident_def [abs_def] comp_def)
    also have "\<dots> = [Suc 0..<Suc (length points)]"
      using assms(6) by (simp add: map_Suc_upt [symmetric] unat_word_ariths unat_of_nat
          take_bit_nat_eq_self del: upt_Suc)
    finally have ids: "map ident new = [Suc 0..<Suc (length points)]" .
    have "carries (a', b, w') (new @ []) \<and> invar (b, w')"
      using new(1) invar_world [OF assms(3)] by simp
    then show ?thesis
      using source.realworld_server_loop_counts [of a' "(b, w')" new "[]" 0 ?s False]
        arrives_consecutive [OF ids] assms(5)
      by (auto simp: n realworld_run_server_def estimated_time_def)
  qed
  with client misses show ?thesis by blast
qed

end

section \<open>Properties\<close>

text \<open>C12. The latency benchmark end to end, on any transport that loses nothing, however late it delivers:
  with a client and a server at the ends of an empty transport, the client returns; if it is successful,
  the server then returns as well, successful, with exactly one latency for each iteration, and nothing
  is left in transit.\<close>

theorem latency_session:
  assumes "benched_pair I invar last_seq capacity carries seq effort B"
    and "carries (a, b, w) []" and "invar (a, w)" and "invar (b, w)" and "iterations \<noteq> - 1"
  shows "\<exists>ok a' w'. latency_run_client B I (latency_new iterations pause False) (a, w) =
      Some (Inr (ok, a', w')) \<and>
    (ok \<longrightarrow> (\<exists>bm b' w''. latency_run_server B I (latency_new iterations pause True) (b, w') =
        Some (Inr (True, bm, b', w'')) \<and>
      length (lb_latencies bm) = unat iterations \<and> carries (a', b', w'') []))"
  by (rule benched_pair.latency_session_completes [OF assms])

text \<open>The witness is a stream socket, whose kernel puts the server off by timeouts and interruptions.\<close>

definition stream_reader :: stream_socket where
  "stream_reader = (stream_new_inet '''' 8080 True)\<lparr>st_sfd := 5, st_cfd := 7\<rparr>"

definition stream_writer :: stream_socket where
  "stream_writer = (stream_new_inet ''127.0.0.1'' 8080 False)\<lparr>st_sfd := 6\<rparr>"

theorem latency_session_witness:
  "\<exists>ok a' w'. latency_run_client stream_bench (stream_iface stream_calls) (latency_new 3 1 False)
      (stream_writer, stream_boot) = Some (Inr (ok, a', w')) \<and>
    (ok \<longrightarrow> (\<exists>bm b' w''. latency_run_server stream_bench (stream_iface stream_calls) (latency_new 3 1 True)
        (stream_reader, w') = Some (Inr (True, bm, b', w'')) \<and>
      length (lb_latencies bm) = unat (3 :: u32) \<and> stream_carries 6 7 sk_flight (a', b', w'') []))"
  by (rule latency_session [OF polled_stream.bench.benched_pair_axioms])
    (simp_all add: stream_carries_def stream_inv_def stream_new_inet_def stream_boot_def
      stream_reader_def stream_writer_def)


text \<open>The witness is a datagram socket of the internet domain, which loses messages when it is full.\<close>

definition udp_reader :: dgram_socket where
  "udp_reader = (dgram_new_inet '''' 8080 True)\<lparr>dg_sfd := 5,
     dg_address := Sockaddr_In 0 (htons 8080)\<rparr>"

definition udp_writer :: dgram_socket where
  "udp_writer = (dgram_new_inet ''127.0.0.1'' 8080 False)\<lparr>dg_sfd := 6,
     dg_address := Sockaddr_In 0x0100007F (htons 8080)\<rparr>"


text \<open>C14. The execution time benchmark end to end, on any transport that loses nothing: the client returns
  with at most one time for each iteration; if it is successful it has exactly one for each, and the
  server then returns as well, successful, with exactly one for each, and nothing is left in transit.\<close>

theorem execution_session:
  assumes "benched_pair I invar last_seq capacity carries seq effort B"
    and "carries (a, b, w) []" and "invar (a, w)" and "invar (b, w)"
    and "iterations \<noteq> - 1" and "4 \<le> body_size"
  shows "\<exists>ok bm a' w'. execution_run_client B I (execution_new iterations body_size pause False) (a, w) =
      Some (Inr (ok, bm, a', w')) \<and> length (eb_times bm) \<le> unat iterations \<and>
    (ok \<longrightarrow> length (eb_times bm) = unat iterations \<and>
      (\<exists>bm' b' w''. execution_run_server B I (execution_new iterations body_size pause True) (b, w') =
          Some (Inr (True, bm', b', w'')) \<and>
        length (eb_times bm') = unat iterations \<and> carries (a', b', w'') []))"
  by (rule benched_pair.execution_session_completes [OF assms])

text \<open>
  The witness is D-Bus, where the server finds the signal that announced its own name to it in front
  of the client's messages, and three more signals between and behind them.
\<close>

definition bus_reader :: dbus where
  "bus_reader = (dbus_new bus_kernel_name True)\<lparr>db_con := Some 1\<rparr>"

definition bus_writer :: dbus where
  "bus_writer = (dbus_new bus_kernel_name False)\<lparr>db_con := Some 1\<rparr>"

definition bus_named :: bus_kernel where
  "bus_named = bus_boot\<lparr>bk_queue := [Other_Message]\<rparr>"

theorem execution_session_witness:
  "\<exists>ok bm a' w'. execution_run_client bus_bench (dbus_iface bus_calls) (execution_new 3 64 1 False)
      (bus_writer, bus_named) = Some (Inr (ok, bm, a', w')) \<and>
    length (eb_times bm) \<le> unat (3 :: u32) \<and>
    (ok \<longrightarrow> length (eb_times bm) = unat (3 :: u32) \<and>
      (\<exists>bm' b' w''. execution_run_server bus_bench (dbus_iface bus_calls) (execution_new 3 64 1 True)
          (bus_reader, w') = Some (Inr (True, bm', b', w'')) \<and>
        length (eb_times bm') = unat (3 :: u32) \<and>
        bus_carries {1} {1} bus_kernel_name bus_view (a', b', w'') []))"
  by (rule execution_session [OF polled_bus.bench.benched_pair_axioms])
    (simp_all add: bus_carries_def dbus_inv_def dbus_new_def bus_reader_def bus_writer_def bus_named_def
      bus_boot_def bus_view_def call_matches_def)

text \<open>C15. The real world benchmark end to end, on any transport that loses nothing and a handler that has
  not sent anything yet: for a recording that is not empty the client returns, having missed at most
  one deadline for each data point; if it is successful, the server with the same recording then
  returns as well, successful, with no message missed, and nothing is left in transit.\<close>

theorem realworld_session:
  assumes "benched_pair I invar last_seq capacity carries seq effort B"
    and "carries (a, b, w) []" and "invar (a, w)" and "invar (b, w)" and "seq (a, b, w) = 0"
    and "points \<noteq> []" and "length points < 2 ^ 32"
  shows "\<exists>ok bm a' w' k. realworld_run_client B I (realworld_new points threshold False) (a, w) =
      Some (Inr (ok, bm, a', w')) \<and> rb_misses bm = of_nat k \<and> k \<le> length points \<and>
    (ok \<longrightarrow> (\<exists>bm' b' w''. realworld_run_server I (realworld_new points threshold True) (b, w') =
        Some (Inr (True, bm', b', w'')) \<and> rb_misses bm' = 0 \<and> carries (a', b', w'') []))"
  by (rule benched_pair.realworld_session_completes [OF assms])

text \<open>The witness is a Unix datagram socket.\<close>

definition unix_reader :: dgram_socket where
  "unix_reader = (dgram_new_unix ''/tmp/ipc'' True)\<lparr>dg_sfd := 5, dg_address := Sockaddr_Un ''/tmp/ipc''\<rparr>"

definition unix_writer :: dgram_socket where
  "unix_writer = (dgram_new_unix ''/tmp/ipc'' False)\<lparr>dg_sfd := 6, dg_address := Sockaddr_Un ''/tmp/ipc''\<rparr>"

theorem realworld_session_witness:
  "\<exists>ok bm a' w' k. realworld_run_client dgram_bench (dgram_iface (dgram_calls True))
      (realworld_new five_points 5 False) (unix_writer, dgram_boot) = Some (Inr (ok, bm, a', w')) \<and>
    rb_misses bm = of_nat k \<and> k \<le> length five_points \<and>
    (ok \<longrightarrow> (\<exists>bm' b' w''. realworld_run_server (dgram_iface (dgram_calls True))
        (realworld_new five_points 5 True) (unix_reader, w') = Some (Inr (True, bm', b', w'')) \<and>
      rb_misses bm' = 0 \<and> dgram_carries 6 5 (dg_address unix_writer) dk_queue (a', b', w'') []))"
  by (rule realworld_session [OF polled_unix_dgram.pair.session.benched_pair_axioms])
    (simp_all add: dgram_carries_def dgram_inv_def dgram_address_matches_def dgram_new_unix_def
      dgram_pair_seq_def unix_reader_def unix_writer_def dgram_boot_def five_points_def)

end
