(* ===== verification/Normal_Session.thy ===== *)
theory Normal_Session
  imports Normal_Server Benchmark_Sessions
begin

text \<open>
  The normal mode end to end: a client that writes random symbols until its user stops it, then the
  server that prints what has arrived.
\<close>

section \<open>Pairs of handlers behind the interface\<close>

text \<open>A pair of objects of one class, seen as a pair of handlers.\<close>

definition lift_pair :: "('s \<Rightarrow> handler) \<Rightarrow> 's \<times> 's \<times> 'w \<Rightarrow> handler \<times> handler \<times> 'w" where
  "lift_pair C = (\<lambda>(a, s, w). (C a, C s, w))"

definition lift_carries ::
  "('s \<Rightarrow> handler) \<Rightarrow> ('s \<times> 's \<times> 'w \<Rightarrow> message list \<Rightarrow> bool) \<Rightarrow>
   handler \<times> handler \<times> 'w \<Rightarrow> message list \<Rightarrow> bool" where
  "lift_carries C carries = (\<lambda>c ms. \<exists>c'. c = lift_pair C c' \<and> carries c' ms)"

definition handler_pair_seq :: "handler \<times> handler \<times> 'w \<Rightarrow> u32" where
  "handler_pair_seq = (\<lambda>(h, h', w). handler_seq (h, w))"

lemma lift_carriesI: "carries c ms \<Longrightarrow> lift_carries C carries (lift_pair C c) ms"
  unfolding lift_carries_def by blast

lemma lifted_Inr:
  "map_sum id (map_prod id f) r = Inr (b, c) \<longleftrightarrow> (\<exists>c'. r = Inr (b, c') \<and> c = f c')"
  by (cases r) auto

lemma lifted_send:
  assumes emb: "embedded C I invar lseq (handler_iface K)"
  shows "channel_send (handler_iface K) obj (lift_pair C c) =
    map_sum id (map_prod id (lift_pair C)) (channel_send I obj c)"
proof -
  obtain a s w where c: "c = (a, s, w)" by (metis prod_cases3)
  have "handler_write K obj (C a, w) = via_res C (c_write I obj (a, w))"
    using emb unfolding embedded_def by simp
  then show ?thesis
    by (cases "c_write I obj (a, w)")
      (auto simp: c lift_pair_def channel_send_def via_res_def via_def)
qed

lemma embedded_channel:
  assumes channel: "benched_channel I invar lseq cap carries sq effort B"
    and emb: "embedded C I invar lseq (handler_iface K)"
    and C: "\<And>s s'. C s = C s' \<Longrightarrow> s = s'"
    and sq: "\<And>a s w. sq (a, s, w) = lseq (a, w)"
    and effort': "\<And>more_data c. effort' more_data (lift_pair C c) = effort more_data c"
  shows "benched_channel (handler_iface K) handler_inv handler_seq BUFFER_SIZE
    (lift_carries C carries) handler_pair_seq effort' B"
proof -
  have "handler_seq (C s, w) = lseq (s, w)" for s w
    using emb unfolding embedded_def by simp
  then have sq': "handler_pair_seq (lift_pair C c) = sq c" for c
    by (cases c) (simp add: handler_pair_seq_def lift_pair_def sq)
  note sender = benched_channel.axioms(2) [OF channel]
  have eqs: "handler_await_data K (C s, w) = via C (c_await_data I (s, w))"
     "handler_read K (C s, w) = map_option (via_res C) (c_read I (s, w))" for s w
    using emb unfolding embedded_def by simp_all
  have split: "lift_carries C carries (h, h', w) ms \<Longrightarrow>
      \<exists>a s. h = C a \<and> h' = C s \<and> carries (a, s, w) ms" for h h' w ms
    by (auto simp: lift_carries_def lift_pair_def)
  have join: "carries (a, s, w) ms \<Longrightarrow> lift_carries C carries (C a, C s, w) ms" for a s w ms
    using lift_carriesI [of carries "(a, s, w)" ms C] by (simp add: lift_pair_def)
  have effort3: "effort' more_data (C a, C s, w) = effort more_data (a, s, w)" for more_data a s w
    using effort' [of more_data "(a, s, w)"] by (simp add: lift_pair_def)
  show ?thesis
  proof (unfold_locales, goal_cases)
    case (1 c ms obj)
    then obtain c0 where c: "c = lift_pair C c0" "carries c0 ms"
      by (auto simp: lift_carries_def)
    from message_sender.send_law [OF sender c(2), of obj] obtain ok c' h where
      "channel_send I obj c0 = Inr (ok, c')" "ok \<longrightarrow> sq c' = sq c0 + 1 \<and> h_id h = sq c'"
      "carries c' ms \<or> ok \<and> carries c' (ms @ [(h, obj)])" by blast
    then show ?case
      by (intro exI [of _ ok] exI [of _ "lift_pair C c'"] exI [of _ h])
        (auto simp: c(1) lifted_send [OF emb] sq' intro: lift_carriesI)
  next
    case (2 a s w ms ts w' more_data)
    then show ?case
      using benched_channel.clock_carried [OF channel] by (fastforce dest!: split simp: effort3 intro: join)
  next
    case (3 a s w ms d)
    then show ?case
      using benched_channel.sleep_carried [OF channel] by (fastforce dest!: split intro: join)
  next
    case (4 a s w ms r w')
    then show ?case
      using benched_channel.rand_carried [OF channel] by (fastforce dest!: split intro: join)
  next
    case (5 a s w ms ts)
    then show ?case
      using benched_channel.sleep_until_carried [OF channel] by (fastforce dest!: split intro: join)
  next
    case (6 a s w s' w')
    show ?case by (simp add: handler_pair_seq_def handler_world(3) [of a w w'])
  next
    case (7 a s w m ms)
    from split [OF 7] obtain a0 s0 where h: "a = C a0" "s = C s0" "carries (a0, s0, w) (m # ms)" by blast
    from benched_channel.await_carried [OF channel h(3)] obtain ready s' w' where
      await: "c_await_data I (s0, w) = (ready, s', w')" and still: "carries (a0, s', w') (m # ms)"
      and progress: "if ready then effort True (a0, s', w') \<le> effort False (a0, s0, w)
        else effort False (a0, s', w') < effort False (a0, s0, w)" by blast
    from progress join [OF still] show ?case
      by (intro exI [of _ ready] exI [of _ "C s'"] exI [of _ w'])
        (simp add: h(1,2) eqs await via_def effort3)
  next
    case (8 a s w m ms)
    from split [OF 8] obtain a0 s0 where h: "a = C a0" "s = C s0" "carries (a0, s0, w) (m # ms)" by blast
    from benched_channel.read_carried [OF channel h(3)] show ?case
      by (fastforce simp: h(1,2) eqs via_res_def via_def effort3 dest: join)
  next
    case (9 a s w)
    from split [OF 9] obtain a0 s0 where h: "a = C a0" "s = C s0" "carries (a0, s0, w) []" by blast
    from benched_channel.await_none [OF channel h(3)] obtain ready s' w' where
      await: "c_await_data I (s0, w) = (ready, s', w')" and none: "carries (a0, s', w') []"
      and next_read: "if ready then \<exists>s'' w''. c_read I (s', w') = Some (Inr (Inl NO_DATA_AVAILABLE, s'', w'')) \<and>
         carries (a0, s'', w'') [] \<and> effort False (a0, s'', w'') < effort False (a0, s0, w)
       else effort False (a0, s', w') \<le> effort False (a0, s0, w)" by blast
    from next_read join [OF none] show ?case
      by (cases ready) (fastforce simp: h(1,2) eqs await via_def via_res_def effort3 dest: join)+
  next
    case (10 a s w)
    from split [OF 10] obtain a0 s0 where h: "a = C a0" "s = C s0" "carries (a0, s0, w) []" by blast
    from benched_channel.read_none [OF channel h(3)] show ?case
      by (auto simp: h(1,2) eqs via_res_def via_def dest: join)
  qed
qed

section \<open>A client and a server of the normal mode\<close>

text \<open>What the client writes, up to the random numbers.\<close>

definition random_symbol :: "u64 \<Rightarrow> u32 \<Rightarrow> data_object" where
  "random_symbol address len =
     JavaSymbol \<lparr>js_address = address, js_length = len, js_symbol = ''test123''\<rparr>"

definition is_random_symbol :: "data_object \<Rightarrow> bool" where
  "is_random_symbol obj = (case obj of JavaSymbol s \<Rightarrow> js_symbol s = ''test123'' | _ \<Rightarrow> False)"

lemma is_random_symbol [simp]: "is_random_symbol (random_symbol address len)"
  by (simp add: is_random_symbol_def random_symbol_def)

text \<open>
  The two programs with their users: the user of the client loses patience with the number of writes,
  and then sets the flag \<open>stop\<close>; the user of the server sets it when nothing is left.  Reading the flag
  takes no message away.
\<close>

locale normal_pair =
  benched_channel "handler_iface (co_program E)" handler_inv handler_seq BUFFER_SIZE carries seq effort
    "po_bench (co_program E)"
  for E :: "('w, 'm, 'i) command_os" and carries seq effort +
  fixes F :: "('w, 'm, 'i) command_os"
    and patience :: "'w \<Rightarrow> nat"
  assumes same_program: "co_program F = co_program E"
    and client_flag: "\<lbrakk>carries (a, b, w) ms; co_stop E w = (stop, w')\<rbrakk> \<Longrightarrow>
      carries (a, b, w') ms \<and> patience w' \<le> patience w \<and> (patience w = 0 \<longrightarrow> stop)"
    and server_flag: "\<lbrakk>carries (a, b, w) ms; co_stop F w = (stop, w')\<rbrakk> \<Longrightarrow>
      carries (a, b, w') ms \<and> effort more_data (a, b, w') \<le> effort more_data (a, b, w)"
    and patience_clock: "os_clock (po_bench (co_program E)) w = (ts, w') \<Longrightarrow> patience w' \<le> patience w"
    and patience_rand: "os_rand (po_bench (co_program E)) w = (r, w') \<Longrightarrow> patience w' \<le> patience w"
    and patience_sleep: "patience (os_sleep_for (po_bench (co_program E)) d w) \<le> patience w"
    and patience_write: "\<lbrakk>carries (a, b, w) ms; is_random_symbol obj;
      handler_write (co_program E) obj (a, w) = Inr (ok, a', w')\<rbrakk> \<Longrightarrow>
      patience w' < patience w \<or> patience w' = 0"
begin

lemma normal_client_sends:
  assumes "carries (a, b, w) ms" and "handler_inv (a, w)"
  shows "\<exists>a' w' new. run_client E (a, w) = Some (Inr (a', w')) \<and> carries (a', b, w') (ms @ new) \<and>
    list_all (\<lambda>m. is_random_symbol (snd m)) new"
  using assms
proof (induction "patience w" arbitrary: a w ms rule: less_induct)
  case less
  let ?B = "po_bench (co_program E)"
  obtain stop w1 where flag: "co_stop E w = (stop, w1)" by fastforce
  from client_flag [OF less.prems(1) flag]
  have w1: "carries (a, b, w1) ms" "patience w1 \<le> patience w" "patience w = 0 \<longrightarrow> stop" by simp_all
  show ?case
  proof (cases "stop \<or> \<not> handler_is_open (a, w1)")
    case True
    then have "run_client E (a, w) = Some (Inr (a, w1))"
      by (subst run_client.simps) (simp add: flag)
    with w1 show ?thesis
      by (intro exI [of _ a] exI [of _ w1] exI [of _ "[]"]) simp
  next
    case False
    obtain ts w2 where clock: "os_clock ?B w1 = (ts, w2)" by fastforce
    obtain r1 w3 where r1: "os_rand ?B w2 = (r1, w3)" by fastforce
    obtain r2 w4 where r2: "os_rand ?B w3 = (r2, w4)" by fastforce
    obtain r3 w5 where r3: "os_rand ?B w4 = (r3, w5)" by fastforce
    define obj where "obj = random_symbol (or (push_bit 32 (word_of_int r1)) (word_of_int r2)) (word_of_int r3)"
    have w5: "carries (a, b, w5) ms" "patience w5 \<le> patience w1"
      using clock_carried [OF w1(1) clock, THEN conjunct1, THEN rand_carried, OF r1, THEN rand_carried,
          OF r2, THEN rand_carried, OF r3]
        patience_clock [OF clock] patience_rand [OF r1] patience_rand [OF r2] patience_rand [OF r3]
      by simp_all
    have inv: "handler_inv (a, w5)"
      using less.prems(2) invar_world by blast
    from write_law [OF inv, of obj] obtain ok a1 w6 where
      written: "handler_write (co_program E) obj (a, w5) = Inr (ok, a1, w6)" and inv1: "handler_inv (a1, w6)"
      by auto
    obtain r4 w7 where r4: "os_rand ?B w6 = (r4, w7)" by fastforce
    define w8 where "w8 = os_sleep_for ?B (word_of_int (r4 mod 2)) w7"
    from write_step [OF w5(1), of obj ok a1 w6] written obtain new1 where
      new1: "carries (a1, b, w6) (ms @ new1)" "list_all (\<lambda>m. snd m = obj) new1" by auto
    have w8: "carries (a1, b, w8) (ms @ new1)"
      unfolding w8_def by (intro sleep_carried rand_carried [OF new1(1) r4])
    have "0 < patience w" and "patience w6 < patience w5 \<or> patience w6 = 0"
      using w1(3) False patience_write [OF w5(1) _ written] by (auto simp: obj_def)
    with w5(2) w1(2) patience_rand [OF r4] patience_sleep [of "word_of_int (r4 mod 2)" w7]
    have fewer: "patience w8 < patience w"
      by (auto simp: w8_def)
    have loop: "run_client E (a, w) = run_client E (a1, w8)"
      using False by (subst run_client.simps)
        (simp add: flag clock r1 r2 r3 r4 get_timestamp_def written [unfolded obj_def random_symbol_def] w8_def)
    from less.hyps [OF fewer w8] inv1 invar_world obtain a' w' new2 where
      "run_client E (a1, w8) = Some (Inr (a', w'))" "carries (a', b, w') ((ms @ new1) @ new2)"
      "list_all (\<lambda>m. is_random_symbol (snd m)) new2" by blast
    moreover have "list_all (\<lambda>m. is_random_symbol (snd m)) new1"
      using new1(2) by (auto simp: list_all_iff obj_def)
    ultimately show ?thesis
      by (intro exI [of _ a'] exI [of _ w'] exI [of _ "new1 @ new2"]) (simp add: loop)
  qed
qed

lemma server_reads: "server_source F (\<lambda>(s, w) ms. carries (a, s, w) ms \<and> handler_inv (s, w))
    (\<lambda>more_data (s, w). effort more_data (a, s, w)) (po_bench (co_program E))"
proof -
  have "message_source (handler_iface (co_program F)) handler_inv handler_seq BUFFER_SIZE
      (\<lambda>(s, w) ms. carries (a, s, w) ms \<and> handler_inv (s, w)) (\<lambda>more_data (s, w). effort more_data (a, s, w))
      (po_bench (co_program E))"
    unfolding same_program by (rule source.message_source_axioms)
  then show ?thesis
  proof (rule server_source.intro, intro server_source_axioms.intro, goal_cases)
    case (1 s w ms stop w' more_data)
    with server_flag [of a s w ms stop w' more_data] handler_world(1) [of s w w'] show ?case by simp
  qed
qed

lemma normal_session_completes:
  assumes "carries (a, b, w) []" and "handler_inv (a, w)" and "handler_inv (b, w)"
    and "handler_is_open (b, w)"
  shows "\<exists>a' w' ms. run_client E (a, w) = Some (Inr (a', w')) \<and> carries (a', b, w') ms \<and>
    list_all (\<lambda>m. is_random_symbol (snd m)) ms \<and>
    (\<forall>r. run_server F False [] (b, w') = Some r \<longrightarrow>
      (\<exists>k b' w''. r = Inr (map Inr (take k ms), b', w'') \<and> carries (a', b', w'') (drop k ms))) \<and>
    ((\<forall>s v rest. carries (a', s, v) rest \<longrightarrow> fst (co_stop F v) = (rest = [])) \<longrightarrow>
      (\<exists>b' w''. run_server F False [] (b, w') = Some (Inr (map Inr ms, b', w'')) \<and> carries (a', b', w'') []))"
proof -
  from normal_client_sends [OF assms(1,2)] obtain a' w' ms where
    client: "run_client E (a, w) = Some (Inr (a', w'))" "carries (a', b, w') ms"
    "list_all (\<lambda>m. is_random_symbol (snd m)) ms" by auto
  have b: "handler_inv (b, w')" "handler_is_open (b, w')"
    using assms(3,4) handler_world(1,2) [of b w w'] by simp_all
  have holds: "(\<lambda>(s, w) ms. carries (a', s, w) ms \<and> handler_inv (s, w)) (b, w') ms"
    using client(2) b by simp
  have "\<exists>k b' w''. r = Inr (map Inr (take k ms), b', w'') \<and> carries (a', b', w'') (drop k ms)"
    if "run_server F False [] (b, w') = Some r" for r
    using server_source.takes_messages [OF server_reads that holds] by auto
  moreover have "\<exists>b' w''. run_server F False [] (b, w') = Some (Inr (map Inr ms, b', w'')) \<and>
      carries (a', b', w'') []"
    if flag: "\<And>s v rest. carries (a', s, v) rest \<Longrightarrow> fst (co_stop F v) = (rest = [])"
  proof -
    have "\<exists>h'. run_server F False [] (b, w') = Some (Inr ([] @ map Inr ms, h')) \<and>
        (\<lambda>(s, w) ms. carries (a', s, w) ms \<and> handler_inv (s, w)) h' []"
      by (rule server_source.completes_messages [OF server_reads holds b(2)]) (use flag in auto)
    then show ?thesis by auto
  qed
  ultimately show ?thesis
    using client by (intro exI [of _ a'] exI [of _ w'] exI [of _ ms]) blast
qed

end

section \<open>A pipe between two processes\<close>

text \<open>The client's user stops it once a hundred bytes are in the pipe.\<close>

definition pipe_client ::
  "(pipe_kernel, 'm, 'i) command_os \<Rightarrow> (pipe_kernel, 'm, 'i) command_os" where
  "pipe_client E = (pipe_program E)\<lparr>co_stop := (\<lambda>k. (100 \<le> length (pk_pipe k), k))\<rparr>"

lemma pipe_client_simps [simp]:
  "co_program (pipe_client E) = co_program (pipe_program E)"
  "co_stop (pipe_client E) k = (100 \<le> length (pk_pipe k), k)"
  by (simp_all add: pipe_client_def)

lemma pipe_grows:
  assumes "fifo_carries 3 4 pk_pipe (s, r, k) ms" and "fifo_write pipe_calls obj (s, k) = Inr (ok, s', k')"
    and "is_random_symbol obj"
  shows "100 - length (pk_pipe k') < 100 - length (pk_pipe k) \<or> 100 \<le> length (pk_pipe k')"
proof -
  have fits: "length (object_bytes obj) \<le> 512"
    using assms(3) by (cases obj) (auto simp: is_random_symbol_def)
  from assms(1) have s: "length (fifo_buffer s) = 528" "fifo_fd s = 3"
    by (simp_all add: fifo_carries_def)
  let ?bytes = "message_bytes (fifo_last_id s + 1) (pk_time k) obj"
  obtain res k2 where sent: "os_write pipe_calls 3 ?bytes (k\<lparr>pk_time := pk_time k + 1\<rparr>) = (res, k2)"
    by fastforce
  have "os_clock pipe_calls k = (pk_time k, k\<lparr>pk_time := pk_time k + 1\<rparr>)"
    by (simp add: pipe_calls_def)
  from fifo_write_eq [OF s(1) _ this, of obj res k2] s(2) sent assms(2) fits have "k' = k2"
    by simp
  with sent fits show ?thesis
    by (auto simp: pipe_calls_def split: if_splits)
qed

lemma all_wire_Nil: "(\<forall>m \<in> set ms. wire m = []) \<longleftrightarrow> ms = []"
  using concat_wire_Nil [of ms] by simp

interpretation pipe_pair: normal_pair "pipe_client E" "lift_carries Fifo_Handler (fifo_carries 3 4 pk_pipe)"
  handler_pair_seq "\<lambda>_ _. 0" "pipe_program E" "\<lambda>k. 100 - length (pk_pipe k)"
  for E :: "(pipe_kernel, 'm, 'i) command_os"
proof -
  have "benched_channel (handler_iface (co_program (pipe_client E))) handler_inv handler_seq BUFFER_SIZE
      (lift_carries Fifo_Handler (fifo_carries 3 4 pk_pipe)) handler_pair_seq (\<lambda>_ _. 0)
      (po_bench (co_program (pipe_client E)))"
    unfolding pipe_client_simps pipe_program_simps
    by (rule embedded_channel [OF polled_pipe.bench.linked.benched_channel_axioms
          embeddings(2) [where K = "co_program (pipe_program E)", unfolded pipe_program_simps]])
      (auto simp: fifo_pair_seq_def fifo_seq_def)
  then show "normal_pair (pipe_client E) (lift_carries Fifo_Handler (fifo_carries 3 4 pk_pipe))
      handler_pair_seq (\<lambda>_ _. 0) (pipe_program E) (\<lambda>k. 100 - length (pk_pipe k))"
  proof (rule normal_pair.intro, intro normal_pair_axioms.intro, goal_cases)
    case (7 a b k ms obj ok a' k')
    from 7(2) obtain s r where h: "a = Fifo_Handler s" "fifo_carries 3 4 pk_pipe (s, r, k) ms"
      by (auto simp: lift_carries_def lift_pair_def)
    with 7(4) obtain s' where "fifo_write pipe_calls obj (s, k) = Inr (ok, s', k')"
      by (auto simp: handler_write_def via_res_eq)
    from pipe_grows [OF h(2) this 7(3)] show ?case by auto
  qed (auto simp: lift_carries_def lift_pair_def fifo_carries_def all_wire_Nil pipe_bench_def pipe_calls_def)
qed

lemma pipe_stops:
  assumes "lift_carries Fifo_Handler (fifo_carries 3 4 pk_pipe) (a, s, k) rest"
  shows "fst (co_stop (pipe_program E) k) = (rest = [])"
  using assms by (auto simp: lift_carries_def lift_pair_def fifo_carries_def all_wire_Nil)

section \<open>Properties\<close>



end
