(* ===== verification/Stream_Server.thy ===== *)
theory Stream_Server
  imports Normal_Server Stream_Channel "HOL-Library.Product_Lexorder"
begin

text \<open>
  The normal server on a stream socket, over a whole sequence of clients: each connects, writes and
  goes away, some of them in the middle of a message, and the server replaces the lost connection by
  the next one.  The locale \<open>stream_listener\<close> states what the operating system documents of the
  listening socket and the connections it accepts.
\<close>

section \<open>The laws of a listening socket\<close>

text \<open>
  \<open>peer\<close> is the descriptor of the accepted connection, \<open>flight\<close> the bytes that its client will have
  written before it closes its end, and \<open>backlog\<close> the same for the connections that are still to be
  accepted, in their order, whether they exist already or not.  Every call may put the server off:
  \<open>poll\<close> by a timeout or an interruption, \<open>accept\<close> by an aborted connection, \<open>recv\<close> by \<open>EAGAIN\<close>; \<open>stall\<close>
  bounds how often.  At the end of the bytes, \<open>recv\<close> reports that the client is gone.
\<close>

locale stream_listener =
  fixes K :: "'w sock_os"
    and sfd :: int
    and peer :: "'w \<Rightarrow> int option"
    and flight :: "'w \<Rightarrow> byte list"
    and backlog :: "'w \<Rightarrow> byte list list"
    and stall :: "'w \<Rightarrow> nat"
  assumes listening: "sfd \<noteq> - 1"
    and peer_open: "peer w = Some fd \<Longrightarrow> fd \<noteq> - 1"
    and poll_keeps: "os_poll K fds t w = (r, w') \<Longrightarrow>
      peer w' = peer w \<and> flight w' = flight w \<and> backlog w' = backlog w \<and> stall w' \<le> stall w"
    and poll_listener: "\<lbrakk>peer w = None; backlog w \<noteq> [];
      os_poll K [\<lparr>pfd_fd = sfd, pfd_events = [POLLIN]\<rparr>] t w = (r, w')\<rbrakk> \<Longrightarrow> 0 < r \<or> stall w' < stall w"
    and poll_peer: "\<lbrakk>peer w = Some fd;
      os_poll K [\<lparr>pfd_fd = fd, pfd_events = [POLLIN]\<rparr>] t w = (r, w')\<rbrakk> \<Longrightarrow> 0 < r \<or> stall w' < stall w"
    and accept_next: "\<lbrakk>peer w = None; os_accept4 K sfd w = (fd, w')\<rbrakk> \<Longrightarrow>
      fd = - 1 \<and> peer w' = None \<and> backlog w' = backlog w \<and> (backlog w = [] \<or> stall w' < stall w) \<or>
      fd \<noteq> - 1 \<and> peer w' = Some fd \<and> backlog w = flight w' # backlog w'"
    and close_peer: "peer w = Some fd \<Longrightarrow>
      peer (os_sock_close K fd w) = None \<and> backlog (os_sock_close K fd w) = backlog w"
    and recv_keeps: "os_recv K fd n w = (res, w') \<Longrightarrow> peer w' = peer w \<and> backlog w' = backlog w"
    and recv_bytes: "\<lbrakk>peer w = Some fd; flight w \<noteq> []; 0 < n\<rbrakk> \<Longrightarrow> \<exists>res w'. os_recv K fd n w = (res, w') \<and>
      (res = Failed EAGAIN \<and> flight w' = flight w \<and> stall w' < stall w \<or>
       (\<exists>k. res = Transferred (take k (flight w)) \<and> 0 < k \<and> k \<le> n \<and> k \<le> length (flight w) \<and>
            flight w' = drop k (flight w)))"
    and recv_end: "\<lbrakk>peer w = Some fd; flight w = []; 0 < n\<rbrakk> \<Longrightarrow> \<exists>res w'. os_recv K fd n w = (res, w') \<and>
      flight w' = [] \<and> (res = Transferred [] \<or> res = Failed EAGAIN \<and> stall w' < stall w)"

text \<open>
  A client: the messages it sent completely, and the part of a further one that it was sending when
  it went away.  \<open>cut_short\<close> holds of the bytes that end within a header, or within the body that the
  header announces.
\<close>

type_synonym stream_client = "message list \<times> byte list"

definition cut_short :: "byte list \<Rightarrow> bool" where
  "cut_short bs \<longleftrightarrow> length bs < sizeof_header \<or>
     (let n = unat (h_body_size (header_of_bytes bs))
      in length bs < sizeof_header + n \<and> n \<le> BUFFER_SIZE)"

definition client_bytes :: "stream_client \<Rightarrow> byte list" where
  "client_bytes c = concat (map wire (fst c)) @ snd c"

definition sound_client :: "stream_client \<Rightarrow> bool" where
  "sound_client c \<longleftrightarrow> list_all sound_message (fst c) \<and> cut_short (snd c)"

text \<open>What the server prints for a client: its complete messages, then that the connection is closed.\<close>

definition client_log :: "stream_client \<Rightarrow> read_result list" where
  "client_log c = map Inr (fst c) @ [Inl CONNECTION_CLOSED]"

definition clients_log :: "stream_client list \<Rightarrow> read_result list" where
  "clients_log cs = concat (map client_log cs)"

lemma clients_log_empty:
  "clients_log [] = []" "clients_log cs = [] \<longleftrightarrow> cs = []" "[] = clients_log cs \<longleftrightarrow> cs = []"
  by (cases cs; simp add: clients_log_def client_log_def)+

context stream_listener
begin

definition arriving :: "int \<Rightarrow> 'w \<Rightarrow> byte list" where
  "arriving fd w = (if peer w = Some fd then flight w else [])"

lemma receiver: "fd \<noteq> - 1 \<Longrightarrow> stream_receiver K fd (arriving fd) stall"
proof (unfold_locales, goal_cases)
  case (2 w n)
  then have "peer w = Some fd" "flight w \<noteq> []"
    by (auto simp: arriving_def split: if_splits)
  from recv_bytes [OF this \<open>0 < n\<close>] obtain res w' where recv: "os_recv K fd n w = (res, w')"
    and res: "res = Failed EAGAIN \<and> flight w' = flight w \<and> stall w' < stall w \<or>
      (\<exists>k. res = Transferred (take k (flight w)) \<and> 0 < k \<and> k \<le> n \<and> k \<le> length (flight w) \<and>
        flight w' = drop k (flight w))" by blast
  have "arriving fd w = flight w" "arriving fd w' = flight w'"
    using \<open>peer w = Some fd\<close> recv_keeps [OF recv] by (simp_all add: arriving_def)
  with recv res show ?case by simp
qed simp

section \<open>A connection that is cut\<close>

lemmas progress = wf_induct_rule [OF wf_lex_prod [OF wf_less_than wf_less_than], case_names step]

lemma recv_body_cut:
  assumes "peer w = Some fd" and "amount + length (flight w) < wanted" and "wanted \<le> 528"
    and "length buf = 528"
  shows "\<exists>buf' w'. recv_body K fd wanted amount buf w = Some (Inr (Some CONNECTION_CLOSED, buf', w')) \<and>
    flight w' = []"
  using assms
proof (induction "(length (flight w), stall w)" arbitrary: amount buf w rule: progress)
  case step
  then have more: "amount < wanted" "0 < wanted - amount" by simp_all
  show ?case
  proof (cases "flight w = []")
    case True
    from recv_end [OF step.prems(1) True more(2)] obtain res w1 where
      recv: "os_recv K fd (wanted - amount) w = (res, w1)" and w1: "flight w1 = []"
      and res: "res = Transferred [] \<or> res = Failed EAGAIN \<and> stall w1 < stall w" by blast
    from res show ?thesis
    proof (elim disjE conjE)
      assume "res = Transferred []"
      with more w1 step.prems show ?thesis
        by (subst recv_body.simps) (simp add: recv mem_store_ok)
    next
      assume "res = Failed EAGAIN" and "stall w1 < stall w"
      then have "((length (flight w1), stall w1), length (flight w), stall w) \<in> less_than <*lex*> less_than"
        by (simp add: w1 True)
      from step.hyps [OF this, of amount buf] step.prems recv_keeps [OF recv] w1 more show ?thesis
        by (subst recv_body.simps) (simp add: recv \<open>res = Failed EAGAIN\<close>)
    qed
  next
    case False
    from recv_bytes [OF step.prems(1) False more(2)] obtain res w1 where
      recv: "os_recv K fd (wanted - amount) w = (res, w1)"
      and res: "res = Failed EAGAIN \<and> flight w1 = flight w \<and> stall w1 < stall w \<or>
        (\<exists>k. res = Transferred (take k (flight w)) \<and> 0 < k \<and> k \<le> wanted - amount \<and>
             k \<le> length (flight w) \<and> flight w1 = drop k (flight w))"
      by blast
    from res show ?thesis
    proof (elim disjE conjE exE)
      assume "res = Failed EAGAIN" "flight w1 = flight w" "stall w1 < stall w"
      moreover from this have
        "((length (flight w1), stall w1), length (flight w), stall w) \<in> less_than <*lex*> less_than" by simp
      ultimately show ?thesis
        using step.hyps [of w1 amount buf] step.prems recv_keeps [OF recv] more
        by (subst recv_body.simps) (simp add: recv)
    next
      fix k
      assume k: "res = Transferred (take k (flight w))" "0 < k" "k \<le> length (flight w)"
        and w1: "flight w1 = drop k (flight w)"
      define buf1 where "buf1 = take amount buf @ take k (flight w) @ drop (amount + k) buf"
      have store: "mem_store buf amount (take k (flight w)) = Inr buf1" and len: "length buf1 = 528"
        using step.prems k by (simp_all add: store_part buf1_def min_absorb2)
      from part_is_progress [OF k(2,3), of "stall w1" "stall w"]
      have "((length (flight w1), stall w1), length (flight w), stall w) \<in> less_than <*lex*> less_than"
        by (simp only: w1)
      from step.hyps [OF this _ _ step.prems(3) len, of "amount + k"] step.prems recv_keeps [OF recv] k w1
      show ?thesis
        using more by (subst recv_body.simps) (simp add: recv store min_absorb2)
    qed
  qed
qed

lemma recv_header_cut:
  assumes "peer w = Some fd" and "amount + length (flight w) < 16" and "length buf = 528"
  shows "(\<exists>buf' w'. recv_header K fd amount buf w = Some (Inr (Some CONNECTION_CLOSED, buf', w'))) \<or>
    amount = 0 \<and> (\<exists>w'. recv_header K fd amount buf w = Some (Inr (Some NO_DATA_AVAILABLE, buf, w')) \<and>
      flight w' = flight w \<and> stall w' < stall w)"
  using assms
proof (induction "(length (flight w), stall w)" arbitrary: amount buf w rule: progress)
  case step
  then have more: "amount < 16" "0 < 16 - amount" by simp_all
  obtain res w1 where recv: "os_recv K fd (16 - amount) w = (res, w1)"
    and res: "res = Failed EAGAIN \<and> flight w1 = flight w \<and> stall w1 < stall w \<or>
      res = Transferred [] \<or>
      (\<exists>k. res = Transferred (take k (flight w)) \<and> 0 < k \<and> k \<le> length (flight w) \<and>
        flight w1 = drop k (flight w))"
    using recv_end [OF step.prems(1) _ more(2)] recv_bytes [OF step.prems(1) _ more(2)]
    by (cases "flight w = []") auto
  have peer: "peer w1 = Some fd"
    using step.prems recv_keeps [OF recv] by simp
  from res show ?case
  proof (elim disjE conjE exE)
    assume r1: "res = Failed EAGAIN" and w1: "flight w1 = flight w" "stall w1 < stall w"
    show ?thesis
    proof (cases "amount = 0")
      case True
      with w1 show ?thesis
        by (subst (1 2) recv_header.simps) (use recv r1 in simp)
    next
      case False
      have "((length (flight w1), stall w1), length (flight w), stall w) \<in> less_than <*lex*> less_than"
        using w1 by simp
      from step.hyps [OF this peer, of amount buf] step.prems w1(1) False show ?thesis
        by (subst recv_header.simps) (simp add: recv r1)
    qed
  next
    assume "res = Transferred []"
    with more step.prems show ?thesis
      by (subst recv_header.simps) (simp add: recv mem_store_ok)
  next
    fix k
    assume k: "res = Transferred (take k (flight w))" "0 < k" "k \<le> length (flight w)"
      and w1: "flight w1 = drop k (flight w)"
    define buf1 where "buf1 = take amount buf @ take k (flight w) @ drop (amount + k) buf"
    have store: "mem_store buf amount (take k (flight w)) = Inr buf1" and len: "length buf1 = 528"
      using step.prems k by (simp_all add: store_part buf1_def min_absorb2)
    from part_is_progress [OF k(2,3), of "stall w1" "stall w"]
    have "((length (flight w1), stall w1), length (flight w), stall w) \<in> less_than <*lex*> less_than"
      by (simp only: w1)
    from step.hyps [OF this peer _ len, of "amount + k"] step.prems k w1 show ?thesis
      by (subst recv_header.simps) (auto simp: recv store min_absorb2)
  qed
qed

text \<open>The receive loops neither end the connection nor accept another one.\<close>

lemma recv_header_keeps:
  assumes "recv_header K fd amount buf w = Some (Inr (e, buf', w'))"
  shows "peer w' = peer w \<and> backlog w' = backlog w"
  by (rule recv_header.raw_induct
      [where P = "\<lambda>J fd amount buf w r. J = K \<longrightarrow> (\<forall>e buf' w'. r = Inr (e, buf', w') \<longrightarrow>
        peer w' = peer w \<and> backlog w' = backlog w)",
      OF _ assms, rule_format, OF _ refl refl])
    (fastforce simp: Let_def dest: recv_keeps split: if_splits sum.splits io_result.splits prod.splits)

lemma recv_body_keeps:
  assumes "recv_body K fd wanted amount buf w = Some (Inr (e, buf', w'))"
  shows "peer w' = peer w \<and> backlog w' = backlog w"
  by (rule recv_body.raw_induct
      [where P = "\<lambda>J fd wanted amount buf w r. J = K \<longrightarrow> (\<forall>e buf' w'. r = Inr (e, buf', w') \<longrightarrow>
        peer w' = peer w \<and> backlog w' = backlog w)",
      OF _ assms, rule_format, OF _ refl refl])
    (fastforce simp: Let_def dest: recv_keeps split: if_splits sum.splits io_result.splits prod.splits)

lemma recv_keeps_all:
  "recv_header K fd amount buf w = Some (Inr (e, buf', w')) \<Longrightarrow>
    peer w' = peer w \<and> backlog w' = backlog w \<and> length buf' = length buf"
  "recv_body K fd wanted amount buf w = Some (Inr (e, buf', w')) \<Longrightarrow>
    peer w' = peer w \<and> backlog w' = backlog w \<and> length buf' = length buf"
  using recv_header_keeps [of fd amount buf w e buf' w'] recv_header_result [of K fd amount buf w e buf' w']
    recv_body_keeps [of fd wanted amount buf w e buf' w'] recv_body_result [of K fd wanted amount buf w e buf' w']
  by simp_all

lemma stream_read_keeps:
  assumes "stream_read K (s, w) = Some (Inr (r, s', w'))" and "length (st_buffer s) = 528"
  shows "peer w' = peer w \<and> backlog w' = backlog w \<and> st_sfd s' = st_sfd s \<and>
    st_cfd s' = st_cfd s \<and> length (st_buffer s') = 528"
  using assms
  by (auto simp: stream_read_def res_simps dest!: recv_keeps_all
      split: if_splits option.splits sum.splits prod.splits)

lemma stream_read_cut:
  assumes "peer w = Some (st_cfd s)" and "cut_short (flight w)" and buffer: "length (st_buffer s) = 528"
  shows "\<exists>r s' w'. stream_read K (s, w) = Some (Inr (r, s', w')) \<and>
    (r = Inl CONNECTION_CLOSED \<or>
     r = Inl NO_DATA_AVAILABLE \<and> flight w' = flight w \<and> stall w' < stall w)"
proof (cases "length (flight w) < 16")
  case True
  from recv_header_cut [OF assms(1), of 0 "st_buffer s"] True buffer peer_open [OF assms(1)] show ?thesis
    by (auto simp: stream_read_def)
next
  case False
  define hdr body where "hdr = take 16 (flight w)" and "body = drop 16 (flight w)"
  have hdr: "arriving (st_cfd s) w = hdr @ body" "length hdr = 16" "hdr \<noteq> []"
    using assms(1) False by (auto simp: hdr_def body_def arriving_def)
  have same: "header_of_bytes (flight w) = header_of_bytes hdr"
    by (simp add: hdr_def header_of_bytes_def drop_take min_def)
  have short: "length body < unat (h_body_size (header_of_bytes hdr))"
      "unat (h_body_size (header_of_bytes hdr)) \<le> 528"
    using assms(2) False by (auto simp: cut_short_def Let_def same body_def)
  have open': "st_cfd s \<noteq> - 1"
    using peer_open [OF assms(1)] .
  have "0 + length hdr = 16" by (simp add: hdr(2))
  from stream_receiver.recv_header_gets [OF receiver [OF open'] hdr(1) this hdr(3) buffer] show ?thesis
  proof (elim disjE conjE exE)
    fix w1
    assume got: "recv_header K (st_cfd s) 0 (st_buffer s) w =
        Some (Inr (None, take 0 (st_buffer s) @ hdr @ drop 16 (st_buffer s), w1))"
      and w1: "arriving (st_cfd s) w1 = body"
    define buf1 where "buf1 = hdr @ drop 16 (st_buffer s)"
    have len1: "length buf1 = 528"
      using buffer hdr by (simp add: buf1_def)
    have header: "header_deserialize buf1 0 (u32_of_size 16) = Inr (Some (header_of_bytes hdr))"
      using hdr by (simp add: deserialize_header [OF len1]) (simp add: buf1_def)
    have "peer w1 = Some (st_cfd s)"
      using recv_header_keeps [OF got] assms(1) by simp
    with w1 have "peer w1 = Some (st_cfd s)" "flight w1 = body"
      by (simp_all add: arriving_def)
    with recv_body_cut [of w1 "st_cfd s" 0 "unat (h_body_size (header_of_bytes hdr))" buf1] short len1
    obtain buf2 w2 where "recv_body K (st_cfd s) (unat (h_body_size (header_of_bytes hdr))) 0 buf1 w1 =
        Some (Inr (Some CONNECTION_CLOSED, buf2, w2))" by auto
    with got header open' show ?thesis
      by (simp add: stream_read_def buf1_def [symmetric])
  next
    fix w1
    assume got: "recv_header K (st_cfd s) 0 (st_buffer s) w =
        Some (Inr (Some NO_DATA_AVAILABLE, st_buffer s, w1))"
      and w1: "arriving (st_cfd s) w1 = arriving (st_cfd s) w" "stall w1 < stall w"
    from recv_header_keeps [OF got] assms(1) w1(1) have "flight w1 = flight w"
      by (simp add: arriving_def)
    with got w1(2) open' show ?thesis
      by (simp add: stream_read_def)
  qed
qed

text \<open>A read while a client is connected.\<close>

lemma stream_read_client:
  assumes peer: "peer w = Some (st_cfd s)" and content: "flight w = client_bytes (ms, part)"
    and sound: "sound_client (ms, part)" and buffer: "length (st_buffer s) = 528"
  shows "\<exists>r s' w'. stream_read K (s, w) = Some (Inr (r, s', w')) \<and>
    (r = Inl NO_DATA_AVAILABLE \<and> flight w' = flight w \<and> stall w' < stall w \<or>
     ms = [] \<and> r = Inl CONNECTION_CLOSED \<or>
     (\<exists>m ms'. ms = m # ms' \<and> r = Inr m \<and> flight w' = client_bytes (ms', part)))"
proof (cases ms)
  case Nil
  with stream_read_cut [OF peer _ buffer] content sound show ?thesis
    by (auto simp: client_bytes_def sound_client_def)
next
  case (Cons m ms')
  obtain h obj where m: "m = (h, obj)" by (cases m)
  define rest where "rest = client_bytes (ms', part)"
  have flight: "arriving (st_cfd s) w = header_bytes h @ object_bytes obj @ rest"
    using peer content by (simp add: arriving_def rest_def client_bytes_def Cons m)
  have sound_m: "sound_message (h, obj)"
    using sound by (simp add: sound_client_def Cons m)
  then have size: "length (object_bytes obj) = unat (h_body_size (header_of_bytes (header_bytes h)))"
      "length (object_bytes obj) \<le> 528"
    and obj: "decode_object (h_type h) (object_bytes obj) = Inr obj" "canonical_type (h_type h)"
    by simp_all
  have "length (header_bytes h) = 16" by simp
  from stream_receiver.stream_read_bytes [OF receiver [OF peer_open [OF peer]] buffer refl flight this size(1)]
  show ?thesis
  proof (elim disjE exE conjE)
    fix w'
    assume got: "stream_read K (s, w) = Some (Inr (Inl NO_DATA_AVAILABLE, s, w'))"
      and "arriving (st_cfd s) w' = arriving (st_cfd s) w" "stall w' < stall w"
    with stream_read_keeps [OF got buffer] peer show ?thesis
      by (simp add: arriving_def)
  next
    assume "if length (object_bytes obj) \<le> 528
     then \<exists>buf w'. stream_read K (s, w) = Some (Inr
         (of_body (header_of_bytes (header_bytes h))
            (decode_object (h_type (header_of_bytes (header_bytes h))) (object_bytes obj)),
          s\<lparr>st_buffer := buf\<rparr>, w')) \<and> length buf = 528 \<and> arriving (st_cfd s) w' = rest
     else stream_read K (s, w) = Some (Inl Out_Of_Bounds)"
    with size(2) obj obtain buf w' where w': "arriving (st_cfd s) w' = rest"
      and got: "stream_read K (s, w) = Some (Inr (Inr (h, obj), s\<lparr>st_buffer := buf\<rparr>, w'))"
      by auto
    from stream_read_keeps [OF got buffer] peer w' have "flight w' = client_bytes (ms', part)"
      by (simp add: arriving_def rest_def)
    with got show ?thesis
      by (simp add: Cons m)
  qed
qed

section \<open>Accepting the next client\<close>

lemma accept_waiting:
  assumes "st_sfd s = sfd" and "st_cfd s = - 1" and "peer w = None"
  shows "\<exists>b fd w'. stream_accept K (s, w) = (b, s\<lparr>st_cfd := fd\<rparr>, w') \<and>
    (\<not> b \<and> fd = - 1 \<and> peer w' = None \<and> backlog w' = backlog w \<and>
       (backlog w = [] \<or> stall w' < stall w) \<or>
     b \<and> fd \<noteq> - 1 \<and> peer w' = Some fd \<and> backlog w = flight w' # backlog w')"
proof -
  obtain r w1 where polled: "os_poll K [\<lparr>pfd_fd = sfd, pfd_events = [POLLIN]\<rparr>] WAIT_TIME w = (r, w1)"
    by fastforce
  have w1: "peer w1 = None" "backlog w1 = backlog w" "stall w1 \<le> stall w"
    using poll_keeps [OF polled] assms(3) by simp_all
  obtain fd w2 where accepted: "os_accept4 K sfd w1 = (fd, w2)"
    by fastforce
  have same: "s\<lparr>st_cfd := - 1\<rparr> = s"
    using assms(2) by simp
  show ?thesis
  proof (cases "r = - 1 \<or> r = 0")
    case True
    with poll_listener [OF assms(3) _ polled] have "backlog w = [] \<or> stall w1 < stall w"
      by (cases "backlog w = []") auto
    with True w1 show ?thesis
      using assms listening
      by (intro exI [of _ False] exI [of _ "- 1"] exI [of _ w1])
        (auto simp: stream_accept_def poll_def polled same)
  next
    case False
    from accept_next [OF w1(1) accepted] show ?thesis
    proof (elim disjE conjE)
      assume "fd = - 1" "peer w2 = None" "backlog w2 = backlog w1" "backlog w1 = []"
      with False w1 show ?thesis
        using assms listening
        by (intro exI [of _ False] exI [of _ "- 1"] exI [of _ w2])
          (auto simp: stream_accept_def poll_def polled accepted same)
    next
      assume "fd = - 1" "peer w2 = None" "backlog w2 = backlog w1" "stall w2 < stall w1"
      with False w1 show ?thesis
        using assms listening
        by (intro exI [of _ False] exI [of _ "- 1"] exI [of _ w2])
          (auto simp: stream_accept_def poll_def polled accepted same)
    next
      assume "fd \<noteq> - 1" "peer w2 = Some fd" "backlog w1 = flight w2 # backlog w2"
      with False w1 show ?thesis
        using assms listening
        by (intro exI [of _ True] exI [of _ fd] exI [of _ w2])
          (auto simp: stream_accept_def poll_def polled accepted)
    qed
  qed
qed

lemma accept_after:
  assumes "st_sfd s = sfd" and "peer w = Some (st_cfd s)"
  shows "\<exists>b fd w'. stream_accept K (s, w) = (b, s\<lparr>st_cfd := fd\<rparr>, w') \<and>
    (fd = - 1 \<and> peer w' = None \<and> backlog w' = backlog w \<or>
     fd \<noteq> - 1 \<and> peer w' = Some fd \<and> backlog w = flight w' # backlog w')"
proof -
  define w1 where "w1 = os_sock_close K (st_cfd s) w"
  have w1: "peer w1 = None" "backlog w1 = backlog w"
    using close_peer [OF assms(2)] by (simp_all add: w1_def)
  have "stream_accept K (s, w) = stream_accept K (s\<lparr>st_cfd := - 1\<rparr>, w1)"
    using assms(1) listening peer_open [OF assms(2)] by (simp add: stream_accept_def w1_def)
  with accept_waiting [of "s\<lparr>st_cfd := - 1\<rparr>" w1] assms(1) w1 show ?thesis
    by auto
qed

end

section \<open>The server\<close>

text \<open>
  The program on such a socket, and a user who may stop it at any time.  \<open>serving\<close> holds of the clients
  whose messages are still to be printed, the first of them being the accepted one if there is one.
\<close>

locale stream_server = stream_listener "po_sock (co_program E)" sfd peer flight backlog stall
  for E :: "('w, 'm, 'i) command_os" and sfd peer flight backlog stall +
  assumes stop_keeps: "co_stop E w = (b, w') \<Longrightarrow>
    peer w' = peer w \<and> flight w' = flight w \<and> backlog w' = backlog w \<and> stall w' \<le> stall w"
begin

definition serving :: "bool \<Rightarrow> handler \<times> 'w \<Rightarrow> stream_client list \<Rightarrow> bool" where
  "serving more_data = (\<lambda>(h, w) cs. \<exists>s. h = Stream_Handler s \<and> stream_inv (s, w) \<and> st_sfd s = sfd \<and>
     list_all sound_client cs \<and>
     (peer w = None \<and> st_cfd s = - 1 \<and> backlog w = map client_bytes cs \<and> \<not> more_data \<or>
      peer w = Some (st_cfd s) \<and> flight w # backlog w = map client_bytes cs))"

definition effort :: "handler \<times> 'w \<Rightarrow> nat \<times> nat" where
  "effort = (\<lambda>(h, w). (if peer w = None then 1 else 0, stall w))"

text \<open>The part of a round after waiting.\<close>

definition round_after :: "handler \<times> 'w \<Rightarrow> (bool \<times> read_result list \<times> (handler \<times> 'w)) res option" where
  "round_after h = run_then (handler_read (co_program E) h) (\<lambda>(result, h).
     case result of
       Inl e \<Rightarrow>
         if e = NO_DATA_AVAILABLE then Some (Inr (False, [], h))
         else Some (Inr (False, [Inl e], if e = CONNECTION_CLOSED then reconnect (co_program E) h else h))
     | Inr m \<Rightarrow> Some (Inr (True, [Inr m], h)))"

lemma round_read:
  assumes "serving more_data (Stream_Handler s, w) cs" and "peer w = Some (st_cfd s)"
  shows "\<exists>more' new cs' h'. round_after (Stream_Handler s, w) = Some (Inr (more', new, h')) \<and>
    clients_log cs = new @ clients_log cs' \<and> serving more' h' cs' \<and>
    (new \<noteq> [] \<or> effort h' < effort (Stream_Handler s, w))"
proof -
  let ?K = "po_sock (co_program E)"
  from assms have inv: "stream_inv (s, w)" "st_sfd s = sfd" "list_all sound_client cs"
    and len: "length (st_buffer s) = 528" and cs: "flight w # backlog w = map client_bytes cs"
    by (auto simp: serving_def stream_inv_def)
  from cs obtain ms part cs1 where cs_eq: "cs = (ms, part) # cs1"
    and content: "flight w = client_bytes (ms, part)" "backlog w = map client_bytes cs1"
    by (cases cs; cases "hd cs") auto
  have sound: "sound_client (ms, part)" "list_all sound_client cs1"
    using inv(3) by (simp_all add: cs_eq)
  from stream_read_client [OF assms(2) content(1) sound(1) len] obtain r s' w' where
    read: "stream_read ?K (s, w) = Some (Inr (r, s', w'))" and
    r: "r = Inl NO_DATA_AVAILABLE \<and> flight w' = flight w \<and> stall w' < stall w \<or>
     ms = [] \<and> r = Inl CONNECTION_CLOSED \<or>
     (\<exists>m ms'. ms = m # ms' \<and> r = Inr m \<and> flight w' = client_bytes (ms', part))" by blast
  have kept: "peer w' = Some (st_cfd s')" "backlog w' = backlog w" "st_sfd s' = sfd" "stream_inv (s', w')"
    using stream_read_keeps [OF read len] stream_read_result [OF inv(1) read] assms(2) inv(2) by simp_all
  have hread: "handler_read (co_program E) (Stream_Handler s, w) = Some (Inr (r, Stream_Handler s', w'))"
    by (simp add: handler_read_def read via_res_def via_def)
  from r show ?thesis
  proof (elim disjE conjE exE)
    assume "r = Inl NO_DATA_AVAILABLE" "flight w' = flight w" "stall w' < stall w"
    with kept content sound cs_eq assms(2) show ?thesis
      by (intro exI [of _ False] exI [of _ "[] :: read_result list"] exI [of _ cs] exI [of _ "(Stream_Handler s', w')"])
        (simp add: round_after_def hread serving_def effort_def)
  next
    fix m ms'
    assume "ms = m # ms'" "r = Inr m" "flight w' = client_bytes (ms', part)"
    with kept content sound cs_eq show ?thesis
      by (intro exI [of _ True] exI [of _ "[Inr m]"] exI [of _ "(ms', part) # cs1"]
          exI [of _ "(Stream_Handler s', w')"])
        (simp add: round_after_def hread serving_def clients_log_def client_log_def sound_client_def)
  next
    assume closed: "ms = []" "r = Inl CONNECTION_CLOSED"
    from accept_after [OF kept(3,1)] obtain b fd w2 where
      accepted: "stream_accept ?K (s', w') = (b, s'\<lparr>st_cfd := fd\<rparr>, w2)"
      and w2: "fd = - 1 \<and> peer w2 = None \<and> backlog w2 = map client_bytes cs1 \<or>
        fd \<noteq> - 1 \<and> peer w2 = Some fd \<and> flight w2 # backlog w2 = map client_bytes cs1"
      using content(2) kept(2) by auto
    have "stream_inv (s'\<lparr>st_cfd := fd\<rparr>, w2)"
      using kept(3,4) listening by (simp add: stream_inv_def)
    with w2 kept sound have "serving False (Stream_Handler (s'\<lparr>st_cfd := fd\<rparr>), w2) cs1"
      by (auto simp: serving_def)
    moreover have "round_after (Stream_Handler s, w) =
        Some (Inr (False, [Inl CONNECTION_CLOSED], Stream_Handler (s'\<lparr>st_cfd := fd\<rparr>), w2))"
      by (simp add: round_after_def hread closed reconnect_def accepted via_def)
    ultimately show ?thesis
      by (intro exI [of _ False] exI [of _ "[Inl CONNECTION_CLOSED]"] exI [of _ cs1]
          exI [of _ "(Stream_Handler (s'\<lparr>st_cfd := fd\<rparr>), w2)"])
        (simp add: clients_log_def client_log_def cs_eq closed)
  qed
qed

text \<open>Waiting for data, which accepts the next client if none is connected.\<close>

lemma serving_poll:
  assumes "serving False (Stream_Handler s, w) cs" and "peer w = Some (st_cfd s)"
  shows "\<exists>r w'. poll (po_sock (co_program E)) (st_cfd s) WAIT_TIME w = (r, w') \<and>
    serving False (Stream_Handler s, w') cs \<and> peer w' = Some (st_cfd s) \<and> stall w' \<le> stall w \<and>
    (0 < r \<or> stall w' < stall w)"
proof -
  obtain r w' where polled: "os_poll (po_sock (co_program E))
      [\<lparr>pfd_fd = st_cfd s, pfd_events = [POLLIN]\<rparr>] WAIT_TIME w = (r, w')" by fastforce
  from poll_keeps [OF polled] poll_peer [OF assms(2) polled] assms show ?thesis
    by (auto simp: poll_def polled serving_def stream_inv_def)
qed

lemma serving_await:
  assumes "serving False (Stream_Handler s, w) cs"
  shows "\<exists>ready s' w'. handler_await_data (co_program E) (Stream_Handler s, w) =
      (ready, Stream_Handler s', w') \<and> serving False (Stream_Handler s', w') cs \<and>
    (if ready then peer w' = Some (st_cfd s') \<and>
         effort (Stream_Handler s', w') \<le> effort (Stream_Handler s, w)
     else cs = [] \<or> effort (Stream_Handler s', w') < effort (Stream_Handler s, w))"
proof (cases "peer w")
  case (Some fd)
  with assms have fd: "peer w = Some (st_cfd s)" "st_cfd s \<noteq> - 1"
    using peer_open [of w fd] by (auto simp: serving_def)
  from serving_poll [OF assms fd(1)] obtain r w' where
    "poll (po_sock (co_program E)) (st_cfd s) WAIT_TIME w = (r, w')"
    "serving False (Stream_Handler s, w') cs" "peer w' = Some (st_cfd s)" "stall w' \<le> stall w"
    "0 < r \<or> stall w' < stall w" by blast
  with fd show ?thesis
    by (intro exI [of _ "0 < r"] exI [of _ s] exI [of _ w'])
      (auto simp: handler_await_data_def stream_await_data_def via_def effort_def)
next
  case None
  with assms have s: "st_sfd s = sfd" "st_cfd s = - 1" "stream_inv (s, w)" "list_all sound_client cs"
    and backlog: "backlog w = map client_bytes cs"
    by (auto simp: serving_def)
  from accept_waiting [OF s(1,2) None] obtain b fd w1 where
    accepted: "stream_accept (po_sock (co_program E)) (s, w) = (b, s\<lparr>st_cfd := fd\<rparr>, w1)"
    and w1: "\<not> b \<and> fd = - 1 \<and> peer w1 = None \<and> backlog w1 = backlog w \<and>
       (backlog w = [] \<or> stall w1 < stall w) \<or>
     b \<and> fd \<noteq> - 1 \<and> peer w1 = Some fd \<and> backlog w = flight w1 # backlog w1" by blast
  have inv: "stream_inv (s\<lparr>st_cfd := fd\<rparr>, w1)"
    using s listening by (simp add: stream_inv_def)
  show ?thesis
  proof (cases b)
    case False
    with w1 inv s backlog None show ?thesis
      by (intro exI [of _ False] exI [of _ "s\<lparr>st_cfd := fd\<rparr>"] exI [of _ w1])
        (auto simp: handler_await_data_def stream_await_data_def via_def accepted serving_def effort_def)
  next
    case True
    with w1 inv s backlog have serves: "serving False (Stream_Handler (s\<lparr>st_cfd := fd\<rparr>), w1) cs"
      and peer: "peer w1 = Some (st_cfd (s\<lparr>st_cfd := fd\<rparr>))"
      by (auto simp: serving_def)
    from serving_poll [OF this] obtain r w2 where
      polled: "poll (po_sock (co_program E)) fd WAIT_TIME w1 = (r, w2)"
      and w2: "serving False (Stream_Handler (s\<lparr>st_cfd := fd\<rparr>), w2) cs" "peer w2 = Some fd"
      by auto
    with True s None show ?thesis
      by (intro exI [of _ "0 < r"] exI [of _ "s\<lparr>st_cfd := fd\<rparr>"] exI [of _ w2])
        (auto simp: handler_await_data_def stream_await_data_def via_def accepted effort_def)
  qed
qed

lemma serving_round:
  assumes "serving more_data h cs"
  shows "\<exists>more' new cs' h'. server_round (co_program E) more_data h = Some (Inr (more', new, h')) \<and>
    clients_log cs = new @ clients_log cs' \<and> serving more' h' cs' \<and>
    (cs = [] \<or> new \<noteq> [] \<or> effort h' < effort h)"
proof -
  from assms obtain s w where h: "h = (Stream_Handler s, w)"
    by (cases h) (auto simp: serving_def)
  have after: "server_round (co_program E) more_data h =
      (let (ready, h) = (if more_data then (True, h) else handler_await_data (co_program E) h)
       in if \<not> ready then Some (Inr (False, [], h)) else round_after h)"
    by (simp only: server_round_def round_after_def)
  show ?thesis
  proof (cases more_data)
    case True
    with assms have "peer w = Some (st_cfd s)"
      by (auto simp: h serving_def)
    from round_read [OF assms [unfolded h] this] obtain more' new cs' h' where
      "round_after h = Some (Inr (more', new, h'))" "clients_log cs = new @ clients_log cs'"
      "serving more' h' cs'" "new \<noteq> [] \<or> effort h' < effort h"
      unfolding h by blast
    moreover have "server_round (co_program E) more_data h = round_after h"
      using after True by simp
    ultimately show ?thesis
      by (intro exI [of _ more'] exI [of _ new] exI [of _ cs'] exI [of _ h']) simp
  next
    case False
    with assms have "serving False (Stream_Handler s, w) cs" by (simp add: h)
    from serving_await [OF this] obtain ready s' w' where
      await: "handler_await_data (co_program E) h = (ready, Stream_Handler s', w')"
      and serves: "serving False (Stream_Handler s', w') cs"
      and ready: "if ready then peer w' = Some (st_cfd s') \<and> effort (Stream_Handler s', w') \<le> effort h
         else cs = [] \<or> effort (Stream_Handler s', w') < effort h"
      unfolding h by blast
    show ?thesis
    proof (cases ready)
      case True
      with ready have w': "peer w' = Some (st_cfd s')" "effort (Stream_Handler s', w') \<le> effort h"
        by simp_all
      from round_read [OF serves w'(1)] obtain more' new cs' h' where
        "round_after (Stream_Handler s', w') = Some (Inr (more', new, h'))"
        "clients_log cs = new @ clients_log cs'" "serving more' h' cs'"
        "new \<noteq> [] \<or> effort h' < effort (Stream_Handler s', w')" by blast
      moreover have "server_round (co_program E) more_data h = round_after (Stream_Handler s', w')"
        using after False True await by simp
      ultimately show ?thesis
        using w'(2)
        by (intro exI [of _ more'] exI [of _ new] exI [of _ cs'] exI [of _ h']) auto
    next
      case idle: False
      have "server_round (co_program E) more_data h = Some (Inr (False, [], Stream_Handler s', w'))"
        using after False await idle by simp
      moreover have "cs = [] \<or> effort (Stream_Handler s', w') < effort h"
        using ready idle by simp
      ultimately show ?thesis
        using serves
        by (intro exI [of _ False] exI [of _ "[] :: read_result list"] exI [of _ cs] exI [of _ "(Stream_Handler s', w')"]) simp
    qed
  qed
qed

end

sublocale stream_server \<subseteq> clients: server_log E
  "\<lambda>more_data h rest. \<exists>cs. rest = clients_log cs \<and> serving more_data h cs" "\<lambda>_. effort"
proof (unfold_locales, goal_cases)
  case (1 more_data h rest)
  then show ?case
    by (cases h) (auto simp: serving_def handler_inv_def)
next
  case (2 more_data s w rest b w')
  with stop_keeps [of w b w'] show ?case
    by (auto simp: serving_def effort_def stream_inv_def)
next
  case (3 more_data h rest)
  then obtain cs where rest: "rest = clients_log cs" and "serving more_data h cs" by blast
  from serving_round [OF this(2)] obtain more' new cs' h' where
    "server_round (co_program E) more_data h = Some (Inr (more', new, h'))"
    "clients_log cs = new @ clients_log cs'" "serving more' h' cs'"
    "cs = [] \<or> new \<noteq> [] \<or> effort h' < effort h" by blast
  then show ?case
    by (rule_tac exI [of _ more'], rule_tac exI [of _ new], rule_tac exI [of _ "clients_log cs'"],
        rule_tac exI [of _ h']) (auto simp: rest clients_log_empty)
qed

context stream_server
begin

lemma serving_stop:
  assumes "\<And>w. fst (co_stop E w) = (peer w = None \<and> backlog w = [])" and "serving more_data (h, w) cs"
  shows "fst (co_stop E w) = (clients_log cs = [])"
proof -
  have "(peer w = None \<and> backlog w = []) = (cs = [])"
    using assms(2) by (cases cs) (auto simp: serving_def)
  then show ?thesis
    by (simp only: assms(1) clients_log_empty)
qed

lemma server_session:
  assumes "serving False h cs" and "handler_is_open h"
  shows "run_server E False [] h = Some r \<Longrightarrow> \<exists>k h'. r = Inr (take k (clients_log cs), h')"
    and "(\<And>w. fst (co_stop E w) = (peer w = None \<and> backlog w = [])) \<Longrightarrow>
      \<exists>h'. run_server E False [] h = Some (Inr (clients_log cs, h'))"
proof -
  have due: "\<exists>cs'. clients_log cs = clients_log cs' \<and> serving False h cs'"
    using assms(1) by blast
  show "\<exists>k h'. r = Inr (take k (clients_log cs), h')" if "run_server E False [] h = Some r"
    using clients.run_server_takes [OF that due] by auto
  show "\<exists>h'. run_server E False [] h = Some (Inr (clients_log cs, h'))"
    if flag: "\<And>w. fst (co_stop E w) = (peer w = None \<and> backlog w = [])"
  proof -
    have "\<exists>more_data' h'. run_server E False [] h = Some (Inr ([] @ clients_log cs, h')) \<and>
        (\<exists>cs. [] = clients_log cs \<and> serving more_data' h' cs)"
      by (rule clients.run_server_completes [OF due assms(2)]) (auto simp: serving_stop [OF flag])
    then show ?thesis by auto
  qed
qed

end

section \<open>A reference kernel\<close>

text \<open>
  An executable reference kernel: one connection at a time from a queue of clients; every call is put
  off twice after each transfer, and at most seven bytes arrive at a time.
\<close>

record listen_kernel =
  lk_connected :: bool
  lk_flight :: "byte list"
  lk_backlog :: "byte list list"
  lk_stall :: nat

definition listen_calls :: "listen_kernel sock_os" where
  "listen_calls = \<lparr>
     os_clock = (\<lambda>k. (0, k)),
     os_poll = (\<lambda>_ _ k. if 0 < lk_stall k then (0, k\<lparr>lk_stall := lk_stall k - 1\<rparr>) else (1, k)),
     os_remove = (\<lambda>_ k. k),
     os_socket = (\<lambda>_ _ _ k. (5, k)),
     os_set_reuseaddr = (\<lambda>_ _ k. k),
     os_bind = (\<lambda>_ _ k. (0, k)),
     os_listen = (\<lambda>_ _ k. (0, k)),
     os_connect = (\<lambda>_ _ k. (- 1, k)),
     os_accept4 = (\<lambda>_ k.
       case lk_backlog k of
         [] \<Rightarrow> (- 1, k)
       | bs # rest \<Rightarrow> (7, k\<lparr>lk_connected := True, lk_flight := bs, lk_backlog := rest, lk_stall := 2\<rparr>)),
     os_sock_close = (\<lambda>_ k. k\<lparr>lk_connected := False\<rparr>),
     os_send = (\<lambda>_ _ k. (- 1, k)),
     os_recv = (\<lambda>_ n k.
       if 0 < lk_stall k then (Failed EAGAIN, k\<lparr>lk_stall := lk_stall k - 1\<rparr>)
       else let n = min 7 n in
         (Transferred (take n (lk_flight k)), k\<lparr>lk_flight := drop n (lk_flight k), lk_stall := 2\<rparr>)),
     os_sendto = (\<lambda>_ _ _ k. (- 1, k)),
     os_recvfrom = (\<lambda>_ _ k. (Failed (Other_Errno 95), k)),
     os_inet_pton = (\<lambda>_. (0, 0))\<rparr>"

definition listen_boot :: "stream_client list \<Rightarrow> listen_kernel" where
  "listen_boot cs = \<lparr>lk_connected = False, lk_flight = [], lk_backlog = map client_bytes cs, lk_stall = 2\<rparr>"

definition listen_program ::
  "(listen_kernel, 'm, 'i) command_os \<Rightarrow> (listen_kernel, 'm, 'i) command_os" where
  "listen_program E = E\<lparr>co_program := (co_program E)\<lparr>po_sock := listen_calls\<rparr>,
     co_stop := (\<lambda>k. (\<not> lk_connected k \<and> lk_backlog k = [], k))\<rparr>"

lemma listen_program_simps [simp]:
  "po_sock (co_program (listen_program E)) = listen_calls"
  "co_stop (listen_program E) k = (\<not> lk_connected k \<and> lk_backlog k = [], k)"
  by (simp_all add: listen_program_def)

interpretation listen: stream_server "listen_program E" 5 "\<lambda>k. if lk_connected k then Some 7 else None"
  lk_flight lk_backlog lk_stall
  for E :: "(listen_kernel, 'm, 'i) command_os"
proof (unfold_locales, goal_cases)
  case (9 k fd n)
  show ?case
  proof (cases "0 < lk_stall k")
    case True
    with 9 show ?thesis by (simp add: listen_calls_def)
  next
    case False
    with 9 show ?thesis
      by (auto simp: listen_calls_def Let_def min_def
          intro!: exI [of _ "min (min 7 n) (length (lk_flight k))"])
  qed
qed (auto simp: listen_calls_def Let_def split: if_splits list.splits)

text \<open>Three clients: one that sends three messages, one that goes away within the body of its second
  message, and one that goes away within its first header.\<close>

definition three_clients :: "stream_client list" where
  "three_clients =
     [(three_pings, []),
      ([(ping_header 1, Ping)],
       header_bytes \<lparr>h_id = 2, h_type = BINARY_DATA, h_body_size = 100, h_timestamp = 0\<rparr> @ [96, 0, 0]),
      ([], [1, 0, 0])]"

section \<open>Properties\<close>

text \<open>C17. A stream server serves one client after the other: whatever they send and however the system
  splits, delays and interrupts it, and even if a client goes away in the middle of a message, the
  server prints the complete messages of each client in order and then that its connection is closed,
  and reconnects to the next one; it never faults.  Stopped at any time, it has printed a first part of
  this; stopped once no client is left, it has printed all of it.\<close>

theorem stream_server_reconnects:
  assumes "stream_server E sfd peer flight backlog stall"
    and "server = (if local_domain then stream_new_unix path True else stream_new_inet path port True)"
    and "stream_open (po_sock (co_program E)) (server, w0) = (True, s, w)"
    and "st_sfd s = sfd" and "peer w = None"
    and "backlog w = map client_bytes cs" and "list_all sound_client cs"
  shows "(\<forall>r. run_server E False [] (Stream_Handler s, w) = Some r \<longrightarrow>
      (\<exists>k h'. r = Inr (take k (clients_log cs), h'))) \<and>
    ((\<forall>w. fst (co_stop E w) = (peer w = None \<and> backlog w = [])) \<longrightarrow>
      (\<exists>h'. run_server E False [] (Stream_Handler s, w) = Some (Inr (clients_log cs, h'))))"
proof -
  have new: "stream_inv (server, w0)" "st_sfd server = - 1" "st_cfd server = - 1"
    using assms(2) by (auto simp: stream_inv_def stream_new_unix_def stream_new_inet_def)
  from stream_open_result [OF new(1) assms(3)]
  have inv: "stream_inv (s, w)" and is_open: "handler_is_open (Stream_Handler s, w)"
    by (simp_all add: handler_is_open_def)
  have "length (st_buffer server) = 528" and "st_last_id server = 0"
    using assms(2) by (auto simp: stream_new_unix_def stream_new_inet_def)
  with stream_opened [OF assms(3) new(2)] new(3) have "st_cfd s = - 1"
    by simp
  with inv assms(4-7) have "stream_server.serving sfd peer flight backlog False (Stream_Handler s, w) cs"
    unfolding stream_server.serving_def [OF assms(1)] by auto
  with stream_server.server_session [OF assms(1) _ is_open] show ?thesis by auto
qed

theorem stream_server_reconnects_witness:
  "\<forall>E :: (listen_kernel, 'm, 'i) command_os.
     let (_, s, w) = stream_open listen_calls (stream_new_inet '''' 8080 True, listen_boot three_clients)
     in \<exists>h'. run_server (listen_program E) False [] (Stream_Handler s, w) =
       Some (Inr (map Inr three_pings @ [Inl CONNECTION_CLOSED] @
         [Inr (ping_header 1, Ping), Inl CONNECTION_CLOSED, Inl CONNECTION_CLOSED], h'))"
proof
  fix E :: "(listen_kernel, 'm, 'i) command_os"
  obtain s w where opened:
      "stream_open listen_calls (stream_new_inet '''' 8080 True, listen_boot three_clients) = (True, s, w)"
    and s: "st_sfd s = 5" and w: "w = listen_boot three_clients"
    by (simp add: stream_open_def stream_create_server_def stream_build_address_def
        stream_new_inet_def listen_calls_def Let_def)
  have "list_all sound_client three_clients"
    by (simp add: three_clients_def three_pings_def ping_header_def sound_client_def cut_short_def)
  with stream_server_reconnects [where local_domain = False, OF listen.stream_server_axioms [of E] refl,
      unfolded if_False listen_program_simps, OF opened s, of three_clients]
  have run: "\<exists>h'. run_server (listen_program E) False [] (Stream_Handler s, w) =
      Some (Inr (clients_log three_clients, h'))"
    by (simp add: w listen_boot_def)
  have "clients_log three_clients = map Inr three_pings @ [Inl CONNECTION_CLOSED] @
      [Inr (ping_header 1, Ping), Inl CONNECTION_CLOSED, Inl CONNECTION_CLOSED]"
    by (simp add: clients_log_def client_log_def three_clients_def)
  with run show "let (_, s, w) = stream_open listen_calls (stream_new_inet '''' 8080 True, listen_boot three_clients)
     in \<exists>h'. run_server (listen_program E) False [] (Stream_Handler s, w) =
       Some (Inr (map Inr three_pings @ [Inl CONNECTION_CLOSED] @
         [Inr (ping_header 1, Ping), Inl CONNECTION_CLOSED, Inl CONNECTION_CLOSED], h'))"
    by (simp only: opened Let_def prod.case)
qed

end
