(* ===== verification/Program_Runs.thy ===== *)
theory Program_Runs
  imports Normal_Server
begin

text \<open>
  Runs of the whole program: the functions that run a benchmark return with the handler closed, and
  the properties of \<open>main\<close>.
\<close>

section \<open>Clients that run a benchmark\<close>

definition exit_code :: "int \<Rightarrow> bool" where
  "exit_code c \<longleftrightarrow> c = EXIT_SUCCESS \<or> c = EXIT_FAILURE"

lemma exit_code_simps [simp]: "exit_code EXIT_SUCCESS" "exit_code EXIT_FAILURE"
  by (simp_all add: exit_code_def)

context bench_handler
begin

lemma open_cases:
  assumes "invar h"
  obtains (refused) h' where "c_open I h = (False, h')" "invar h'" "\<not> c_is_open I h'"
  | (opened) h' where "c_open I h = (True, h')" "invar h'" "c_is_open I h'" "last_seq h' = last_seq h"
proof -
  obtain b h' where "c_open I h = (b, h')" by (cases "c_open I h")
  with open_law [OF assms this] refused opened show ?thesis by (cases b) auto
qed

lemma close_result:
  assumes "invar h"
  shows "invar (snd (c_close I h))" and "\<not> c_is_open I (snd (c_close I h))"
    and "last_seq (snd (c_close I h)) = last_seq h"
  using close_law [OF assms, of "fst (c_close I h)" "snd (c_close I h)"] by simp_all

lemma run_latency_client:
  assumes "invar h" and "iterations \<noteq> - 1"
  shows "\<exists>c h'. run_latency B I iterations delay False h = Some (Inr (c, None, h')) \<and> exit_code c \<and>
    \<not> c_is_open I h' \<and> (c = EXIT_SUCCESS \<longrightarrow> last_seq h' = last_seq h + iterations)"
  using assms(1)
proof (cases rule: open_cases)
  case (refused h')
  then show ?thesis
    by (simp add: run_latency_def latency_setup_def)
next
  case (opened h1)
  let ?b = "latency_new iterations delay False"
  have "lb_iterations ?b = iterations" by (simp add: latency_new_def)
  with latency_client_returns [OF opened(2), of ?b B] assms(2) obtain ok h2
    where run: "latency_run_client B I ?b h1 = Some (Inr (ok, h2))" and h2: "invar h2"
      "ok \<longrightarrow> last_seq h2 = last_seq h1 + iterations"
    by auto
  have "latency_run B I ?b h1 = Some (Inr (ok, ?b, h2))"
    by (simp add: latency_run_def run) (simp add: latency_new_def)
  with opened close_result [OF h2(1)] h2(2) show ?thesis
    by (cases ok) (simp_all add: run_latency_def latency_setup_def latency_cleanup_def)
qed

lemma run_throughput_client:
  assumes "invar h" and "iterations \<noteq> - 1" and "4 \<le> body_size"
  shows "\<exists>c h'. run_throughput B I iterations body_size False h = Some (Inr (c, None, h')) \<and>
    exit_code c \<and> \<not> c_is_open I h' \<and> (c = EXIT_SUCCESS \<longrightarrow> last_seq h' = last_seq h + iterations)"
  using assms(1)
proof (cases rule: open_cases)
  case (refused h')
  then show ?thesis
    by (simp add: run_throughput_def throughput_setup_def)
next
  case (opened h1)
  let ?b = "throughput_new iterations body_size False"
  have b: "tb_iterations ?b = iterations" "tb_size ?b = body_size" "\<not> tb_server ?b"
    by (simp_all add: throughput_new_def)
  obtain s w where h1: "h1 = (s, w)" by (cases h1)
  from throughput_client_returns [of s w ?b B] opened(2) assms(2,3) obtain ok h2
    where run: "throughput_run_client B I ?b h1 = Some (Inr (ok, h2))" and h2: "invar h2"
      "ok \<longrightarrow> last_seq h2 = last_seq h1 + iterations"
    by (auto simp: b h1)
  have "throughput_run B I ?b h1 = Some (Inr (ok, ?b, h2))"
    by (simp add: throughput_run_def run b(3))
  with opened close_result [OF h2(1)] h2(2) show ?thesis
    by (cases ok) (simp_all add: run_throughput_def throughput_setup_def throughput_cleanup_def)
qed

lemma run_execution_client:
  assumes "invar h" and "iterations \<noteq> - 1" and "0 < iterations" and "4 \<le> body_size"
  shows "\<exists>c r h'. run_execution_time B I iterations body_size delay False h = Some (Inr (c, r, h')) \<and>
    exit_code c \<and> \<not> c_is_open I h' \<and> (c = EXIT_SUCCESS \<longrightarrow> last_seq h' = last_seq h + iterations)"
  using assms(1)
proof (cases rule: open_cases)
  case (refused h')
  then show ?thesis
    by (simp add: run_execution_time_def execution_setup_def)
next
  case (opened h1)
  let ?b = "execution_new iterations body_size delay False"
  have b: "eb_iterations ?b = iterations" "eb_size ?b = body_size" "\<not> eb_server ?b" "eb_times ?b = []"
    by (simp_all add: execution_new_def)
  obtain s w where h1: "h1 = (s, w)" by (cases h1)
  have amount: "unat (0 :: u32) + (unat body_size - 4) = unat (payload_amount body_size)"
    and small: "unat (payload_amount body_size) < 2 ^ 32"
    using payload_amount_enough [OF assms(4)] unat_u32_less [of body_size] by simp_all
  from dummy_data_length [OF amount small, of B "[]" w] obtain bs w1
    where data: "dummy_data B (payload_amount body_size) 0 [] w = Some (bs, w1)" by auto
  have inv1: "invar (s, w1)" and seq1: "last_seq (s, w1) = last_seq h"
    using opened(2,4) invar_world [of s w w1] seq_world [of s w1 w] by (simp_all add: h1)
  have "eb_iterations ?b \<noteq> - 1" using assms(2) by (simp add: b)
  from execution_client_loop_returns [OF inv1 this, of B "BinaryData \<lparr>bd_data = bs\<rparr>" 1]
  obtain ok b2 h2 where run: "execution_client_loop B I (BinaryData \<lparr>bd_data = bs\<rparr>) 1 ?b (s, w1) =
        Some (Inr (ok, b2, h2))"
    and h2: "invar h2" "(if ok then unat iterations else 1) \<le> length (eb_times b2)"
      "ok \<longrightarrow> last_seq h2 = last_seq (s, w1) + iterations"
    unfolding b rounds_start list.size(3) add_0 unsigned_of_nat ucast_id of_nat_unat by blast
  have exe: "execution_run B I ?b h1 = Some (Inr (ok, b2, h2))"
    by (simp add: execution_run_def b execution_run_client_def h1 data run)
  have "0 < unat iterations"
    using assms(3) by (simp add: unat_gt_0 word_gt_0)
  with h2(2) have "eb_times b2 \<noteq> []"
    by (auto split: if_splits)
  from compute_statistics_fields [OF this] obtain stats
    where "compute_statistics (eb_times b2) = Inr stats" by blast
  with exe opened close_result [OF h2(1)] h2(3) seq1 show ?thesis
    by (cases ok) (simp_all add: run_execution_time_def execution_setup_def execution_cleanup_def Let_def)
qed

lemma run_real_world_client:
  assumes "invar (s, w)" and "parse_trace (fst (co_contents E path w)) = Inr points"
    and "points \<noteq> []" and "length points < 2 ^ 32"
  shows "\<exists>c r h'. run_real_world E B I path threshold False (s, w) = Some (Inr (c, r, h')) \<and>
    exit_code c \<and> \<not> c_is_open I h' \<and>
    (c = EXIT_SUCCESS \<longrightarrow> last_seq h' = last_seq (s, w) + of_nat (length points))"
proof -
  obtain content w1 where content: "co_contents E path w = (content, w1)" by fastforce
  have parsed: "parse_trace content = Inr points"
    using assms(2) by (simp add: content)
  have inv1: "invar (s, w1)" and seq1: "last_seq (s, w1) = last_seq (s, w)"
    using invar_world [OF assms(1)] seq_world [of s w1 w] by blast+
  let ?b = "realworld_new points 5 False"
  have b: "rb_data ?b = points" "\<not> rb_server ?b"
    by (simp_all add: realworld_new_def)
  from inv1 show ?thesis
  proof (cases rule: open_cases)
    case (refused h')
    then show ?thesis
      by (simp add: run_real_world_def content parsed realworld_setup_def)
  next
    case (opened h1)
    obtain s1 w2 where h1: "h1 = (s1, w2)" by (cases h1)
    obtain ts w3 where clock: "get_timestamp B w2 = (ts, w3)" by fastforce
    have inv3: "invar (s1, w3)" and seq3: "last_seq (s1, w3) = last_seq (s, w)"
      using opened(2,4) invar_world [of s1 w2] seq_world [of s1 w3 w2] seq1 by (simp_all add: h1)
    have "unat (0 :: u32) + length points = length (rb_data ?b)" and "length (rb_data ?b) < 2 ^ 32"
      using assms(4) by (simp_all add: b)
    from realworld_client_loop_returns [OF inv3 this, of B]
    obtain ok b' h2 where run: "realworld_run B I ?b h1 = Some (Inr (ok, b', h2))"
      and h2: "invar h2" "ok \<longrightarrow> last_seq h2 = last_seq (s, w) + of_nat (length points)"
      using assms(3) unfolding seq3
      by (fastforce simp: realworld_run_def realworld_run_client_def estimated_time_def clock Let_def h1 b)
    with opened close_result [OF h2(1)] show ?thesis
      by (cases ok) (simp_all add: run_real_world_def content parsed realworld_setup_def
          realworld_cleanup_def Let_def)
  qed
qed

end

section \<open>Properties\<close>

text \<open>The number of arguments each kind of program needs, its own name included.\<close>

definition parameter_count :: "string \<Rightarrow> nat option" where
  "parameter_count = map_of [(''normal'', 4), (''latency'', 6), (''throughput'', 6), (''execution'', 7),
     (''realworld'', 6)]"

lemma run_kind_rejects:
  assumes "case parameter_count kind of None \<Rightarrow> True | Some n \<Rightarrow> length argv < n" and "4 \<le> length argv"
  shows "run_kind E argv kind mode h = Some (Inr (EXIT_FAILURE, None, h))"
  using assms by (auto simp: run_kind_def parameter_count_def split: if_splits)

text \<open>A command line with too few arguments, an unknown handler, an unknown kind or too few
  parameters of that kind fails with the exit code for it, and touches nothing of the system.\<close>

lemma main_rejects:
  assumes "length argv < 4 \<or> argv ! 2 \<notin> set handler_types \<or>
    (case parameter_count (argv ! 1) of None \<Rightarrow> True | Some n \<Rightarrow> length argv < n)"
  shows "main_program E argv w = Some (Inr (EXIT_FAILURE, None, w))"
proof (cases "length argv < 4")
  case True
  then show ?thesis by (simp add: main_program_def)
next
  case False
  define path where
    "path = (if argv ! 2 = ''udp'' \<or> argv ! 2 = ''tcp'' then ''127.0.0.1'' else ''ipc-handler'')"
  show ?thesis
  proof (cases "create_handler (argv ! 2) path (argv ! 3 = ''reader'')")
    case None
    with False show ?thesis
      by (simp add: main_program_def path_def Let_def)
  next
    case (Some h)
    then have "argv ! 2 \<in> set handler_types"
      using create_handler_types by blast
    with assms False
    have "run_kind E argv (argv ! 1) (argv ! 3 = ''reader'') (h, w) = Some (Inr (EXIT_FAILURE, None, h, w))"
      by (intro run_kind_rejects) auto
    with False Some create_handler_fresh [OF Some, of w] show ?thesis
      by (simp add: main_program_def path_def Let_def handler_destroy_closed)
  qed
qed

text \<open>
  The parameters of a benchmark's client that are no trouble: numbers, not the largest number of
  iterations, a size of at least four, at least one iteration where times are summarised, and a
  recording that can be read and is not empty.
\<close>

definition number_where :: "(u32 \<Rightarrow> bool) \<Rightarrow> string \<Rightarrow> bool" where
  "number_where p s = (case number_arg s of Inl _ \<Rightarrow> False | Inr n \<Rightarrow> p n)"

definition client_parameters :: "('w, 'm, 'i) command_os \<Rightarrow> string list \<Rightarrow> 'w \<Rightarrow> bool" where
  "client_parameters E argv w =
     (let kind = argv ! 1 in
      if kind = ''latency'' then
        6 \<le> length argv \<and> number_where (\<lambda>n. n \<noteq> - 1) (argv ! 4) \<and> number_where (\<lambda>_. True) (argv ! 5)
      else if kind = ''throughput'' then
        6 \<le> length argv \<and> number_where (\<lambda>n. n \<noteq> - 1) (argv ! 4) \<and> number_where (\<lambda>n. 4 \<le> n) (argv ! 5)
      else if kind = ''execution'' then
        7 \<le> length argv \<and> number_where (\<lambda>n. n \<noteq> - 1 \<and> 0 < n) (argv ! 4) \<and>
        number_where (\<lambda>n. 4 \<le> n) (argv ! 5) \<and> number_where (\<lambda>_. True) (argv ! 6)
      else if kind = ''realworld'' then
        6 \<le> length argv \<and> number_where (\<lambda>_. True) (argv ! 5) \<and>
        (case parse_trace (fst (co_contents E (argv ! 4) w)) of
           Inl _ \<Rightarrow> False
         | Inr points \<Rightarrow> points \<noteq> [] \<and> length points < 2 ^ 32)
      else False)"

lemma number_where_cases:
  assumes "number_where p s"
  obtains n where "number_arg s = Inr n" "p n"
  using assms by (auto simp: number_where_def split: sum.splits)

lemma run_kind_benchmarks:
  fixes E :: "('w, 'm, 'i) command_os"
  defines "K \<equiv> co_program E"
  shows "6 \<le> length argv \<Longrightarrow> number_arg (argv ! 4) = Inr n \<Longrightarrow> number_arg (argv ! 5) = Inr d \<Longrightarrow>
      run_kind E argv ''latency'' mode h = run_latency (po_bench K) (handler_iface K) n d mode h"
    and "6 \<le> length argv \<Longrightarrow> number_arg (argv ! 4) = Inr n \<Longrightarrow> number_arg (argv ! 5) = Inr k \<Longrightarrow>
      run_kind E argv ''throughput'' mode h = run_throughput (po_bench K) (handler_iface K) n k mode h"
    and "7 \<le> length argv \<Longrightarrow> number_arg (argv ! 4) = Inr n \<Longrightarrow> number_arg (argv ! 5) = Inr k \<Longrightarrow>
      number_arg (argv ! 6) = Inr d \<Longrightarrow>
      run_kind E argv ''execution'' mode h =
        run_execution_time (po_bench K) (handler_iface K) n k d mode h"
    and "6 \<le> length argv \<Longrightarrow> number_arg (argv ! 5) = Inr d \<Longrightarrow>
      run_kind E argv ''realworld'' mode h =
        run_real_world E (po_bench K) (handler_iface K) (argv ! 4) d mode h"
  by (simp_all add: run_kind_def K_def Let_def)

lemma run_kind_client:
  assumes "client_parameters E argv w" and "handler_inv (h, w)"
  shows "\<exists>c r h'. run_kind E argv (argv ! 1) False (h, w) = Some (Inr (c, r, h')) \<and> exit_code c \<and>
    \<not> handler_is_open h'"
proof -
  let ?B = "po_bench (co_program E)"
  consider (latency) "argv ! 1 = ''latency''" | (throughput) "argv ! 1 = ''throughput''"
    | (execution) "argv ! 1 = ''execution''" | (realworld) "argv ! 1 = ''realworld''"
    using assms(1) by (auto simp: client_parameters_def Let_def split: if_splits)
  then show ?thesis
  proof cases
    case latency
    with assms(1) have "number_where (\<lambda>n. n \<noteq> - 1) (argv ! 4)" "number_where (\<lambda>_. True) (argv ! 5)"
      and len: "6 \<le> length argv"
      by (simp_all add: client_parameters_def)
    then obtain n d where args: "number_arg (argv ! 4) = Inr n" "number_arg (argv ! 5) = Inr d" and n: "n \<noteq> - 1"
      by (elim number_where_cases)
    from bench_handlers.run_latency_client [OF assms(2) n, of ?B "co_program E" d] show ?thesis
      unfolding latency run_kind_benchmarks(1) [OF len args] by auto
  next
    case throughput
    with assms(1) have "number_where (\<lambda>n. n \<noteq> - 1) (argv ! 4)" "number_where (\<lambda>n. 4 \<le> n) (argv ! 5)"
      and len: "6 \<le> length argv"
      by (simp_all add: client_parameters_def)
    then obtain n d where args: "number_arg (argv ! 4) = Inr n" "number_arg (argv ! 5) = Inr d"
      and n: "n \<noteq> - 1" "4 \<le> d"
      by (elim number_where_cases)
    from bench_handlers.run_throughput_client [OF assms(2) n, of ?B "co_program E"] show ?thesis
      unfolding throughput run_kind_benchmarks(2) [OF len args] by auto
  next
    case execution
    with assms(1) have "number_where (\<lambda>n. n \<noteq> - 1 \<and> 0 < n) (argv ! 4)" "number_where (\<lambda>n. 4 \<le> n) (argv ! 5)"
      "number_where (\<lambda>_. True) (argv ! 6)" and len: "7 \<le> length argv"
      by (simp_all add: client_parameters_def)
    then obtain n k d where args: "number_arg (argv ! 4) = Inr n" "number_arg (argv ! 5) = Inr k"
        "number_arg (argv ! 6) = Inr d" and n: "n \<noteq> - 1" "0 < n" "4 \<le> k"
      by (elim number_where_cases conjE)
    from bench_handlers.run_execution_client [OF assms(2) n, of ?B "co_program E" d] show ?thesis
      unfolding execution run_kind_benchmarks(3) [OF len args] by auto
  next
    case realworld
    with assms(1) have "number_where (\<lambda>_. True) (argv ! 5)" and len: "6 \<le> length argv"
      and trace: "case parse_trace (fst (co_contents E (argv ! 4) w)) of Inl _ \<Rightarrow> False
         | Inr points \<Rightarrow> points \<noteq> [] \<and> length points < 2 ^ 32"
      by (simp_all add: client_parameters_def)
    then obtain d where args: "number_arg (argv ! 5) = Inr d"
      by (elim number_where_cases)
    from trace obtain points where points: "parse_trace (fst (co_contents E (argv ! 4) w)) = Inr points"
        "points \<noteq> []" "length points < 2 ^ 32"
      by (auto split: sum.splits)
    from bench_handlers.run_real_world_client [OF assms(2) points, of ?B "co_program E" d] show ?thesis
      unfolding realworld run_kind_benchmarks(4) [OF len args] by auto
  qed
qed

text \<open>C10. The loops of a client program end: with any of the ten handlers and with parameters as above - fewer
  than \<open>2\<^sup>3\<^sup>2 - 1\<close> iterations, some for the execution time benchmark, sizes from four on, a trace that can be
  read and is not empty - the program returns with one of its two exit codes, whatever values the
  system calls return, refused connections and failing writes among them.  The calls themselves are taken to
  return, as their model is a function: a call that blocks for ever, as a write to a full pipe,
  \<open>mq_send\<close> and \<open>sem_wait\<close> do without a reader, and a signal that kills the process, as the \<open>SIGPIPE\<close> of
  a \<open>send\<close> to a peer that has gone, end the run from the outside and are not part of this claim.\<close>

theorem client_programs_return:
  assumes "4 \<le> length argv" and "argv ! 2 \<in> set handler_types" and "argv ! 3 \<noteq> ''reader''"
    and "client_parameters E argv w"
  shows "\<exists>code report w'. main_program E argv w = Some (Inr (code, report, w')) \<and> exit_code code"
proof -
  define path where
    "path = (if argv ! 2 = ''udp'' \<or> argv ! 2 = ''tcp'' then ''127.0.0.1'' else ''ipc-handler'')"
  from assms(2) obtain h where h: "create_handler (argv ! 2) path False = Some h"
    using create_handler_types [of "argv ! 2" path False] by blast
  then have "handler_inv (h, w)"
    using create_handler_fresh [of _ _ _ h w] by simp
  from run_kind_client [OF assms(4) this] obtain c r h' w'
    where "run_kind E argv (argv ! 1) False (h, w) = Some (Inr (c, r, h', w'))"
      "exit_code c" "\<not> handler_is_open (h', w')"
    by auto
  then show ?thesis
    using assms(1,3) h by (simp add: main_program_def path_def Let_def handler_destroy_closed)
qed

lemma number_examples: "number_arg ''100'' = Inr 100" "number_arg ''512'' = Inr 512"
  by (simp_all add: number_arg_def stoull_def scan_number_def is_space_def is_digit_def digit_value_def
      digits_value_def)

theorem client_programs_return_witness:
  "\<forall>(E :: ('w, 'm, 'i) command_os) w. \<exists>code report w'.
     main_program E [''ipc'', ''throughput'', ''memory'', ''writer'', ''100'', ''512''] w =
       Some (Inr (code, report, w')) \<and> exit_code code"
  by (intro allI client_programs_return)
    (simp_all add: client_parameters_def handler_types_def number_where_def number_examples)

text \<open>C35. The latency server as a program: it opens the handler, measures, closes it again and reports
  exactly one latency for each iteration, with its statistics in order.  With no iteration to run
  it does not report anything: the statistics of no data are undefined behaviour.\<close>

theorem latency_run_reports:
  assumes "message_source I invar last_seq capacity waiting stall B"
    and "c_open I h = (True, h1)" and "waiting h1 ms"
    and "unat iterations \<le> length ms" and "iterations \<noteq> - 1"
  shows "if iterations = 0 then run_latency B I iterations delay True h = Some (Inl Out_Of_Bounds)
    else \<exists>stats h'. run_latency B I iterations delay True h =
        Some (Inr (EXIT_SUCCESS, Some (Latency_Report (unat iterations) delay stats), h')) \<and>
      \<not> c_is_open I h' \<and> minimum stats \<le> first_quartile stats \<and> first_quartile stats \<le> median stats \<and>
      median stats \<le> third_quartile stats \<and> third_quartile stats \<le> maximum stats"
proof -
  let ?b = "latency_new iterations delay True"
  have b: "lb_iterations ?b = iterations" "lb_latencies ?b = []" "lb_server ?b"
    by (simp_all add: latency_new_def)
  have "unat (lb_iterations ?b) \<le> length ms" and "lb_iterations ?b \<noteq> - 1"
    using assms(4,5) by (simp_all add: b)
  from message_source.latency_server_completes [OF assms(1,3) this] obtain b' h2
    where run: "latency_run B I ?b h1 = Some (Inr (True, b', h2))"
      and holds: "waiting h2 (drop (unat iterations) ms)"
      and len: "length (lb_latencies b') = unat iterations"
    unfolding latency_run_def b by (auto simp: b)
  have "bench_handler I invar last_seq capacity" and "invar h2"
    using assms(1) message_source.holds_invar [OF assms(1) holds] by (simp_all add: message_source_def)
  then have closed: "\<not> c_is_open I (snd (c_close I h2))"
    by (rule bench_handler.close_result(2))
  have unfold: "run_latency B I iterations delay True h =
      Some (and_then (compute_statistics (lb_latencies b')) (\<lambda>stats.
        Inr (EXIT_SUCCESS, Some (Latency_Report (unat iterations) delay stats), snd (c_close I h2))))"
    by (simp add: run_latency_def latency_setup_def latency_cleanup_def assms(2) run len Let_def)
  show ?thesis
  proof (cases "iterations = 0")
    case True
    with len have "lb_latencies b' = []" by simp
    with True unfold show ?thesis by (simp add: compute_statistics_def)
  next
    case False
    then have "unat iterations \<noteq> 0" by (simp add: unat_eq_0)
    with len have "lb_latencies b' \<noteq> []" by auto
    from compute_statistics_fields [OF this] obtain stats where "compute_statistics (lb_latencies b') = Inr stats"
      "minimum stats \<le> first_quartile stats" "first_quartile stats \<le> median stats"
      "median stats \<le> third_quartile stats" "third_quartile stats \<le> maximum stats"
      by auto
    with False unfold closed show ?thesis
      by (intro if_not_P [THEN iffD2]) (auto intro!: exI [of _ stats])
  qed
qed

lemma pipe_reader_opens: "c_open (fifo_iface pipe_calls) pipe_reader = (True, pipe_reader)"
  by (simp add: pipe_reader_def fifo_open_def fifo_new_def)

theorem latency_run_reports_witness:
  "\<exists>stats h'. run_latency pipe_bench (fifo_iface pipe_calls) 2 0 True pipe_reader =
      Some (Inr (EXIT_SUCCESS, Some (Latency_Report 2 0 stats), h')) \<and>
    median stats \<le> maximum stats"
proof -
  have "unat (2 :: u32) \<le> length three_pings" and "(2 :: u32) \<noteq> - 1"
    by (simp_all add: three_pings_def)
  from latency_run_reports [OF pipe_source pipe_reader_opens pipe_reader_waiting this, of 0]
  show ?thesis
    by force
qed

end
