(* ===== verification/Ring_Refinement.thy ===== *)
theory Ring_Refinement
  imports Shared_Memory_Channel Ring_Protocol
begin

text \<open>
  The code of the shared memory handler and the protocol of the two processes: every call of
  \<open>shm_write\<close> and \<open>shm_read\<close> that runs without the other process in between is a sequence of steps of
  \<open>ring_step\<close>, so that the protocol is an abstraction of the code and its actions are those of the code.
\<close>

section \<open>Calls as sequences of steps\<close>

lemma four_steps:
  "r a b \<Longrightarrow> r b c \<Longrightarrow> r c d \<Longrightarrow> r d e \<Longrightarrow> r\<^sup>*\<^sup>* a e"
  by (rule converse_rtranclp_into_rtranclp, assumption)+ (rule rtranclp.rtrancl_refl)

lemma ring_write_steps:
  assumes "g_writer g = W_Idle" and "0 < g_free g"
  shows "ring_step\<^sup>*\<^sup>* g (g\<lparr>g_free := g_free g - 1, g_slots := (g_slots g)(g_woffset g := Whole m),
    g_woffset := (g_woffset g + 1) mod TOTAL_AMOUNT, g_written := g_written g @ [m],
    g_filled := g_filled g + 1\<rparr>)"
proof -
  define g1 where "g1 = g\<lparr>g_free := g_free g - 1, g_writer := W_Granted m\<rparr>"
  define g2 where "g2 = g1\<lparr>g_slots := (g_slots g1)(g_woffset g1 := Torn), g_writer := W_Copying m\<rparr>"
  define g3 where "g3 = g2\<lparr>g_slots := (g_slots g2)(g_woffset g2 := Whole m),
    g_woffset := (g_woffset g2 + 1) mod TOTAL_AMOUNT, g_writer := W_Copied,
    g_written := g_written g2 @ [m]\<rparr>"
  define g4 where "g4 = g3\<lparr>g_filled := g_filled g3 + 1, g_writer := W_Idle\<rparr>"
  have writer: "g_writer g1 = W_Granted m" "g_writer g2 = W_Copying m" "g_writer g3 = W_Copied"
    by (simp_all add: g1_def g2_def g3_def)
  have "ring_step\<^sup>*\<^sup>* g g4"
    using write_wait [OF assms, of m] write_begin [OF writer(1)] write_end [OF writer(2)]
      write_post [OF writer(3)]
    unfolding g1_def [symmetric] g2_def [symmetric] g3_def [symmetric] g4_def [symmetric]
    by (rule four_steps)
  then show ?thesis
    using assms(1) by (cases g) (simp add: g1_def g2_def g3_def g4_def)
qed

lemma ring_read_steps:
  assumes "g_reader g = R_Idle" and "0 < g_filled g"
  shows "ring_step\<^sup>*\<^sup>* g (g\<lparr>g_filled := g_filled g - 1, g_roffset := (g_roffset g + 1) mod TOTAL_AMOUNT,
    g_read := g_read g @ [g_slots g (g_roffset g)], g_free := g_free g + 1\<rparr>)"
proof -
  define g1 where "g1 = g\<lparr>g_filled := g_filled g - 1, g_reader := R_Granted\<rparr>"
  define g2 where "g2 = g1\<lparr>g_reader := R_Copying\<rparr>"
  define g3 where "g3 = g2\<lparr>g_roffset := (g_roffset g2 + 1) mod TOTAL_AMOUNT, g_reader := R_Copied,
    g_read := g_read g2 @ [g_slots g2 (g_roffset g2)]\<rparr>"
  define g4 where "g4 = g3\<lparr>g_free := g_free g3 + 1, g_reader := R_Idle\<rparr>"
  have reader: "g_reader g1 = R_Granted" "g_reader g2 = R_Copying" "g_reader g3 = R_Copied"
    by (simp_all add: g1_def g2_def g3_def)
  have "ring_step\<^sup>*\<^sup>* g g4"
    using read_trywait [OF assms] read_begin [OF reader(1)] read_end [OF reader(2)]
      read_post [OF reader(3)]
    unfolding g1_def [symmetric] g2_def [symmetric] g3_def [symmetric] g4_def [symmetric]
    by (rule four_steps)
  then show ?thesis
    using assms(1) by (cases g) (simp add: g1_def g2_def g3_def g4_def)
qed

section \<open>The abstraction\<close>

text \<open>
  A state of the protocol between two calls represents the two handlers and the system: the offsets
  and the semaphores agree, and every slot that is whole starts with its content.
\<close>

definition slot_matches :: "byte list \<Rightarrow> slot_content \<Rightarrow> bool" where
  "slot_matches bytes c = (case c of Whole bs \<Rightarrow> prefix bs bytes | Torn \<Rightarrow> True)"

definition ring_represents ::
  "nat set \<Rightarrow> pointer set \<Rightarrow> pointer set \<Rightarrow> ('w \<Rightarrow> byte list \<times> nat \<times> nat) \<Rightarrow>
   shared_memory \<times> shared_memory \<times> 'w \<Rightarrow> ring_state \<Rightarrow> bool" where
  "ring_represents maps rsem wsem view = (\<lambda>(sw, sr, w) g.
     attached maps rsem wsem sw \<and> attached maps rsem wsem sr \<and>
     g_writer g = W_Idle \<and> g_reader g = R_Idle \<and>
     g_woffset g = sm_offset sw \<and> g_roffset g = sm_offset sr \<and>
     (case view w of (m, f, v) \<Rightarrow>
        length m = TOTAL_SIZE \<and> g_filled g = f \<and> g_free g = v \<and>
        (\<forall>k < 64. slot_matches (slot m k) (g_slots g (int k)))))"

context ring_os
begin

lemma write_simulated:
  assumes rep: "ring_represents maps rsem wsem view (sw, sr, w) g"
    and wr: "shm_write K obj (sw, w) = Inr (ok, sw', w')"
  shows "\<exists>g'. ring_step\<^sup>*\<^sup>* g g' \<and> ring_represents maps rsem wsem view (sw', sr, w') g' \<and>
    (if ok then \<exists>ts. g_written g' = g_written g @ [message_bytes (sm_last_id sw') ts obj] else g' = g)"
proof -
  obtain m f v where view: "view w = (m, f, v)" by (metis prod_cases3)
  obtain a where a: "sm_address sw = Some a" "a \<in> maps"
    and ptr: "sm_writer sw \<in> wsem" "sm_reader sw \<in> rsem"
    and sw: "sm_fd sw \<noteq> - 1" "length (sm_buffer sw) = 528" "0 \<le> sm_offset sw" "sm_offset sw < 64"
    using rep by (auto simp: ring_represents_def attached_def)
  have g: "g_writer g = W_Idle" "g_reader g = R_Idle" "g_woffset g = sm_offset sw" "g_filled g = f"
    "g_free g = v" and len: "length m = 33792"
    and slots: "\<And>k. k < 64 \<Longrightarrow> slot_matches (slot m k) (g_slots g (int k))"
    using rep by (simp_all add: ring_represents_def view)
  obtain ts w1 where clock: "os_clock K w = (ts, w1)" by (cases "os_clock K w")
  obtain res w2 where wait: "os_sem_wait K (sm_writer sw) w1 = (res, w2)" by fastforce
  have view1: "view w1 = (m, f, v)"
    using clock_view [OF clock] view by simp
  note waited = wait_view [OF ptr(1) view1 wait]
  note write_eq = shm_write_eq [OF sw(2,1) a(1) sw(3,4) clock wait, of obj]
  show ?thesis
  proof (cases ok)
    case True
    with wr have fits: "length (object_bytes obj) \<le> 512" and none: "res = None"
      by (auto simp: write_eq Let_def split: if_splits)
    let ?bs = "message_bytes (sm_last_id sw + 1) ts obj" and ?j = "nat (sm_offset sw)"
    have short: "length ?bs \<le> 528" using fits by simp
    have room: "?j * 528 + length ?bs \<le> length m"
      using slot_in_bounds [OF sw(3,4) short] len by simp
    have view2: "view w2 = (m, f, v - 1)" "0 < v"
      using waited none by simp_all
    from post_reader_view [OF ptr(2) mem_write_view [OF a(2) view2(1) room]] wr fits none
    have view': "view w' = (splice m (?j * 528) ?bs, f + 1, v - 1)"
      and sw': "sw' = sw\<lparr>sm_last_id := sm_last_id sw + 1,
        sm_buffer := staged (sm_last_id sw + 1) ts obj (sm_buffer sw), sm_offset := (sm_offset sw + 1) mod 64\<rparr>"
      using True by (simp_all add: write_eq Let_def)
    define g' where "g' = g\<lparr>g_free := g_free g - 1, g_slots := (g_slots g)(g_woffset g := Whole ?bs),
      g_woffset := (g_woffset g + 1) mod TOTAL_AMOUNT, g_written := g_written g @ [?bs],
      g_filled := g_filled g + 1\<rparr>"
    have steps: "ring_step\<^sup>*\<^sup>* g g'"
      unfolding g'_def by (rule ring_write_steps) (use g view2(2) in simp_all)
    have j: "?j < 64" "int ?j = sm_offset sw" using sw(3,4) by simp_all
    have "slot_matches (slot (splice m (?j * 528) ?bs) k) (g_slots g' (int k))" if k: "k < 64" for k
    proof (cases "k = ?j")
      case True
      with j g(3) show ?thesis
        by (simp add: slot_splice_same [OF j(1) len short] slot_matches_def g'_def)
    next
      case False
      then have "int k \<noteq> g_woffset g" using j g(3) by auto
      with slots [OF k] slot_splice_other [OF j(1) k _ len short] False show ?thesis
        by (simp add: g'_def)
    qed
    moreover have "attached maps rsem wsem sw'"
      using rep fits by (simp add: ring_represents_def attached_def sw')
    moreover have "length (splice m (?j * 528) ?bs) = 33792"
      using room len by simp
    ultimately have "ring_represents maps rsem wsem view (sw', sr, w') g'"
      using rep g by (simp add: ring_represents_def view' g'_def sw')
    with steps True show ?thesis
      by (intro exI [of _ g']) (simp add: g'_def sw' exI [of _ ts])
  next
    case False
    then have "view w' = (m, f, v)" and "attached maps rsem wsem sw'" and "sm_offset sw' = sm_offset sw"
      using wr waited view1 rep by (auto simp: write_eq Let_def ring_represents_def attached_def split: if_splits)
    with rep have "ring_represents maps rsem wsem view (sw', sr, w') g"
      by (simp add: ring_represents_def view)
    with False show ?thesis by auto
  qed
qed

lemma read_simulated:
  assumes rep: "ring_represents maps rsem wsem view (sw, sr, w) g"
    and rd: "shm_read K (sr, w) = Inr (r, sr', w')"
  shows "\<exists>g'. ring_step\<^sup>*\<^sup>* g g' \<and> ring_represents maps rsem wsem view (sw, sr', w') g' \<and>
    (if g_filled g = 0 then r = Inl NO_DATA_AVAILABLE \<and> g' = g
     else g_written g' = g_written g \<and> g_read g' = g_read g @ [g_slots g (g_roffset g)] \<and>
       (\<forall>x. g_slots g (g_roffset g) = Whole (wire x) \<and> sound_message x \<longrightarrow> r = Inr x))"
proof -
  obtain m f v where view: "view w = (m, f, v)" by (metis prod_cases3)
  obtain a where a: "sm_address sr = Some a" "a \<in> maps"
    and ptr: "sm_writer sr \<in> wsem" "sm_reader sr \<in> rsem"
    and sr: "sm_fd sr \<noteq> - 1" "length (sm_buffer sr) = 528" "0 \<le> sm_offset sr" "sm_offset sr < 64"
    using rep by (auto simp: ring_represents_def attached_def)
  have g: "g_writer g = W_Idle" "g_reader g = R_Idle" "g_roffset g = sm_offset sr" "g_filled g = f"
    "g_free g = v" and len: "length m = 33792"
    and slots: "\<And>k. k < 64 \<Longrightarrow> slot_matches (slot m k) (g_slots g (int k))"
    using rep by (simp_all add: ring_represents_def view)
  from ptr(2) view show ?thesis
  proof (cases rule: trywait_cases)
    case (empty w1)
    with rd sr(1) have "r = Inl NO_DATA_AVAILABLE" "sr' = sr" "w' = w1"
      by (simp_all add: shm_read_def)
    with rep empty(1,3) g(4) show ?thesis
      by (intro exI [of _ g]) (simp add: ring_represents_def)
  next
    case (filled w1)
    let ?j = "nat (sm_offset sr)"
    have j: "?j < 64" "int ?j = sm_offset sr" using sr(3,4) by simp_all
    have "?j * 528 + 528 \<le> length m"
      using slot_end [OF j(1)] len by simp
    from mem_read_view [OF a(2) filled(3) this]
    have read: "os_mem_read K a (?j * 528) 528 w1 = slot m ?j"
      by (simp add: slot_def)
    note eq = shm_read_slot [OF sr(1,2) a(1) sr(3,4) filled(2) read length_slot [OF j(1) len]]
    let ?h = "header_of_bytes (take 16 (slot m ?j))"
    have small: "unat (h_body_size ?h) \<le> 512"
      using rd unfolding eq by (simp add: Let_def split: if_splits)
    with rd have r: "r = of_body ?h (decode_object (h_type ?h) (take (unat (h_body_size ?h)) (drop 16 (slot m ?j))))"
      and sr': "sr' = sr\<lparr>sm_buffer := slot m ?j, sm_offset := (sm_offset sr + 1) mod 64\<rparr>"
      and w': "w' = os_sem_post K (sm_writer sr) w1"
      unfolding eq by (simp_all add: Let_def)
    have view': "view w' = (m, f - 1, v + 1)"
      unfolding w' by (rule post_writer_view [OF ptr(1) filled(3)])
    define g' where "g' = g\<lparr>g_filled := g_filled g - 1, g_roffset := (g_roffset g + 1) mod TOTAL_AMOUNT,
      g_read := g_read g @ [g_slots g (g_roffset g)], g_free := g_free g + 1\<rparr>"
    have steps: "ring_step\<^sup>*\<^sup>* g g'"
      unfolding g'_def by (rule ring_read_steps) (use g filled(1) in simp_all)
    have "attached maps rsem wsem sr'"
      using rep length_slot [OF j(1) len] by (simp add: ring_represents_def attached_def sr')
    then have "ring_represents maps rsem wsem view (sw, sr', w') g'"
      using rep g by (simp add: ring_represents_def view view' g'_def sr')
    moreover have "r = Inr x" if "g_slots g (g_roffset g) = Whole (wire x)" "sound_message x" for x
    proof -
      have "slot_matches (slot m ?j) (Whole (wire x))"
        using slots [OF j(1)] that(1) g(3) j(2) by simp
      then obtain pad where "slot m ?j = wire x @ pad"
        by (auto simp: slot_matches_def prefix_def)
      with that(2) show ?thesis
        unfolding r by (cases x) simp
    qed
    ultimately show ?thesis
      using steps filled(1) g(4) by (intro exI [of _ g']) (simp add: g'_def)
  qed
qed

end

lemma ring_reachable_steps: "ring_step\<^sup>*\<^sup>* g g' \<Longrightarrow> ring_reachable g \<Longrightarrow> ring_reachable g'"
  by (induction rule: rtranclp_induct) (auto intro: ring_reachable.intros)

lemma next_read_is_whole:
  assumes "ring_inv g" and "g_reader g = R_Idle" and "0 < g_filled g"
  shows "length (g_read g) < length (g_written g)"
    and "g_slots g (g_roffset g) = Whole (g_written g ! length (g_read g))"
proof -
  have "0 < in_ring g"
    using assms by (auto simp: ring_inv_def)
  then show less: "length (g_read g) < length (g_written g)"
    by (simp add: in_ring_def)
  with assms(1) show "g_slots g (g_roffset g) = Whole (g_written g ! length (g_read g))"
    by (simp add: ring_inv_def)
qed

section \<open>Property\<close>

text \<open>C8. The shared memory handler refines the protocol of the ring: from two handlers that a reachable
  state of the protocol represents, a write that returns leads to handlers that a reachable state
  represents again, having made exactly the writer's steps for the bytes of its message if it is
  successful and none otherwise; a read that returns makes the reader's steps and yields the oldest
  message that was not read yet, or makes none and reports that there is no data.\<close>

theorem shm_refines_ring:
  assumes "ring_os K maps rsem wsem view"
    and "ring_represents maps rsem wsem view (sw, sr, w) g" and "ring_reachable g"
  shows "(\<forall>obj ok sw' w'. shm_write K obj (sw, w) = Inr (ok, sw', w') \<longrightarrow>
      (\<exists>g'. ring_step\<^sup>*\<^sup>* g g' \<and> ring_reachable g' \<and>
        ring_represents maps rsem wsem view (sw', sr, w') g' \<and>
        (if ok then \<exists>ts. g_written g' = g_written g @ [message_bytes (sm_last_id sw') ts obj]
         else g' = g))) \<and>
    (\<forall>r sr' w'. shm_read K (sr, w) = Inr (r, sr', w') \<longrightarrow>
      (\<exists>g'. ring_step\<^sup>*\<^sup>* g g' \<and> ring_reachable g' \<and>
        ring_represents maps rsem wsem view (sw, sr', w') g' \<and>
        (if g_filled g = 0 then r = Inl NO_DATA_AVAILABLE \<and> g' = g
         else length (g_read g) < length (g_written g) \<and>
           g_read g' = g_read g @ [Whole (g_written g ! length (g_read g))] \<and>
           (\<forall>x. g_written g ! length (g_read g) = wire x \<and> sound_message x \<longrightarrow> r = Inr x))))"
proof (intro conjI allI impI, goal_cases)
  case (1 obj ok sw' w')
  from ring_os.write_simulated [OF assms(1,2) 1] show ?case
    using ring_reachable_steps [OF _ assms(3)] by blast
next
  case (2 r sr' w')
  have idle: "g_reader g = R_Idle"
    using assms(2) by (simp add: ring_represents_def)
  note whole = next_read_is_whole [OF ring_reachable_inv [OF assms(3)] idle]
  from ring_os.read_simulated [OF assms(1,2) 2] obtain g' where g': "ring_step\<^sup>*\<^sup>* g g'"
    "ring_represents maps rsem wsem view (sw, sr', w') g'"
    "if g_filled g = 0 then r = Inl NO_DATA_AVAILABLE \<and> g' = g
     else g_written g' = g_written g \<and> g_read g' = g_read g @ [g_slots g (g_roffset g)] \<and>
       (\<forall>x. g_slots g (g_roffset g) = Whole (wire x) \<and> sound_message x \<longrightarrow> r = Inr x)"
    by blast
  with ring_reachable_steps [OF g'(1) assms(3)] whole show ?case
    by (intro exI [of _ g']) (auto split: if_splits)
qed

text \<open>The witness: the two handlers on a fresh ring, and the protocol's start.\<close>

definition ring_end :: "bool \<Rightarrow> shared_memory" where
  "ring_end server = (shm_new [] server False)\<lparr>sm_fd := 5, sm_address := Some 1,
     sm_reader := Some 2, sm_writer := Some 3\<rparr>"

definition ring_fresh :: ring_kernel where
  "ring_fresh = \<lparr>rk_time = 1000, rk_mem = replicate 33792 0, rk_filled = 0, rk_free = 64\<rparr>"

theorem shm_refines_ring_witness:
  "\<exists>ok sw' w' g'. shm_write ring_calls Ping (ring_end False, ring_fresh) = Inr (ok, sw', w') \<and>
    ring_step\<^sup>*\<^sup>* ring_start g' \<and> ring_represents {1} {Some 2} {Some 3} ring_view (sw', ring_end True, w') g'"
proof -
  have rep: "ring_represents {1} {Some 2} {Some 3} ring_view (ring_end False, ring_end True, ring_fresh) ring_start"
    by (simp add: ring_represents_def attached_def ring_end_def shm_new_def ring_view_def ring_fresh_def
        ring_start_def slot_matches_def slot_def)
  have "shm_inv (ring_end False, ring_fresh)"
    by (simp add: shm_inv_def ring_end_def shm_new_def)
  from shm.write_law [OF this, of ring_calls Ping] obtain ok sw' w'
    where "shm_write ring_calls Ping (ring_end False, ring_fresh) = Inr (ok, sw', w')"
    by auto
  with shm_refines_ring [OF kernel_ring.ring_os_axioms rep reach_start] show ?thesis
    by blast
qed

end
