(* ===== verification/File_Refinement.thy ===== *)
theory File_Refinement
  imports Shared_File_Channel Ring_Refinement
begin

text \<open>
  The shared file handler and the protocol of the ring: every call of \<open>file_write\<close> and \<open>file_read\<close> that
  runs without the other process in between is a sequence of steps of \<open>ring_step\<close>, although the file
  starts empty and grows with its messages.
\<close>

section \<open>The abstraction\<close>

text \<open>
  The offsets and the semaphores agree, and the file has, in the slot of each message that was written
  and not read, the bytes of this message.
\<close>

definition unread_in_file :: "byte list \<Rightarrow> ring_state \<Rightarrow> bool" where
  "unread_in_file m g \<longleftrightarrow> (\<forall>i. length (g_read g) \<le> i \<and> i < length (g_written g) \<longrightarrow>
     g_written g ! i \<noteq> [] \<and> length (g_written g ! i) \<le> BUFFER_SIZE \<and>
     file_bytes m (i mod 64) (length (g_written g ! i)) = g_written g ! i)"

definition file_represents ::
  "nat set \<Rightarrow> pointer set \<Rightarrow> pointer set \<Rightarrow> ('w \<Rightarrow> byte list \<times> nat \<times> nat) \<Rightarrow>
   shared_file \<times> shared_file \<times> 'w \<Rightarrow> ring_state \<Rightarrow> bool" where
  "file_represents handles rsem wsem view = (\<lambda>(sw, sr, w) g.
     file_attached handles rsem wsem sw \<and> file_attached handles rsem wsem sr \<and>
     g_writer g = W_Idle \<and> g_reader g = R_Idle \<and>
     g_woffset g = sf_offset sw \<and> g_roffset g = sf_offset sr \<and>
     (case view w of (m, f, v) \<Rightarrow> g_filled g = f \<and> g_free g = v \<and> unread_in_file m g))"

text \<open>A message in the writer's slot, which is none of those that were not read.\<close>

lemma unread_in_file_write:
  assumes "unread_in_file m g" and inv: "ring_inv g" and idle: "g_writer g = W_Idle" "0 < g_free g"
    and bs: "bs \<noteq> []" "length bs \<le> 528"
    and g': "g_written g' = g_written g @ [bs]" "g_read g' = g_read g"
  shows "unread_in_file (file_splice m (length (g_written g) mod 64 * 528) bs) g'"
  unfolding unread_in_file_def
proof (intro allI impI)
  fix i assume i: "length (g_read g') \<le> i \<and> i < length (g_written g')"
  let ?n = "length (g_written g)"
  show "g_written g' ! i \<noteq> [] \<and> length (g_written g' ! i) \<le> BUFFER_SIZE \<and>
    file_bytes (file_splice m (?n mod 64 * 528) bs) (i mod 64) (length (g_written g' ! i)) = g_written g' ! i"
  proof (cases "i = ?n")
    case True
    with bs g' show ?thesis
      by (simp add: file_bytes_same)
  next
    case False
    with i g' have lt: "length (g_read g) \<le> i" "i < ?n" by simp_all
    with assms(1) have old: "g_written g ! i \<noteq> []" "length (g_written g ! i) \<le> 528"
        "file_bytes m (i mod 64) (length (g_written g ! i)) = g_written g ! i"
      by (simp_all add: unread_in_file_def)
    have "in_ring g < 64"
      using inv idle(2) by (auto simp: ring_inv_def)
    then have "?n - i < 64"
      using lt by (simp add: in_ring_def)
    from ring_positions_differ [of 0 "?n - i" i] this lt have other: "?n mod 64 \<noteq> i mod 64"
      by simp
    have "0 < length (g_written g ! i)"
      using old(1) by simp
    from file_bytes_other [OF other bs(2) old(2) this] old lt g' show ?thesis
      by (simp add: nth_append)
  qed
qed

lemma unread_in_file_read:
  assumes "unread_in_file m g" and "g_written g' = g_written g" and "g_read g' = g_read g @ [c]"
  shows "unread_in_file m g'"
  using assms by (simp add: unread_in_file_def)

section \<open>The simulation\<close>

context file_ring_os
begin

lemma file_write_simulated:
  assumes rep: "file_represents handles rsem wsem view (sw, sr, w) g" and inv: "ring_inv g"
    and wr: "file_write K obj (sw, w) = Inr (ok, sw', w')"
  shows "\<exists>g'. ring_step\<^sup>*\<^sup>* g g' \<and> file_represents handles rsem wsem view (sw', sr, w') g' \<and>
    (if ok then \<exists>ts. g_written g' = g_written g @ [message_bytes (sf_last_id sw') ts obj] else g' = g)"
proof -
  obtain m f v where view: "view w = (m, f, v)" by (metis prod_cases3)
  obtain a where a: "fs_handle (sf_file sw) = Some a" "a \<in> handles"
    and ptr: "sf_writer sw \<in> wsem" "sf_reader sw \<in> rsem"
    and sw: "length (sf_buffer sw) = 528" "fs_pending (sf_file sw) = []"
      "0 \<le> sf_offset sw" "sf_offset sw < 64"
    using rep by (auto simp: file_represents_def file_attached_def)
  have g: "g_writer g = W_Idle" "g_reader g = R_Idle" "g_woffset g = sf_offset sw" "g_filled g = f"
    "g_free g = v" and unread: "unread_in_file m g"
    using rep by (simp_all add: file_represents_def view)
  have pos: "nat (sf_offset sw) = length (g_written g) mod 64"
    using inv g(3) by (simp add: ring_inv_def nat_mod_distrib)
  let ?pos = "nat (sf_offset sw) * 528"
  obtain ts w1 where clock: "os_clock K w = (ts, w1)" by (cases "os_clock K w")
  obtain w2 where seek: "os_fseek K a ?pos w1 = (True, w2)" and "view w2 = view w1"
    using fseek_view [OF a(2)] by blast
  with clock_view [OF clock] view have view2: "view w1 = (m, f, v)" "view w2 = (m, f, v)" by simp_all
  obtain res w3 where wait: "os_sem_wait K (sf_writer sw) w2 = (res, w3)" by fastforce
  note waited = wait_view [OF ptr(1) view2(2) wait]
  let ?bs = "message_bytes (sf_last_id sw + 1) ts obj"
  obtain m' f' v' where view3: "view w3 = (m', f', v')" by (metis prod_cases3)
  obtain w4 where put: "os_fwrite K a ?pos ?bs w3 = (True, w4)"
    and view4: "view w4 = (file_splice m' ?pos ?bs, f', v')"
    using fwrite_view [OF a(2) view3] by blast
  note write_eq = file_write_slot [OF sw(1) a(1) sw(2) clock seek wait put]
  show ?thesis
  proof (cases ok)
    case True
    with wr have fits: "length (object_bytes obj) \<le> 512" and none: "res = None"
      by (auto simp: write_eq Let_def split: if_splits)
    with waited view3 have kept: "m' = m" "f' = f" "v' = v - 1" "0 < v" by auto
    from wr True fits none
    have sw': "sw' = sw\<lparr>sf_last_id := sf_last_id sw + 1,
        sf_buffer := staged (sf_last_id sw + 1) ts obj (sf_buffer sw),
        sf_file := (at_slot sw)\<lparr>fs_pos := ?pos + length ?bs\<rparr>, sf_offset := (sf_offset sw + 1) mod 64\<rparr>"
      and w': "w' = os_sem_post K (sf_reader sw) w4"
      by (simp_all add: write_eq Let_def)
    have view': "view w' = (file_splice m ?pos ?bs, f + 1, v - 1)"
      unfolding w' by (rule post_reader_view [OF ptr(2) view4 [unfolded kept(1-3)]])
    define g' where "g' = g\<lparr>g_free := g_free g - 1, g_slots := (g_slots g)(g_woffset g := Whole ?bs),
      g_woffset := (g_woffset g + 1) mod TOTAL_AMOUNT, g_written := g_written g @ [?bs],
      g_filled := g_filled g + 1\<rparr>"
    have steps: "ring_step\<^sup>*\<^sup>* g g'"
      unfolding g'_def by (rule ring_write_steps) (use g kept(4) in simp_all)
    have bs: "?bs \<noteq> []" "length ?bs \<le> 528"
      using length_message_bytes [of "sf_last_id sw + 1" ts obj] fits
      by (auto simp flip: length_greater_0_conv)
    have "unread_in_file (file_splice m ?pos ?bs) g'"
      unfolding pos by (rule unread_in_file_write [OF unread inv g(1) _ bs]) (simp_all add: g g'_def kept(4))
    moreover have "file_attached handles rsem wsem sw'"
      using rep fits by (simp add: file_represents_def file_attached_def sw')
    ultimately have "file_represents handles rsem wsem view (sw', sr, w') g'"
      using rep g by (simp add: file_represents_def view' g'_def sw')
    with steps True show ?thesis
      by (intro exI [of _ g']) (simp add: g'_def sw' exI [of _ ts])
  next
    case False
    then have "view w' = (m, f, v)" and "file_attached handles rsem wsem sw'" and "sf_offset sw' = sf_offset sw"
      using wr waited view2 rep
      by (auto simp: write_eq Let_def file_represents_def file_attached_def split: if_splits)
    with rep have "file_represents handles rsem wsem view (sw', sr, w') g"
      by (simp add: file_represents_def view)
    with False show ?thesis by auto
  qed
qed

lemma file_read_simulated:
  assumes rep: "file_represents handles rsem wsem view (sw, sr, w) g" and inv: "ring_inv g"
    and rd: "file_read K (sr, w) = Inr (r, sr', w')"
  shows "\<exists>g'. ring_step\<^sup>*\<^sup>* g g' \<and> file_represents handles rsem wsem view (sw, sr', w') g' \<and>
    (if g_filled g = 0 then r = Inl NO_DATA_AVAILABLE \<and> g' = g
     else length (g_read g) < length (g_written g) \<and>
       g_read g' = g_read g @ [Whole (g_written g ! length (g_read g))] \<and>
       (\<forall>x. g_written g ! length (g_read g) = wire x \<and> sound_message x \<longrightarrow> r = Inr x))"
proof -
  obtain m f v where view: "view w = (m, f, v)" by (metis prod_cases3)
  obtain a where a: "fs_handle (sf_file sr) = Some a" "a \<in> handles"
    and ptr: "sf_writer sr \<in> wsem" "sf_reader sr \<in> rsem"
    and sr: "length (sf_buffer sr) = 528" "fs_pending (sf_file sr) = []"
      "0 \<le> sf_offset sr" "sf_offset sr < 64"
    using rep by (auto simp: file_represents_def file_attached_def)
  have opened: "fstream_is_open (sf_file sr)"
    by (simp add: fstream_is_open_def a)
  have g: "g_writer g = W_Idle" "g_reader g = R_Idle" "g_roffset g = sf_offset sr" "g_filled g = f"
    "g_free g = v" and unread: "unread_in_file m g"
    using rep by (simp_all add: file_represents_def view)
  from ptr(2) view show ?thesis
  proof (cases rule: trywait_cases)
    case (empty w1)
    with rd opened have "r = Inl NO_DATA_AVAILABLE" "sr' = sr" "w' = w1"
      by (simp_all add: file_read_def)
    with rep empty(1,3) g(4) show ?thesis
      by (intro exI [of _ g]) (simp add: file_represents_def)
  next
    case (filled w1)
    let ?j = "nat (sf_offset sr)" and ?n = "length (g_read g)"
    have "0 < g_filled g"
      using filled(1) g(4) by simp
    note whole = next_read_is_whole [OF inv g(2) this]
    have j: "?j = ?n mod 64"
      using inv g(3) by (simp add: ring_inv_def nat_mod_distrib)
    obtain w2 where seek: "os_fseek K a (?j * 528) w1 = (True, w2)" and "view w2 = view w1"
      using fseek_view [OF a(2)] by blast
    with filled(3) have view2: "view w2 = (m, f - 1, v)" by simp
    let ?bytes = "take 528 (drop (?j * 528) m)"
    obtain w3 where fread: "os_fread K a (?j * 528) 528 w2 = (Some ?bytes, w3)" and "view w3 = view w2"
      using fread_view [OF a(2) view2] by blast
    with view2 have view3: "view w3 = (m, f - 1, v)" by simp
    have short: "length ?bytes \<le> 528" by simp
    define buf where "buf = ?bytes @ drop (length ?bytes) (sf_buffer sr)"
    note eq = file_read_slot [OF sr(1) a(1) sr(2) filled(2) seek fread short, folded buf_def]
    let ?h = "header_of_bytes (take 16 buf)"
    have small: "unat (h_body_size ?h) \<le> 512"
      using rd unfolding eq by (simp add: Let_def split: if_splits)
    with rd have r: "r = of_body ?h (decode_object (h_type ?h) (take (unat (h_body_size ?h)) (drop 16 buf)))"
      and sr': "sr' = sr\<lparr>sf_file := (at_slot sr)\<lparr>fs_pos := ?j * 528 + length ?bytes,
          fs_fail := length ?bytes < 528, fs_eof := length ?bytes < 528\<rparr>,
        sf_buffer := buf, sf_offset := (sf_offset sr + 1) mod 64\<rparr>"
      and w': "w' = os_sem_post K (sf_writer sr) w3"
      unfolding eq by (simp_all add: Let_def)
    have view': "view w' = (m, f - 1, v + 1)"
      unfolding w' by (rule post_writer_view [OF ptr(1) view3])
    define g' where "g' = g\<lparr>g_filled := g_filled g - 1, g_roffset := (g_roffset g + 1) mod TOTAL_AMOUNT,
      g_read := g_read g @ [g_slots g (g_roffset g)], g_free := g_free g + 1\<rparr>"
    have steps: "ring_step\<^sup>*\<^sup>* g g'"
      unfolding g'_def by (rule ring_read_steps) (use g filled(1) in simp_all)
    have "length buf = 528"
      using sr(1) short by (simp add: buf_def)
    then have "file_attached handles rsem wsem sr'"
      using a ptr sr by (simp add: file_attached_def sr')
    moreover have "unread_in_file m g'"
      by (rule unread_in_file_read [OF unread, where c = "g_slots g (g_roffset g)"]) (simp_all add: g'_def)
    ultimately have "file_represents handles rsem wsem view (sw, sr', w') g'"
      using rep g by (simp add: file_represents_def view view' g'_def sr')
    moreover have "r = Inr x" if "g_written g ! ?n = wire x" "sound_message x" for x
    proof -
      have "file_bytes m ?j (length (wire x)) = wire x"
        using unread whole(1) that(1) by (auto simp: unread_in_file_def j dest: spec [of _ ?n])
      then have "wire x = take (length (wire x)) ?bytes"
        using length_wire [OF that(2)] by (simp add: file_bytes_def min_absorb1)
      then obtain pad where "?bytes = wire x @ pad"
        by (metis append_take_drop_id)
      with that(2) show ?thesis
        unfolding r by (cases x) (simp add: buf_def)
    qed
    ultimately show ?thesis
      using steps filled(1) g(4) whole by (intro exI [of _ g']) (simp add: g'_def)
  qed
qed

end

section \<open>Property\<close>

text \<open>C9. The shared file handler refines the protocol of the ring: from two handlers that a reachable state
  of the protocol represents, a write that returns leads to handlers that a reachable state represents
  again, having made exactly the writer's steps for the bytes of its message if it is successful and
  none otherwise; a read that returns makes the reader's steps and yields the oldest message that was
  not read yet, although the file may end within its slot, or makes none and reports that there is no
  data.\<close>

theorem file_refines_ring:
  assumes "file_ring_os K handles rsem wsem view"
    and "file_represents handles rsem wsem view (sw, sr, w) g" and "ring_reachable g"
  shows "(\<forall>obj ok sw' w'. file_write K obj (sw, w) = Inr (ok, sw', w') \<longrightarrow>
      (\<exists>g'. ring_step\<^sup>*\<^sup>* g g' \<and> ring_reachable g' \<and>
        file_represents handles rsem wsem view (sw', sr, w') g' \<and>
        (if ok then \<exists>ts. g_written g' = g_written g @ [message_bytes (sf_last_id sw') ts obj]
         else g' = g))) \<and>
    (\<forall>r sr' w'. file_read K (sr, w) = Inr (r, sr', w') \<longrightarrow>
      (\<exists>g'. ring_step\<^sup>*\<^sup>* g g' \<and> ring_reachable g' \<and>
        file_represents handles rsem wsem view (sw, sr', w') g' \<and>
        (if g_filled g = 0 then r = Inl NO_DATA_AVAILABLE \<and> g' = g
         else length (g_read g) < length (g_written g) \<and>
           g_read g' = g_read g @ [Whole (g_written g ! length (g_read g))] \<and>
           (\<forall>x. g_written g ! length (g_read g) = wire x \<and> sound_message x \<longrightarrow> r = Inr x))))"
proof (intro conjI allI impI, goal_cases)
  case (1 obj ok sw' w')
  from file_ring_os.file_write_simulated [OF assms(1,2) ring_reachable_inv [OF assms(3)] 1] show ?case
    using ring_reachable_steps [OF _ assms(3)] by blast
next
  case (2 r sr' w')
  from file_ring_os.file_read_simulated [OF assms(1,2) ring_reachable_inv [OF assms(3)] 2] show ?case
    using ring_reachable_steps [OF _ assms(3)] by blast
qed

text \<open>The witness: the two handlers on an empty file, and the protocol's start.\<close>

definition file_end :: "bool \<Rightarrow> shared_file" where
  "file_end server = (file_new [] server)\<lparr>sf_file := fstream_closed\<lparr>fs_handle := Some 7\<rparr>,
     sf_reader := Some 2, sf_writer := Some 3\<rparr>"

definition file_fresh :: file_kernel where
  "file_fresh = \<lparr>fk_time = 1000, fk_data = [], fk_filled = 0, fk_free = 64\<rparr>"

theorem file_refines_ring_witness:
  "\<exists>ok sw' w' g'. file_write file_calls Ping (file_end False, file_fresh) = Inr (ok, sw', w') \<and>
    ring_step\<^sup>*\<^sup>* ring_start g' \<and>
    file_represents {7} {Some 2} {Some 3} file_view (sw', file_end True, w') g'"
proof -
  have rep: "file_represents {7} {Some 2} {Some 3} file_view (file_end False, file_end True, file_fresh) ring_start"
    by (simp add: file_represents_def file_attached_def file_end_def file_new_def fstream_closed_def
        file_view_def file_fresh_def ring_start_def unread_in_file_def)
  have "file_inv (file_end False, file_fresh)"
    by (simp add: file_inv_def file_end_def file_new_def)
  from sfile.write_law [OF this, of file_calls Ping] obtain ok sw' w'
    where "file_write file_calls Ping (file_end False, file_fresh) = Inr (ok, sw', w')"
    by auto
  with file_refines_ring [OF kernel_file.file_ring_os_axioms rep reach_start] show ?thesis
    by blast
qed

end
