(* ===== verification/Benchmark_Frames.thy ===== *)
theory Benchmark_Frames
  imports Command_Line
begin

text \<open>
  What every call of a handler keeps, every run of a benchmark keeps: a fact about a handler and the
  world that survives the methods of the interface and the calls that the benchmarks make in between
  survives all eight loops of the benchmarks, whenever they return, and the functions of src/main.cpp
  that run them.
\<close>

lemma run_then_Inr:
  "run_then m f = Some (Inr y) \<longleftrightarrow> (\<exists>x. m = Some (Inr x) \<and> f x = Some (Inr y))"
  by (cases m) (auto simp: run_then_def split: sum.splits)

locale call_frame =
  fixes I :: "('s \<times> 'w) comm_iface"
    and B :: "'w bench_os"
    and Q :: "'s \<times> 'w \<Rightarrow> bool"
  assumes await_frame: "\<lbrakk>Q h; c_await_data I h = (b, h')\<rbrakk> \<Longrightarrow> Q h'"
    and write_frame: "\<lbrakk>Q h; c_write I obj h = Inr (b, h')\<rbrakk> \<Longrightarrow> Q h'"
    and read_frame: "\<lbrakk>Q h; c_read I h = Some (Inr (r, h'))\<rbrakk> \<Longrightarrow> Q h'"
    and clock_frame: "\<lbrakk>Q (s, w); os_clock B w = (ts, w')\<rbrakk> \<Longrightarrow> Q (s, w')"
    and sleep_for_frame: "Q (s, w) \<Longrightarrow> Q (s, os_sleep_for B d w)"
    and sleep_until_frame: "Q (s, w) \<Longrightarrow> Q (s, os_sleep_until B ts w)"
    and rand_frame: "\<lbrakk>Q (s, w); os_rand B w = (x, w')\<rbrakk> \<Longrightarrow> Q (s, w')"
begin

lemma timestamp_frame: "\<lbrakk>Q (s, w); get_timestamp B w = (ts, w')\<rbrakk> \<Longrightarrow> Q (s, w')"
  unfolding get_timestamp_def by (rule clock_frame)

text \<open>Waiting and the dummy data.\<close>

lemma await_loop_frame:
  assumes "await_loop I more_data h = Some h'" and "Q h"
  shows "Q h'"
  by (rule await_loop.raw_induct [where P = "\<lambda>J m h h'. J = I \<longrightarrow> Q h \<longrightarrow> Q h'",
      OF _ assms(1), rule_format, OF _ refl assms(2)])
    (auto split: if_splits prod.splits dest: await_frame)

lemma throughput_wait_frame:
  assumes "throughput_wait I received more_data retry h = Some (gave_up, h')" and "Q h"
  shows "Q h'"
  by (rule throughput_wait.raw_induct
      [where P = "\<lambda>J n m k h r. J = I \<longrightarrow> Q h \<longrightarrow> Q (snd r)",
       OF _ assms(1), rule_format, OF _ refl assms(2), unfolded snd_conv])
    (auto simp: Let_def split: if_splits prod.splits dest: await_frame)

lemma dummy_data_frame:
  assumes "dummy_data B amount i bs w = Some (bs', w')" and "Q (s, w)"
  shows "Q (s, w')"
  by (rule dummy_data.raw_induct
      [where P = "\<lambda>C amount i bs w r. C = B \<longrightarrow> Q (s, w) \<longrightarrow> Q (s, snd r)",
       OF _ assms(1), rule_format, OF _ refl assms(2), unfolded snd_conv])
    (auto split: if_splits prod.splits dest: rand_frame)

text \<open>The end of a round, in the form in which the case distinctions leave it.\<close>

lemma ends:
  "Inl f = r \<Longrightarrow> yields r P"
  "\<lbrakk>Inr (ok, h) = r; Q h\<rbrakk> \<Longrightarrow> yields r (\<lambda>x. Q (snd x))"
  by auto

lemmas call_frames = write_frame write_frame [OF _ sym] read_frame timestamp_frame await_loop_frame
  throughput_wait_frame write_frame [OF sleep_until_frame] write_frame [OF sleep_until_frame sym]

text \<open>The loops.\<close>

text \<open>Each loop by induction on its rounds; the predicate on its result is about regular ends only.\<close>

lemma latency_server_frame:
  assumes "latency_server_loop B I more_data i b h = Some (Inr (ok, b', h'))" and "Q h"
  shows "Q h'"
  by (rule latency_server_loop.raw_induct
      [where P = "\<lambda>C J m i b h r. C = B \<longrightarrow> J = I \<longrightarrow> Q h \<longrightarrow>
        yields r (\<lambda>x. Q (snd (snd x)))",
       OF _ assms(1), rule_format, OF _ refl refl assms(2), unfolded pred_sum_inject snd_conv])
    (auto simp: Let_def split: if_splits prod.splits option.splits sum.splits,
      (((drule (1) call_frames)+)?, blast intro: sleep_for_frame ends)+)

lemma latency_client_frame:
  assumes "latency_client_loop B I i b h = Some (Inr (ok, h'))" and "Q h"
  shows "Q h'"
  by (rule latency_client_loop.raw_induct
      [where P = "\<lambda>C J i b h r. C = B \<longrightarrow> J = I \<longrightarrow> Q h \<longrightarrow>
        yields r (\<lambda>x. Q (snd x))",
       OF _ assms(1), rule_format, OF _ refl refl assms(2), unfolded pred_sum_inject snd_conv])
    (auto simp: Let_def split: if_splits prod.splits option.splits sum.splits,
      (((drule (1) call_frames)+)?, blast intro: sleep_for_frame ends)+)

lemma throughput_server_frame:
  assumes "throughput_server_loop B I more_data b h = Some (Inr (ok, b', h'))" and "Q h"
  shows "Q h'"
  by (rule throughput_server_loop.raw_induct
      [where P = "\<lambda>C J m b h r. C = B \<longrightarrow> J = I \<longrightarrow> Q h \<longrightarrow>
        yields r (\<lambda>x. Q (snd (snd x)))",
       OF _ assms(1), rule_format, OF _ refl refl assms(2), unfolded pred_sum_inject snd_conv])
    (auto simp: Let_def split: if_splits prod.splits option.splits sum.splits,
      (((drule (1) call_frames)+)?, blast intro: sleep_for_frame ends)+)

lemma throughput_client_frame:
  assumes "throughput_client_loop I data i b h = Some (Inr (ok, h'))" and "Q h"
  shows "Q h'"
  by (rule throughput_client_loop.raw_induct
      [where P = "\<lambda>J d i b h r. J = I \<longrightarrow> Q h \<longrightarrow>
        yields r (\<lambda>x. Q (snd x))",
       OF _ assms(1), rule_format, OF _ refl assms(2), unfolded pred_sum_inject snd_conv])
    (auto simp: Let_def split: if_splits prod.splits option.splits sum.splits,
      (((drule (1) call_frames)+)?, blast intro: sleep_for_frame ends)+)

lemma execution_server_frame:
  assumes "execution_server_loop B I more_data i b h = Some (Inr (ok, b', h'))" and "Q h"
  shows "Q h'"
  by (rule execution_server_loop.raw_induct
      [where P = "\<lambda>C J m i b h r. C = B \<longrightarrow> J = I \<longrightarrow> Q h \<longrightarrow>
        yields r (\<lambda>x. Q (snd (snd x)))",
       OF _ assms(1), rule_format, OF _ refl refl assms(2), unfolded pred_sum_inject snd_conv])
    (auto simp: Let_def split: if_splits prod.splits option.splits sum.splits,
      (((drule (1) call_frames)+)?, blast intro: sleep_for_frame ends)+)

lemma execution_client_frame:
  assumes "execution_client_loop B I data i b h = Some (Inr (ok, b', h'))" and "Q h"
  shows "Q h'"
  by (rule execution_client_loop.raw_induct
      [where P = "\<lambda>C J d i b h r. C = B \<longrightarrow> J = I \<longrightarrow> Q h \<longrightarrow>
        yields r (\<lambda>x. Q (snd (snd x)))",
       OF _ assms(1), rule_format, OF _ refl refl assms(2), unfolded pred_sum_inject snd_conv])
    (auto simp: Let_def split: if_splits prod.splits option.splits sum.splits,
      (((drule (1) call_frames)+)?, blast intro: sleep_for_frame ends)+)

lemma realworld_server_frame:
  assumes "realworld_server_loop I more_data i b h = Some (Inr (ok, b', h'))" and "Q h"
  shows "Q h'"
  by (rule realworld_server_loop.raw_induct
      [where P = "\<lambda>J m i b h r. J = I \<longrightarrow> Q h \<longrightarrow>
        yields r (\<lambda>x. Q (snd (snd x)))",
       OF _ assms(1), rule_format, OF _ refl assms(2), unfolded pred_sum_inject snd_conv])
    (auto simp: Let_def split: if_splits prod.splits option.splits sum.splits,
      (((drule (1) call_frames)+)?, blast intro: sleep_for_frame ends)+)

lemma realworld_client_frame:
  assumes "realworld_client_loop B I delta threshold i b h = Some (Inr (ok, b', h'))" and "Q h"
  shows "Q h'"
  by (rule realworld_client_loop.raw_induct
      [where P = "\<lambda>C J d t i b h r. C = B \<longrightarrow> J = I \<longrightarrow> Q h \<longrightarrow>
        yields r (\<lambda>x. Q (snd (snd x)))",
       OF _ assms(1), rule_format, OF _ refl refl assms(2), unfolded pred_sum_inject snd_conv])
    (auto simp: Let_def split: if_splits prod.splits option.splits sum.splits,
      (((drule (1) call_frames)+)?, blast intro: sleep_for_frame ends)+)

lemmas loop_frames = latency_server_frame latency_client_frame throughput_server_frame
  throughput_client_frame execution_server_frame execution_client_frame realworld_server_frame
  realworld_client_frame

text \<open>A whole run.\<close>

lemma latency_frame:
  assumes "latency_run B I b h = Some (Inr (ok, b', h'))" and "Q h"
  shows "Q h'"
  using assms
  by (auto simp: latency_run_def latency_run_server_def latency_run_client_def res_simps
      dest: loop_frames split: if_splits)

lemma throughput_frame:
  assumes "throughput_run B I b h = Some (Inr (ok, b', h'))" and "Q h"
  shows "Q h'"
  using assms
  by (cases h) (auto simp: throughput_run_def throughput_run_server_def throughput_run_client_def
      res_simps dest: loop_frames dummy_data_frame split: if_splits option.splits)

lemma execution_frame:
  assumes "execution_run B I b h = Some (Inr (ok, b', h'))" and "Q h"
  shows "Q h'"
  using assms
  by (cases h) (auto simp: execution_run_def execution_run_server_def execution_run_client_def
      dest: loop_frames dummy_data_frame split: if_splits option.splits)

lemma realworld_frame:
  assumes "realworld_run B I b h = Some (Inr (ok, b', h'))" and "Q h"
  shows "Q h'"
  using assms
  by (cases h) (auto simp: realworld_run_def realworld_run_server_def realworld_run_client_def
      Let_def dest: loop_frames timestamp_frame split: if_splits sum.splits prod.splits)

end

text \<open>What also survives opening and closing survives the functions of the program.\<close>

locale handler_frame = call_frame +
  assumes open_frame: "\<lbrakk>Q h; c_open I h = (b, h')\<rbrakk> \<Longrightarrow> Q h'"
    and close_frame: "\<lbrakk>Q h; c_close I h = (b, h')\<rbrakk> \<Longrightarrow> Q h'"
begin

lemmas program_defs = latency_setup_def latency_cleanup_def throughput_setup_def
  throughput_cleanup_def execution_setup_def execution_cleanup_def realworld_setup_def
  realworld_cleanup_def

lemma cleanup_frame: "Q h \<Longrightarrow> Q (snd (c_close I h))"
  by (cases "c_close I h") (auto dest: close_frame)

lemma run_latency_frame:
  assumes "run_latency B I iterations delay mode h = Some (Inr (code, report, h'))" and "Q h"
  shows "Q h'"
  using assms
  by (auto simp: run_latency_def program_defs run_then_Inr res_simps Let_def
      dest: open_frame latency_frame cleanup_frame split: if_splits prod.splits)

lemma run_throughput_frame:
  assumes "run_throughput B I iterations body_size mode h = Some (Inr (code, report, h'))" and "Q h"
  shows "Q h'"
  using assms
  by (auto simp: run_throughput_def program_defs run_then_Inr Let_def
      dest: open_frame throughput_frame cleanup_frame split: if_splits prod.splits)

lemma run_execution_frame:
  assumes "run_execution_time B I iterations body_size delay mode h = Some (Inr (code, report, h'))"
    and "Q h"
  shows "Q h'"
  using assms
  by (auto simp: run_execution_time_def program_defs run_then_Inr res_simps Let_def
      dest: open_frame execution_frame cleanup_frame split: if_splits prod.splits)

lemma run_real_world_frame:
  assumes run: "run_real_world E B I path threshold mode (s, w) = Some (Inr (code, report, h'))"
    and read: "co_contents E path w = (content, w1)" and Q: "Q (s, w1)"
  shows "Q h'"
proof -
  obtain ok s1 w2 where opened: "c_open I (s, w1) = (ok, s1, w2)" by (metis surj_pair)
  have "Q (s1, w2)"
    using open_frame [OF Q opened] .
  with run read show ?thesis
    by (auto simp: run_real_world_def program_defs run_then_Inr opened Let_def
        dest: realworld_frame cleanup_frame split: if_splits)
qed

end

end
