(* ===== verification/Benchmark_Contract.thy ===== *)
theory Benchmark_Contract
  imports Benchmark_Frames
begin

text \<open>
  The interface of the benchmarks (include/benchmark/benchmark.hpp): its three methods as a record, the
  four classes that implement it, the contract that a user of the interface relies on, and the session
  that every function of src/main.cpp makes of it - set up, run, clean up.
\<close>

section \<open>The interface\<close>

text \<open>\<open>run\<close> also gives the benchmark object back, which holds the results.\<close>

record ('b, 'h) benchmark_iface =
  b_setup :: "'h \<Rightarrow> bool \<times> 'h"
  b_run :: "'b \<Rightarrow> 'h \<Rightarrow> (bool \<times> 'b \<times> 'h) res option"
  b_cleanup :: "'h \<Rightarrow> 'h"

definition latency_iface ::
  "'w bench_os \<Rightarrow> ('s \<times> 'w) comm_iface \<Rightarrow> (latency_benchmark, 's \<times> 'w) benchmark_iface" where
  "latency_iface B I =
     \<lparr>b_setup = latency_setup I, b_run = latency_run B I, b_cleanup = latency_cleanup I\<rparr>"

definition throughput_iface ::
  "'w bench_os \<Rightarrow> ('s \<times> 'w) comm_iface \<Rightarrow> (throughput_benchmark, 's \<times> 'w) benchmark_iface" where
  "throughput_iface B I =
     \<lparr>b_setup = throughput_setup I, b_run = throughput_run B I, b_cleanup = throughput_cleanup I\<rparr>"

definition execution_iface ::
  "'w bench_os \<Rightarrow> ('s \<times> 'w) comm_iface \<Rightarrow> (execution_benchmark, 's \<times> 'w) benchmark_iface" where
  "execution_iface B I =
     \<lparr>b_setup = execution_setup I, b_run = execution_run B I, b_cleanup = execution_cleanup I\<rparr>"

definition realworld_iface ::
  "'w bench_os \<Rightarrow> ('s \<times> 'w) comm_iface \<Rightarrow> (realworld_benchmark, 's \<times> 'w) benchmark_iface" where
  "realworld_iface B I =
     \<lparr>b_setup = realworld_setup I, b_run = realworld_run B I, b_cleanup = realworld_cleanup I\<rparr>"

lemmas benchmark_ifaces = latency_iface_def throughput_iface_def execution_iface_def
  realworld_iface_def

section \<open>A session\<close>

definition bench_session ::
  "('b, 'h) benchmark_iface \<Rightarrow> 'b \<Rightarrow> 'h \<Rightarrow> (bool \<times> 'b \<times> 'h) res option" where
  "bench_session X b h =
     (let (ok, h) = b_setup X h in
      if \<not> ok then Some (Inr (False, b, h))
      else run_then (b_run X b h) (\<lambda>(success, b, h). Some (Inr (success, b, b_cleanup X h))))"

lemma run_then_assoc: "run_then (run_then m f) g = run_then m (\<lambda>x. run_then (f x) g)"
  by (cases m) (auto simp: run_then_def split: sum.split)

text \<open>The four functions of the program are this session and a report.\<close>

lemma run_latency_session:
  "run_latency B I iterations delay readonly h =
     run_then (bench_session (latency_iface B I) (latency_new iterations delay readonly) h)
       (\<lambda>(success, bench, h).
        if \<not> success then Some (Inr (EXIT_FAILURE, None, h))
        else if readonly then
          Some (and_then (compute_statistics (lb_latencies bench)) (\<lambda>stats.
            Inr (EXIT_SUCCESS, Some (Latency_Report (length (lb_latencies bench)) delay stats), h)))
        else Some (Inr (EXIT_SUCCESS, None, h)))"
  by (simp add: run_latency_def bench_session_def benchmark_ifaces run_then_assoc
      case_prod_beta' Let_def cong: if_cong)

lemma run_throughput_session:
  "run_throughput B I iterations body_size readonly h =
     run_then (bench_session (throughput_iface B I) (throughput_new iterations body_size readonly) h)
       (\<lambda>(success, bench, h).
        if \<not> success then Some (Inr (EXIT_FAILURE, None, h))
        else if readonly then
          Some (Inr (EXIT_SUCCESS, Some (Throughput_Report (tb_iterations bench) (tb_size bench)
            (tb_iterations bench - tb_received bench) (throughput_total_time bench)
            (throughput_result bench)), h))
        else Some (Inr (EXIT_SUCCESS, None, h)))"
  by (simp add: run_throughput_def bench_session_def benchmark_ifaces run_then_assoc
      case_prod_beta' Let_def cong: if_cong)

lemma run_execution_session:
  "run_execution_time B I iterations body_size delay readonly h =
     run_then (bench_session (execution_iface B I) (execution_new iterations body_size delay readonly) h)
       (\<lambda>(success, bench, h).
        if \<not> success then Some (Inr (EXIT_FAILURE, None, h))
        else Some (and_then (compute_statistics (eb_times bench)) (\<lambda>stats.
          Inr (EXIT_SUCCESS,
            Some (Execution_Report (length (eb_times bench)) delay (eb_size bench) stats), h))))"
  by (simp add: run_execution_time_def bench_session_def benchmark_ifaces run_then_assoc
      case_prod_beta' Let_def cong: if_cong)

section \<open>The contract\<close>

text \<open>
  Setting up opens the handler or leaves it closed, a run that returns leaves it open and valid, and
  cleaning up closes it.
\<close>

locale benchmark_contract = bench_handler I invar last_seq capacity
  for I :: "('s \<times> 'w) comm_iface" and invar last_seq capacity +
  fixes X :: "('b, 's \<times> 'w) benchmark_iface"
  assumes setup_law: "\<lbrakk>invar h; b_setup X h = (ok, h')\<rbrakk> \<Longrightarrow> invar h' \<and> c_is_open I h' = ok"
    and run_law: "\<lbrakk>invar h; c_is_open I h; b_run X b h = Some (Inr (ok, b', h'))\<rbrakk> \<Longrightarrow>
      invar h' \<and> c_is_open I h'"
    and cleanup_law: "invar h \<Longrightarrow> invar (b_cleanup X h) \<and> \<not> c_is_open I (b_cleanup X h)"
begin

lemma session_closes:
  assumes "bench_session X b h = Some (Inr (ok, b', h'))" and "invar h"
  shows "invar h' \<and> \<not> c_is_open I h'"
proof -
  obtain opened h1 where start: "b_setup X h = (opened, h1)" by (rule prod.exhaust)
  note h1 = setup_law [OF assms(2) start]
  show ?thesis
  proof (cases opened)
    case False
    with assms(1) h1 show ?thesis
      by (simp add: bench_session_def start)
  next
    case True
    with assms(1) obtain b2 h2 where run: "b_run X b h1 = Some (Inr (ok, b2, h2))"
      and h': "h' = b_cleanup X h2"
      by (auto simp: bench_session_def start run_then_Inr)
    from run_law [OF _ _ run] h1 True have "invar h2" by simp
    from cleanup_law [OF this] show ?thesis by (simp add: h')
  qed
qed

end

sublocale bench_handler \<subseteq> staying: call_frame I B "\<lambda>h. invar h \<and> c_is_open I h"
  for B :: "'w bench_os"
proof unfold_locales
  fix h h' :: "'s \<times> 'w" and obj b
  assume "invar h \<and> c_is_open I h" and "c_write I obj h = Inr (b, h')"
  with write_law [of h obj] show "invar h' \<and> c_is_open I h'" by auto
qed (auto dest: await_law read_law intro: invar_world open_world [THEN iffD1])

text \<open>The four benchmarks fulfil it on every handler.\<close>

context bench_handler
begin

lemma closing: "invar h \<Longrightarrow> invar (snd (c_close I h)) \<and> \<not> c_is_open I (snd (c_close I h))"
  using close_law [of h "fst (c_close I h)" "snd (c_close I h)"] by simp

lemmas benchmark_methods = latency_setup_def throughput_setup_def execution_setup_def
  realworld_setup_def latency_cleanup_def throughput_cleanup_def execution_cleanup_def
  realworld_cleanup_def

lemma benchmark_contracts:
  "benchmark_contract I invar last_seq capacity (latency_iface B I)"
  "benchmark_contract I invar last_seq capacity (throughput_iface B I)"
  "benchmark_contract I invar last_seq capacity (execution_iface B I)"
  "benchmark_contract I invar last_seq capacity (realworld_iface B I)"
  by (unfold_locales; auto simp: benchmark_ifaces benchmark_methods closing
      dest: open_law staying.latency_frame staying.throughput_frame staying.execution_frame
        staying.realworld_frame)+

end

interpretation latency: benchmark_contract
  "handler_iface K" handler_inv handler_seq BUFFER_SIZE "latency_iface B (handler_iface K)"
  for K :: "('w, 'm, 'i) program_os" and B
  by (rule bench_handlers.benchmark_contracts)

interpretation throughput: benchmark_contract
  "handler_iface K" handler_inv handler_seq BUFFER_SIZE "throughput_iface B (handler_iface K)"
  for K :: "('w, 'm, 'i) program_os" and B
  by (rule bench_handlers.benchmark_contracts)

interpretation execution: benchmark_contract
  "handler_iface K" handler_inv handler_seq BUFFER_SIZE "execution_iface B (handler_iface K)"
  for K :: "('w, 'm, 'i) program_os" and B
  by (rule bench_handlers.benchmark_contracts)

interpretation realworld: benchmark_contract
  "handler_iface K" handler_inv handler_seq BUFFER_SIZE "realworld_iface B (handler_iface K)"
  for K :: "('w, 'm, 'i) program_os" and B
  by (rule bench_handlers.benchmark_contracts)

text \<open>So every function of the program that ran a benchmark leaves the handler closed.\<close>

lemma run_functions_close:
  assumes "handler_inv h"
  shows "run_latency B (handler_iface K) n d mode h = Some (Inr (c, r, h')) \<Longrightarrow>
      handler_inv h' \<and> \<not> handler_is_open h'"
    and "run_throughput B (handler_iface K) n k mode h = Some (Inr (c, r, h')) \<Longrightarrow>
      handler_inv h' \<and> \<not> handler_is_open h'"
    and "run_execution_time B (handler_iface K) n k d mode h = Some (Inr (c, r, h')) \<Longrightarrow>
      handler_inv h' \<and> \<not> handler_is_open h'"
  using latency.session_closes [OF _ assms] throughput.session_closes [OF _ assms]
    execution.session_closes [OF _ assms]
  by (fastforce simp: run_latency_session run_throughput_session run_execution_session run_then_Inr
      res_simps split: if_splits)+

end
