(* ===== verification/Resources.thy ===== *)
theory Resources
  imports Handlers "HOL-Library.Multiset"
begin

text \<open>
  What the handlers acquire from the system and give back: descriptors of pipes, queues, sockets and
  shared memory, D-Bus connections and messages, open streams, memory mappings and semaphores.  The
  laws say which system call acquires or releases what; from them, every method of every handler keeps
  the books balanced - on every branch, those with a failed call in the middle included.
\<close>

section \<open>Resources\<close>

text \<open>
  The references that the process owns form a multiset: the same connection, the same semaphore can
  be obtained twice, and is then to be released twice.
\<close>

datatype resource =
    Descriptor int
  | Connection nat
  | Message
  | Open_File nat
  | Mapping nat
  | Semaphore nat

type_synonym ledger = "resource multiset"

text \<open>What a descriptor, \<open>- 1\<close> if there is none, and a pointer, possibly null, stand for.\<close>

definition fd_entry :: "int \<Rightarrow> ledger" where
  "fd_entry fd = (if fd = - 1 then {#} else {#Descriptor fd#})"

definition ptr_entry :: "(nat \<Rightarrow> resource) \<Rightarrow> pointer \<Rightarrow> ledger" where
  "ptr_entry C p = (case p of None \<Rightarrow> {#} | Some a \<Rightarrow> {#C a#})"

definition no_semaphores :: "ledger \<Rightarrow> bool" where
  "no_semaphores D \<longleftrightarrow> (\<forall>p. Semaphore p \<notin># D)"

lemma entry_simps [simp]:
  "fd_entry (- 1) = {#}" "ptr_entry C None = {#}" "ptr_entry C (Some a) = {#C a#}"
  "fd \<noteq> - 1 \<Longrightarrow> fd_entry fd = {#Descriptor fd#}"
  by (simp_all add: fd_entry_def ptr_entry_def)

section \<open>The books of the system calls\<close>

locale base_books =
  fixes K :: "('w, 'z) os_base_scheme" and held :: "'w \<Rightarrow> ledger"
  assumes clock_held: "os_clock K w = (ts, w') \<Longrightarrow> held w' = held w"
    and poll_held: "os_poll K fds t w = (n, w') \<Longrightarrow> held w' = held w"

locale fifo_books = base_books K held for K :: "'w fifo_os" and held +
  assumes unlink_held: "held (os_unlink K p w) = held w"
    and mkfifo_held: "os_mkfifo K p m w = (n, w') \<Longrightarrow> held w' = held w"
    and open_held: "os_open K p fl w = (fd, w') \<Longrightarrow> held w' = held w + fd_entry fd"
    and close_held: "held (os_close K fd w) = held w - {#Descriptor fd#}"
    and write_held: "os_write K fd bs w = (n, w') \<Longrightarrow> held w' = held w"
    and read_held: "os_read K fd len w = (r, w') \<Longrightarrow> held w' = held w"

locale mq_books = base_books K held for K :: "'w mq_os" and held +
  assumes mq_unlink_held: "held (os_mq_unlink K p w) = held w"
    and mq_open_held: "os_mq_open K p fl m attr w = (fd, w') \<Longrightarrow> held w' = held w + fd_entry fd"
    and mq_close_held: "held (os_mq_close K fd w) = held w - {#Descriptor fd#}"
    and mq_send_held: "os_mq_send K fd bs pr w = (n, w') \<Longrightarrow> held w' = held w"
    and mq_receive_held: "os_mq_receive K fd len w = (r, w') \<Longrightarrow> held w' = held w"

locale sock_books = base_books K held for K :: "'w sock_os" and held +
  assumes remove_held: "held (os_remove K p w) = held w"
    and socket_held: "os_socket K d ty nb w = (fd, w') \<Longrightarrow> held w' = held w + fd_entry fd"
    and reuseaddr_held: "held (os_set_reuseaddr K fd v w) = held w"
    and bind_held: "os_bind K fd a w = (n, w') \<Longrightarrow> held w' = held w"
    and listen_held: "os_listen K fd len w = (n, w') \<Longrightarrow> held w' = held w"
    and connect_held: "os_connect K fd a w = (n, w') \<Longrightarrow> held w' = held w"
    and accept_held: "os_accept4 K fd w = (cfd, w') \<Longrightarrow> held w' = held w + fd_entry cfd"
    and sock_close_held: "held (os_sock_close K fd w) = held w - {#Descriptor fd#}"
    and send_held: "os_send K fd bs w = (n, w') \<Longrightarrow> held w' = held w"
    and recv_held: "os_recv K fd len w = (r, w') \<Longrightarrow> held w' = held w"
    and sendto_held: "os_sendto K fd bs a w = (n, w') \<Longrightarrow> held w' = held w"
    and recvfrom_held: "os_recvfrom K fd len w = (r, w') \<Longrightarrow> held w' = held w"

text \<open>Closing the null pointer fails and changes nothing.\<close>

locale sem_books = base_books K held for K :: "('w, 'z) sem_os_scheme" and held +
  assumes sem_unlink_held: "held (os_sem_unlink K n w) = held w"
    and sem_open_held: "os_sem_open K n fl v w = (p, w') \<Longrightarrow> held w' = held w + ptr_entry Semaphore p"
    and sem_close_held: "held (os_sem_close K p w) = held w - ptr_entry Semaphore p"
    and realtime_held: "os_realtime K w = (ts, w') \<Longrightarrow> held w' = held w"
    and sem_wait_held: "os_sem_wait K p w = (r, w') \<Longrightarrow> held w' = held w"
    and sem_trywait_held: "os_sem_trywait K p w = (r, w') \<Longrightarrow> held w' = held w"
    and sem_timedwait_held: "os_sem_timedwait K p until w = (r, w') \<Longrightarrow> held w' = held w"
    and sem_post_held: "held (os_sem_post K p w) = held w"

locale shm_books = sem_books K held for K :: "'w shm_os" and held +
  assumes file_remove_held: "held (os_file_remove K p w) = held w"
    and file_open_held: "os_file_open K p fl w = (fd, w') \<Longrightarrow> held w' = held w + fd_entry fd"
    and shm_unlink_held: "held (os_shm_unlink K p w) = held w"
    and shm_open_held: "os_shm_open K p fl w = (fd, w') \<Longrightarrow> held w' = held w + fd_entry fd"
    and ftruncate_held: "os_ftruncate K fd len w = (n, w') \<Longrightarrow> held w' = held w"
    and mmap_held: "os_mmap K len fd w = (a, w') \<Longrightarrow> held w' = held w + ptr_entry Mapping a"
    and munmap_held: "held (os_munmap K a len w) = held w - ptr_entry Mapping a"
    and fd_close_held: "held (os_fd_close K fd w) = held w - {#Descriptor fd#}"
    and mem_write_held: "held (os_mem_write K m off bs w) = held w"

locale file_books = sem_books K held for K :: "'w file_os" and held +
  assumes remove_file_held: "held (os_remove_file K p w) = held w"
    and fopen_held: "os_fopen K p trunc w = (h, w') \<Longrightarrow> held w' = held w + ptr_entry Open_File h"
    and fclose_held: "held (os_fclose K f w) = held w - {#Open_File f#}"
    and fseek_held: "os_fseek K f pos w = (ok, w') \<Longrightarrow> held w' = held w"
    and fwrite_held: "os_fwrite K f pos bs w = (ok, w') \<Longrightarrow> held w' = held w"
    and fread_held: "os_fread K f pos n w = (r, w') \<Longrightarrow> held w' = held w"

locale dbus_books = base_books K held for K :: "('w, 'm, 'i) dbus_lib" and held +
  assumes bus_get_held: "dl_bus_get K w = (con, w') \<Longrightarrow> held w' = held w + ptr_entry Connection con"
    and request_name_held: "dl_request_name K c name w = (r, w') \<Longrightarrow> held w' = held w"
    and release_name_held: "held (dl_release_name K c name w) = held w"
    and flush_held: "held (dl_flush K c w) = held w"
    and unref_connection_held: "held (dl_unref_connection K c w) = held w - {#Connection c#}"
    and read_write_held: "dl_read_write K c t w = (ok, w') \<Longrightarrow> held w' = held w"
    and new_call_held: "dl_new_method_call K name p i m w = (new, w') \<Longrightarrow>
      held w' = held w + (if new = None then {#} else {#Message#})"
    and append_held: "dl_append_uint32 K x msg w = (ok, msg', w') \<Longrightarrow> held w' = held w"
      "dl_append_int64 K y msg w = (ok, msg', w') \<Longrightarrow> held w' = held w"
      "dl_open_array K msg w = (ok, msg', w') \<Longrightarrow> held w' = held w"
      "dl_append_bytes K bs msg w = (ok, msg', w') \<Longrightarrow> held w' = held w"
      "dl_close_array K msg w = (ok, msg', w') \<Longrightarrow> held w' = held w"
    and dl_send_held: "dl_send K c msg w = (ok, w') \<Longrightarrow> held w' = held w"
    and unref_held: "held (dl_unref K msg w) = held w - {#Message#}"
    and pop_held: "dl_pop_message K c w = (new, w') \<Longrightarrow>
      held w' = held w + (if new = None then {#} else {#Message#})"

section \<open>The named pipe\<close>

text \<open>
  \<open>fifo_balance held D h\<close>: the process owns \<open>D\<close> and what the handler \<open>h\<close> refers to, nothing else.
\<close>

definition fifo_balance :: "('w \<Rightarrow> ledger) \<Rightarrow> ledger \<Rightarrow> fifo \<times> 'w \<Rightarrow> bool" where
  "fifo_balance held D = (\<lambda>(s, w). held w = D + fd_entry (fifo_fd s))"

context fifo_books
begin

lemmas fifo_held = clock_held poll_held mkfifo_held open_held write_held read_held

lemma fifo_balanced:
  assumes "fifo_balance held D h"
  shows "fifo_open K h = (b, h') \<Longrightarrow> fifo_balance held D h'"
    and "fifo_close K h = (b, h') \<Longrightarrow> fifo_balance held D h'"
    and "fifo_await_data K h = (b, h') \<Longrightarrow> fifo_balance held D h'"
    and "fifo_has_data K h = (b, h') \<Longrightarrow> fifo_balance held D h'"
    and "\<not> fifo_is_open h \<Longrightarrow> held (snd h) = D"
  using assms
  by (auto simp: fifo_balance_def fifo_defs poll_def unlink_held close_held Let_def dest!: fifo_held
      split: prod.splits if_splits)

lemma fifo_write_balanced:
  assumes "fifo_write K obj h = Inr (b, h')" and "fifo_balance held D h"
  shows "fifo_balance held D h'"
  by (rule yieldsD [where P = "\<lambda>x. fifo_balance held D (snd x)", OF assms(1), unfolded snd_conv],
      insert assms(2))
    (auto simp: fifo_balance_def fifo_write_def get_timestamp_def yields_steps Let_def dest!: fifo_held
      split: prod.splits)

lemma fifo_read_balanced:
  assumes "fifo_read K h = Inr (r, h')" and "fifo_balance held D h"
  shows "fifo_balance held D h'"
  by (rule yieldsD [where P = "\<lambda>x. fifo_balance held D (snd x)", OF assms(1), unfolded snd_conv],
      insert assms(2))
    (auto simp: fifo_balance_def fifo_read_def yields_steps Let_def dest!: fifo_held
      split: prod.splits io_result.splits option.splits)

end

section \<open>The message queue\<close>

definition mq_balance :: "('w \<Rightarrow> ledger) \<Rightarrow> ledger \<Rightarrow> message_queue \<times> 'w \<Rightarrow> bool" where
  "mq_balance held D = (\<lambda>(s, w). held w = D + fd_entry (mq_mqd s))"

context mq_books
begin

lemmas mq_held = clock_held poll_held mq_open_held mq_send_held mq_receive_held

lemma mq_balanced:
  assumes "mq_balance held D h"
  shows "mq_open K h = (b, h') \<Longrightarrow> mq_balance held D h'"
    and "mq_close K h = (b, h') \<Longrightarrow> mq_balance held D h'"
    and "mq_await_data K h = (b, h') \<Longrightarrow> mq_balance held D h'"
    and "mq_has_data K h = (b, h') \<Longrightarrow> mq_balance held D h'"
    and "\<not> mq_is_open h \<Longrightarrow> held (snd h) = D"
  using assms
  by (auto simp: mq_balance_def mq_defs poll_def get_timestamp_def
      mq_unlink_held mq_close_held res_simps Let_def dest!: mq_held
      split: prod.splits if_splits io_result.splits option.splits)

lemma mq_write_balanced:
  assumes "mq_write K obj h = Inr (b, h')" and "mq_balance held D h"
  shows "mq_balance held D h'"
  by (rule yieldsD [where P = "\<lambda>x. mq_balance held D (snd x)", OF assms(1), unfolded snd_conv],
      insert assms(2))
    (auto simp: mq_balance_def mq_write_def get_timestamp_def yields_steps Let_def dest!: mq_held
      split: prod.splits)

lemma mq_read_balanced:
  assumes "mq_read K h = Inr (r, h')" and "mq_balance held D h"
  shows "mq_balance held D h'"
  by (rule yieldsD [where P = "\<lambda>x. mq_balance held D (snd x)", OF assms(1), unfolded snd_conv],
      insert assms(2))
    (auto simp: mq_balance_def mq_read_def yields_steps Let_def dest!: mq_held
      split: prod.splits io_result.splits option.splits)

end

section \<open>The datagram socket\<close>

definition dgram_balance :: "('w \<Rightarrow> ledger) \<Rightarrow> ledger \<Rightarrow> dgram_socket \<times> 'w \<Rightarrow> bool" where
  "dgram_balance held D = (\<lambda>(s, w). held w = D + fd_entry (dg_sfd s))"

context sock_books
begin

lemmas sock_held = clock_held poll_held socket_held bind_held listen_held connect_held accept_held
  send_held recv_held sendto_held recvfrom_held

lemmas sock_keeps = remove_held reuseaddr_held sock_close_held

lemma dgram_build_address_sfd: "dgram_build_address K s = (b, s') \<Longrightarrow> dg_sfd s' = dg_sfd s"
  by (auto simp: dgram_build_address_def Let_def split: if_splits prod.splits)

lemma dgram_created_balance:
  "dgram_create_server K (s, w) = (b, s', w') \<Longrightarrow> held w' = held w + fd_entry (dg_sfd s')"
  "dgram_create_client K (s, w) = (b, s', w') \<Longrightarrow> held w' = held w + fd_entry (dg_sfd s')"
  by (auto simp: dgram_create_server_def dgram_create_client_def sock_keeps Let_def
      dest!: sock_held dgram_build_address_sfd split: prod.splits if_splits)

lemma dgram_balanced:
  assumes "dgram_balance held D h"
  shows "dgram_open K h = (b, h') \<Longrightarrow> dgram_balance held D h'"
    and "dgram_close K h = (b, h') \<Longrightarrow> dgram_balance held D h'"
    and "dgram_await_data K h = (b, h') \<Longrightarrow> dgram_balance held D h'"
    and "dgram_has_data K h = (b, h') \<Longrightarrow> dgram_balance held D h'"
    and "\<not> dgram_is_open h \<Longrightarrow> held (snd h) = D"
  using assms
  by (auto simp: dgram_balance_def dgram_defs poll_def sock_keeps res_simps Let_def dest!: dgram_created_balance sock_held
      split: prod.splits if_splits io_result.splits option.splits)

lemma dgram_write_balanced:
  assumes "dgram_write K obj h = Inr (b, h')" and "dgram_balance held D h"
  shows "dgram_balance held D h'"
  by (rule yieldsD [where P = "\<lambda>x. dgram_balance held D (snd x)", OF assms(1), unfolded snd_conv],
      insert assms(2))
    (auto simp: dgram_balance_def dgram_write_def get_timestamp_def yields_steps Let_def dest!: sock_held
      split: prod.splits)

lemma dgram_read_balanced:
  assumes "dgram_read K h = Inr (r, h')" and "dgram_balance held D h"
  shows "dgram_balance held D h'"
  by (rule yieldsD [where P = "\<lambda>x. dgram_balance held D (snd x)", OF assms(1), unfolded snd_conv],
      insert assms(2))
    (auto simp: dgram_balance_def dgram_read_def yields_steps Let_def dest!: sock_held
      split: prod.splits io_result.splits option.splits)

end

section \<open>The stream socket\<close>

text \<open>A server that accepted a client refers to two sockets.\<close>

definition stream_balance :: "('w \<Rightarrow> ledger) \<Rightarrow> ledger \<Rightarrow> stream_socket \<times> 'w \<Rightarrow> bool" where
  "stream_balance held D = (\<lambda>(s, w). held w = D + fd_entry (st_sfd s) + fd_entry (st_cfd s) \<and>
     (st_sfd s = - 1 \<longrightarrow> st_cfd s = - 1))"

context sock_books
begin

lemma stream_build_address_fds:
  "stream_build_address K s = (b, s') \<Longrightarrow> st_sfd s' = st_sfd s \<and> st_cfd s' = st_cfd s"
  using stream_build_address_frame [of K s] by simp

lemma stream_created_balance:
  "stream_create_server K (s, w) = (b, s', w') \<Longrightarrow> held w' = held w + fd_entry (st_sfd s') \<and> st_cfd s' = st_cfd s"
  "stream_create_client K (s, w) = (b, s', w') \<Longrightarrow> held w' = held w + fd_entry (st_sfd s') \<and> st_cfd s' = st_cfd s"
  by (auto simp: stream_create_server_def stream_create_client_def sock_keeps Let_def
      dest!: sock_held stream_build_address_fds split: prod.splits if_splits)

lemma recv_header_held:
  assumes "recv_header K fd amount buf w = Some (Inr (e, buf', w'))"
  shows "held w' = held w"
  by (rule recv_header.raw_induct
      [where P = "\<lambda>C fd amount buf v r. C = K \<longrightarrow> held v = held w \<longrightarrow>
        yields r (\<lambda>x. held (snd (snd x)) = held w)",
       OF _ assms, rule_format, OF _ refl refl, unfolded pred_sum_inject snd_conv])
    (auto simp: Let_def split: if_splits sum.splits io_result.splits prod.splits,
      (drule recv_held, simp)+)

lemma recv_body_held:
  assumes "recv_body K fd wanted amount buf w = Some (Inr (e, buf', w'))"
  shows "held w' = held w"
  by (rule recv_body.raw_induct
      [where P = "\<lambda>C fd wanted amount buf v r. C = K \<longrightarrow> held v = held w \<longrightarrow>
        yields r (\<lambda>x. held (snd (snd x)) = held w)",
       OF _ assms, rule_format, OF _ refl refl, unfolded pred_sum_inject snd_conv])
    (auto simp: Let_def split: if_splits sum.splits io_result.splits prod.splits,
      (drule recv_held, simp)+)

lemma stream_accept_balanced:
  "\<lbrakk>stream_balance held D h; stream_accept K h = (b, h')\<rbrakk> \<Longrightarrow> stream_balance held D h'"
  by (auto simp: stream_balance_def stream_accept_def poll_def sock_keeps Let_def dest!: sock_held
      split: prod.splits if_splits)

lemma stream_balanced:
  assumes "stream_balance held D h"
  shows "stream_open K h = (b, h') \<Longrightarrow> stream_balance held D h'"
    and "stream_close K h = (b, h') \<Longrightarrow> stream_balance held D h'"
    and "stream_has_data K h = (b, h') \<Longrightarrow> stream_balance held D h'"
    and "\<not> stream_is_open h \<Longrightarrow> held (snd h) = D"
  using assms
  by (auto simp: stream_balance_def stream_defs poll_def sock_keeps Let_def
      dest!: stream_created_balance sock_held split: prod.splits if_splits)

lemma stream_write_balanced:
  assumes "stream_write K obj h = Inr (b, h')" and "stream_balance held D h"
  shows "stream_balance held D h'"
  by (rule yieldsD [where P = "\<lambda>x. stream_balance held D (snd x)", OF assms(1), unfolded snd_conv],
      insert assms(2))
    (auto simp: stream_balance_def stream_write_def get_timestamp_def yields_steps Let_def dest!: sock_held
      split: prod.splits)

lemma stream_read_balanced:
  "\<lbrakk>stream_balance held D h; stream_read K h = Some (Inr (r, h'))\<rbrakk> \<Longrightarrow> stream_balance held D h'"
  by (auto simp: stream_balance_def stream_read_def res_simps dest!: recv_header_held recv_body_held
      split: prod.splits if_splits sum.splits option.splits)

lemma stream_await_balanced:
  assumes "stream_balance held D h" and "stream_await_data K h = (b, h')"
  shows "stream_balance held D h'"
proof -
  obtain s w where h: "h = (s, w)" by (cases h)
  obtain c s1 w1 where accepted: "stream_accept K (s, w) = (c, s1, w1)"
    by (metis surj_pair)
  show ?thesis
    using assms stream_accept_balanced [OF _ accepted, of D]
    by (auto simp: h stream_await_data_def accepted poll_def stream_balance_def Let_def
        dest!: poll_held split: if_splits prod.splits)
qed

end

section \<open>Shared memory\<close>

text \<open>
  An open handler refers to its descriptor, the mapping and the two semaphores.  \<open>close\<close> leaves the
  two pointers to the semaphores as they are, and an \<open>open\<close> that fails before it gets to them closes
  the old pointers again: the books balance only if nobody else in the process has a semaphore.
\<close>

definition shm_balance :: "('w \<Rightarrow> ledger) \<Rightarrow> ledger \<Rightarrow> shared_memory \<times> 'w \<Rightarrow> bool" where
  "shm_balance held D = (\<lambda>(s, w). no_semaphores D \<and>
     (if sm_fd s = - 1 then held w = D \<and> sm_address s = None
      else held w = D + fd_entry (sm_fd s) + ptr_entry Mapping (sm_address s) +
        ptr_entry Semaphore (sm_reader s) + ptr_entry Semaphore (sm_writer s)))"

lemma no_semaphores_diff [simp]: "no_semaphores D \<Longrightarrow> D - ptr_entry Semaphore p = D"
  by (cases p) (simp_all add: no_semaphores_def diff_single_trivial)

context shm_books
begin

lemmas shm_held = clock_held sem_open_held realtime_held sem_wait_held sem_trywait_held
  sem_timedwait_held file_open_held shm_open_held ftruncate_held mmap_held

lemmas shm_keeps = sem_unlink_held sem_close_held sem_post_held file_remove_held shm_unlink_held
  munmap_held fd_close_held mem_write_held

text \<open>What \<open>close\<close> gives back, whether or not all of it was there.\<close>

lemma shm_close_held:
  assumes "shm_close K (s, w) = (b, s', w')" and "sm_fd s \<noteq> - 1"
  shows "held w' = held w - ptr_entry Mapping (sm_address s) - {#Descriptor (sm_fd s)#} -
      ptr_entry Semaphore (sm_reader s) - ptr_entry Semaphore (sm_writer s) \<and>
    sm_fd s' = - 1 \<and> sm_address s' = None"
  using assms by (auto simp: shm_close_def shm_keeps Let_def)

lemma shm_open_fd_held: "shm_open_fd K s w = (fd, w') \<Longrightarrow> held w' = held w + fd_entry fd"
  by (auto simp: shm_open_fd_def shm_keeps Let_def dest!: shm_held split: if_splits)

lemma shm_balanced:
  assumes "shm_balance held D h"
  shows "shm_close K h = (b, h') \<Longrightarrow> shm_balance held D h'"
    and "shm_await_data K h = (b, h') \<Longrightarrow> shm_balance held D h'"
    and "shm_has_data K h = (b, h') \<Longrightarrow> shm_balance held D h'"
    and "\<not> shm_is_open h \<Longrightarrow> held (snd h) = D"
  using assms
  by (auto simp: shm_balance_def shm_defs shm_keeps Let_def dest!: shm_held
      split: prod.splits if_splits option.splits)

text \<open>The three ways out of \<open>open\<close>: without a descriptor, by way of \<open>close\<close>, with everything.\<close>

lemma shm_balance_closed:
  "sm_fd s = - 1 \<Longrightarrow>
     shm_balance held D (s, w) \<longleftrightarrow> no_semaphores D \<and> held w = D \<and> sm_address s = None"
  by (simp add: shm_balance_def)

lemma shm_balance_abandoned:
  assumes "held w = D + fd_entry (sm_fd s) + ptr_entry Mapping (sm_address s)"
    and "no_semaphores D" and "sm_fd s \<noteq> - 1"
  shows "shm_balance held D (snd (shm_close K (s, w)))"
  using assms by (simp add: shm_close_def shm_balance_closed shm_keeps Let_def)

lemma shm_open_semaphores_balanced:
  assumes "held w = D + fd_entry (sm_fd s) + ptr_entry Mapping (sm_address s)"
    and "no_semaphores D" and "sm_fd s \<noteq> - 1"
  shows "shm_balance held D (snd (shm_open_semaphores K (s, w)))"
  using assms
  by (auto simp: shm_open_semaphores_def shm_balance_def shm_close_def shm_keeps Let_def
      dest!: shm_held split: prod.splits)

lemma shm_open_balanced:
  assumes "shm_open K h = (b, h')" and "shm_balance held D h"
  shows "shm_balance held D h'"
proof -
  obtain s w where h: "h = (s, w)" by (cases h)
  have "shm_balance held D (snd (shm_open K (s, w)))"
  proof (cases "sm_fd s = - 1")
    case True
    with assms(2) show ?thesis
      by (auto simp: h shm_open_def shm_balance_closed Let_def dest!: shm_held shm_open_fd_held
          intro!: shm_balance_abandoned shm_open_semaphores_balanced split: prod.splits)
  next
    case False
    with assms(2) show ?thesis
      by (simp add: h shm_open_def)
  qed
  with assms(1) show ?thesis
    by (simp add: h)
qed

text \<open>
  Why the other semaphores matter: a client that is opened again and fails to map the memory closes the
  semaphores of its last session a second time, and takes them from whoever has obtained them since.
\<close>

lemma shm_failed_open_closes:
  assumes "sm_fd s = - 1" and "sm_address s = None" and "\<not> sm_server s"
    and "shm_open_fd K s w = (fd, w1)" and "fd \<noteq> - 1" and "os_mmap K TOTAL_SIZE fd w1 = (None, w2)"
  shows "\<exists>h'. shm_open K (s, w) = (False, h') \<and>
    held (snd h') = held w - ptr_entry Semaphore (sm_reader s) - ptr_entry Semaphore (sm_writer s)"
  using assms shm_open_fd_held [OF assms(4)] mmap_held [OF assms(6)]
  by (simp add: shm_open_def shm_close_def shm_keeps Let_def)

lemma shm_write_balanced:
  assumes "shm_write K obj h = Inr (b, h')" and "shm_balance held D h"
  shows "shm_balance held D h'"
  by (rule yieldsD [where P = "\<lambda>x. shm_balance held D (snd x)", OF assms(1), unfolded snd_conv],
      insert assms(2))
    (auto simp: shm_balance_def shm_write_def get_timestamp_def yields_steps shm_keeps map_write_def map_read_def Let_def
      dest!: shm_held split: prod.splits option.splits)

lemma shm_read_balanced:
  assumes "shm_read K h = Inr (r, h')" and "shm_balance held D h"
  shows "shm_balance held D h'"
  by (rule yieldsD [where P = "\<lambda>x. shm_balance held D (snd x)", OF assms(1), unfolded snd_conv],
      insert assms(2))
    (auto simp: shm_balance_def shm_read_def yields_steps shm_keeps map_write_def map_read_def Let_def dest!: shm_held
      split: prod.splits option.splits)

end

section \<open>The shared file\<close>

definition file_balance :: "('w \<Rightarrow> ledger) \<Rightarrow> ledger \<Rightarrow> shared_file \<times> 'w \<Rightarrow> bool" where
  "file_balance held D = (\<lambda>(s, w). no_semaphores D \<and>
     (case fs_handle (sf_file s) of
        None \<Rightarrow> held w = D
      | Some f \<Rightarrow> held w = D + {#Open_File f#} + ptr_entry Semaphore (sf_reader s) +
          ptr_entry Semaphore (sf_writer s)))"

context file_books
begin

lemmas file_held = clock_held sem_open_held realtime_held sem_wait_held sem_trywait_held
  sem_timedwait_held fopen_held fseek_held fwrite_held fread_held

lemmas file_keeps = sem_unlink_held sem_close_held sem_post_held remove_file_held fclose_held

text \<open>Only opening and closing a stream changes the books, and only they change its handle.\<close>

lemma fstream_sync_held:
  "fstream_sync K f w = (ok, f', w') \<Longrightarrow> held w' = held w \<and> fs_handle f' = fs_handle f"
  by (auto simp: fstream_sync_def dest!: file_held split: option.splits if_splits prod.splits)

lemma fstream_held:
  "fstream_seek K pos f w = (f', w') \<Longrightarrow> held w' = held w \<and> fs_handle f' = fs_handle f"
  "fstream_write K bs f w = (f', w') \<Longrightarrow> held w' = held w \<and> fs_handle f' = fs_handle f"
  "fstream_flush K f w = (f', w') \<Longrightarrow> held w' = held w \<and> fs_handle f' = fs_handle f"
  "fstream_read K n f w = (bs', f', w') \<Longrightarrow> held w' = held w \<and> fs_handle f' = fs_handle f"
  by (auto simp: fstream_seek_def fstream_write_def fstream_flush_def fstream_read_def Let_def
      dest!: file_held fstream_sync_held split: option.splits if_splits prod.splits bool.splits)

lemma fstream_fopen_held:
  "fstream_fopen K path trunc w = (f, w') \<Longrightarrow> held w' = held w + ptr_entry Open_File (fs_handle f)"
  by (auto simp: fstream_fopen_def dest!: file_held split: prod.splits)

lemma fstream_fclose_held:
  "fstream_fclose K f w = (f', w') \<Longrightarrow>
     held w' = held w - ptr_entry Open_File (fs_handle f) \<and> fs_handle f' = None"
  by (auto simp: fstream_fclose_def file_keeps dest!: fstream_sync_held
      split: option.splits prod.splits)

lemma fstream_clear_handle: "fs_handle (fstream_clear f) = fs_handle f"
  by simp

lemma file_balanced:
  assumes "file_balance held D h"
  shows "file_open K h = (b, h') \<Longrightarrow> file_balance held D h'"
    and "file_close K h = (b, h') \<Longrightarrow> file_balance held D h'"
    and "file_await_data K h = (b, h') \<Longrightarrow> file_balance held D h'"
    and "file_has_data K h = (b, h') \<Longrightarrow> file_balance held D h'"
    and "\<not> file_is_open h \<Longrightarrow> held (snd h) = D"
  using assms
  by (auto simp: file_balance_def file_defs file_keeps fstream_is_open_def Let_def
      dest!: fstream_fopen_held fstream_fclose_held file_held
      split: prod.splits if_splits option.splits)

lemma file_write_balanced:
  assumes "file_write K obj h = Inr (b, h')" and "file_balance held D h"
  shows "file_balance held D h'"
  by (rule yieldsD [where P = "\<lambda>x. file_balance held D (snd x)", OF assms(1), unfolded snd_conv],
      insert assms(2))
    (auto simp: file_balance_def file_write_def get_timestamp_def yields_steps file_keeps fstream_is_open_def Let_def
      dest!: file_held fstream_held split: prod.splits option.splits)

lemma file_read_balanced:
  assumes "file_read K h = Inr (r, h')" and "file_balance held D h"
  shows "file_balance held D h'"
  by (rule yieldsD [where P = "\<lambda>x. file_balance held D (snd x)", OF assms(1), unfolded snd_conv],
      insert assms(2))
    (auto simp: file_balance_def file_read_def yields_steps file_keeps fstream_is_open_def Let_def dest!: file_held fstream_held
      split: prod.splits option.splits)

end

section \<open>D-Bus\<close>

text \<open>Besides the connection: every message that is made or received is released on every path.\<close>

definition dbus_balance :: "('w \<Rightarrow> ledger) \<Rightarrow> ledger \<Rightarrow> dbus \<times> 'w \<Rightarrow> bool" where
  "dbus_balance held D = (\<lambda>(s, w). held w = D + ptr_entry Connection (db_con s))"

context dbus_books
begin

lemmas dbus_held = clock_held bus_get_held request_name_held read_write_held new_call_held
  append_held dl_send_held pop_held

lemmas dbus_keeps = release_name_held flush_held unref_connection_held unref_held

lemma dbus_send_call_held:
  "dbus_send_call K c ident ts bs msg w = (b, w') \<Longrightarrow> held w' = held w - {#Message#}"
  by (auto simp: dbus_send_call_def append_then_def dbus_keeps Let_def dest!: dbus_held
      split: prod.splits if_splits)

lemma dbus_balanced:
  assumes "dbus_balance held D h"
  shows "dbus_open K h = (b, h') \<Longrightarrow> dbus_balance held D h'"
    and "dbus_close K h = (b, h') \<Longrightarrow> dbus_balance held D h'"
    and "dbus_await_data K h = (b, h') \<Longrightarrow> dbus_balance held D h'"
    and "dbus_has_data K h = (b, h') \<Longrightarrow> dbus_balance held D h'"
    and "\<not> dbus_is_open h \<Longrightarrow> held (snd h) = D"
  using assms
  by (auto simp: dbus_balance_def dbus_defs dbus_keeps Let_def dest!: dbus_held
      split: prod.splits if_splits option.splits)

lemma dbus_write_balanced:
  assumes "dbus_write K obj h = Inr (b, h')" and "dbus_balance held D h"
  shows "dbus_balance held D h'"
  by (rule yieldsD [where P = "\<lambda>x. dbus_balance held D (snd x)", OF assms(1), unfolded snd_conv],
      insert assms(2))
    (auto simp: dbus_balance_def dbus_write_def get_timestamp_def yields_steps dbus_keeps Let_def
      dest!: dbus_held dbus_send_call_held split: prod.splits option.splits)

lemma dbus_read_balanced:
  assumes "dbus_read K h = Inr (r, h')" and "dbus_balance held D h"
  shows "dbus_balance held D h'"
  by (rule yieldsD [where P = "\<lambda>x. dbus_balance held D (snd x)", OF assms(1), unfolded snd_conv],
      insert assms(2))
    (auto simp: dbus_balance_def dbus_read_def yields_steps dbus_keeps Let_def dest!: dbus_held
      split: prod.splits option.splits)

end

end
