(* ===== verification/Program_Resources.thy ===== *)
theory Program_Resources
  imports Resources Benchmark_Frames
begin

text \<open>
  The books of the whole program: whatever handler \<open>main\<close> creates and whatever it does with it, on
  every way back from \<open>main\<close> the process owns exactly what it owned before.
\<close>

section \<open>The books of a handler\<close>

definition handler_balance :: "('w \<Rightarrow> ledger) \<Rightarrow> ledger \<Rightarrow> handler \<times> 'w \<Rightarrow> bool" where
  "handler_balance held D = (\<lambda>(h, w). no_semaphores D \<and>
     (case h of
        DBus_Handler s \<Rightarrow> dbus_balance held D (s, w)
      | Fifo_Handler s \<Rightarrow> fifo_balance held D (s, w)
      | Queue_Handler s \<Rightarrow> mq_balance held D (s, w)
      | Datagram_Handler s \<Rightarrow> dgram_balance held D (s, w)
      | Stream_Handler s \<Rightarrow> stream_balance held D (s, w)
      | Memory_Handler s \<Rightarrow> shm_balance held D (s, w)
      | File_Handler s \<Rightarrow> file_balance held D (s, w)))"

lemmas destroy_defs = dbus_destroy_def fifo_destroy_def mq_destroy_def dgram_destroy_def
  stream_destroy_def shm_destroy_def file_destroy_def

lemmas is_open_defs = dbus_is_open_def fifo_is_open_def mq_is_open_def dgram_is_open_def
  stream_is_open_def shm_is_open_def file_is_open_def

lemmas close_defs = dbus_close_def fifo_close_def mq_close_def dgram_close_def stream_close_def
  shm_close_def file_close_def

locale process_books =
  bus: dbus_books "po_dbus K" held + pipe: fifo_books "po_fifo K" held +
  queue: mq_books "po_mq K" held + sock: sock_books "po_sock K" held +
  mem: shm_books "po_shm K" held + stored: file_books "po_file K" held +
  bench: base_books "po_bench K" held
  for K :: "('w, 'm, 'i) program_os" and held :: "'w \<Rightarrow> ledger" +
  assumes sleep_for_held: "held (os_sleep_for (po_bench K) d w) = held w"
    and sleep_until_held: "held (os_sleep_until (po_bench K) ts w) = held w"
    and rand_held: "os_rand (po_bench K) w = (x, w') \<Longrightarrow> held w' = held w"
begin

lemmas class_balanced = bus.dbus_balanced bus.dbus_write_balanced bus.dbus_read_balanced
  pipe.fifo_balanced pipe.fifo_write_balanced pipe.fifo_read_balanced
  queue.mq_balanced queue.mq_write_balanced queue.mq_read_balanced
  sock.dgram_balanced sock.dgram_write_balanced sock.dgram_read_balanced
  sock.stream_balanced sock.stream_await_balanced sock.stream_write_balanced sock.stream_read_balanced
  mem.shm_open_balanced mem.shm_balanced mem.shm_write_balanced mem.shm_read_balanced
  stored.file_balanced stored.file_write_balanced stored.file_read_balanced

lemmas closed_balances = bus.dbus_balanced(5) pipe.fifo_balanced(5) queue.mq_balanced(5)
  sock.dgram_balanced(5) sock.stream_balanced(4) mem.shm_balanced(4) stored.file_balanced(5)

lemma handler_methods_balanced:
  assumes "handler_balance held D h"
  shows "handler_open K h = (b, h') \<Longrightarrow> handler_balance held D h'"
    and "handler_close K h = (b, h') \<Longrightarrow> handler_balance held D h'"
    and "handler_await_data K h = (b, h') \<Longrightarrow> handler_balance held D h'"
    and "handler_write K obj h = Inr (b, h') \<Longrightarrow> handler_balance held D h'"
    and "handler_read K h = Some (Inr (r, h')) \<Longrightarrow> handler_balance held D h'"
  using assms
  by (cases h rule: handler_pair_cases;
      auto simp: handler_balance_def handler_methods via_eq via_res_eq dest: class_balanced)+

lemma reconnect_balanced:
  "handler_balance held D h \<Longrightarrow> handler_balance held D (reconnect K h)"
  by (cases h rule: handler_pair_cases)
    (auto simp: reconnect_def handler_balance_def via_def dest: sock.stream_accept_balanced
      split: prod.splits)

text \<open>A handler that is not open holds nothing, and the destructor closes one that is open.\<close>

lemma handler_closed_balance:
  "\<lbrakk>handler_balance held D h; \<not> handler_is_open h\<rbrakk> \<Longrightarrow> held (snd h) = D"
  by (cases h rule: handler_pair_cases)
    (auto simp: handler_balance_def handler_is_open_def dest: closed_balances)

lemma handler_destroy_releases:
  assumes "handler_balance held D h"
  shows "held (snd (handler_destroy K h)) = D"
proof (cases "handler_is_open h")
  case False
  with handler_closed_balance [OF assms] handler_destroy_closed [of "fst h" "snd h" K] show ?thesis
    by simp
next
  case True
  then have "handler_destroy K h = snd (handler_close K h)"
    by (cases h rule: handler_pair_cases)
      (auto simp: handler_destroy_def handler_close_def handler_is_open_def via_def destroy_defs
        is_open_defs split: prod.splits)
  moreover obtain b h' where closed: "handler_close K h = (b, h')"
    by (rule prod.exhaust)
  moreover have "\<not> handler_is_open h'"
    using closed by (cases h rule: handler_pair_cases)
      (auto simp: handler_close_def handler_is_open_def via_def is_open_defs close_defs
        fstream_is_open_def Let_def dest!: stored.fstream_fclose_held
        split: prod.splits if_splits option.splits)
  ultimately show ?thesis
    using handler_methods_balanced(2) [OF assms closed] handler_closed_balance by simp
qed

lemma handler_balance_world:
  "handler_balance held D (h, w) \<Longrightarrow> held w' = held w \<Longrightarrow> handler_balance held D (h, w')"
  by (cases h) (auto simp: handler_balance_def dbus_balance_def fifo_balance_def mq_balance_def
      dgram_balance_def stream_balance_def shm_balance_def file_balance_def split: option.splits)

end

sublocale process_books \<subseteq> frame: handler_frame "handler_iface K" "po_bench K" "handler_balance held D"
  for D
  by unfold_locales
    (auto dest: handler_methods_balanced bench.clock_held rand_held
      elim!: handler_balance_world simp: sleep_for_held sleep_until_held)

section \<open>The books of the program\<close>

locale program_books = process_books "co_program E" held
  for E :: "('w, 'm, 'i) command_os" and held +
  assumes stop_held: "co_stop E w = (b, w') \<Longrightarrow> held w' = held w"
    and contents_held: "co_contents E path w = (content, w') \<Longrightarrow> held w' = held w"
begin

lemma server_round_balanced:
  assumes "server_round (co_program E) more_data h = Some (Inr (more', new, h'))"
    and "handler_balance held D h"
  shows "handler_balance held D h'"
proof -
  obtain ready h1 where await:
    "(if more_data then (True, h) else handler_await_data (co_program E) h) = (ready, h1)"
    by (rule prod.exhaust)
  then have b1: "handler_balance held D h1"
    using assms(2) handler_methods_balanced(3) [OF assms(2)] by (simp split: if_splits)
  show ?thesis
  proof (cases ready)
    case False
    with assms(1) b1 show ?thesis
      by (simp add: server_round_def await)
  next
    case True
    with assms(1) obtain r h2 where read: "handler_read (co_program E) h1 = Some (Inr (r, h2))"
      by (auto simp: server_round_def await run_then_Inr)
    from handler_methods_balanced(5) [OF b1 read] have "handler_balance held D h2" .
    with assms(1) True show ?thesis
      by (auto simp: server_round_def await read intro: reconnect_balanced split: sum.splits if_splits)
  qed
qed

lemma run_server_balanced:
  assumes "run_server E more_data seen h = Some (Inr (log', h'))" and "handler_balance held D h"
  shows "handler_balance held D h'"
  by (rule run_server.raw_induct
      [where P = "\<lambda>F more seen h r. F = E \<longrightarrow> handler_balance held D h \<longrightarrow>
        yields r (\<lambda>x. handler_balance held D (snd x))",
       OF _ assms(1), rule_format, OF _ refl assms(2), unfolded pred_sum_inject snd_conv])
    (auto simp: Let_def split: if_splits prod.splits option.splits sum.splits,
      (blast dest: stop_held server_round_balanced handler_balance_world)+)

lemma run_client_balanced:
  assumes "run_client E h = Some (Inr h')" and "handler_balance held D h"
  shows "handler_balance held D h'"
proof (rule run_client.raw_induct
    [where P = "\<lambda>F h r. F = E \<longrightarrow> handler_balance held D h \<longrightarrow> yields r (handler_balance held D)",
     OF _ assms(1), rule_format, OF _ refl assms(2), unfolded pred_sum_inject], goal_cases)
  case (1 loop F h r)
  let ?B = "po_bench (co_program E)"
  obtain s w stop w1 ts w2 r1 w3 r2 w4 r3 w5
    where h: "h = (s, w)" and flag: "co_stop E w = (stop, w1)"
      and ts: "get_timestamp ?B w1 = (ts, w2)" and rand: "os_rand ?B w2 = (r1, w3)"
      "os_rand ?B w3 = (r2, w4)" "os_rand ?B w4 = (r3, w5)"
    by (metis surj_pair)
  have "held w1 = held w"
    using stop_held [OF flag] .
  with 1(4) have b1: "handler_balance held D (s, w1)"
    by (auto simp: h elim: handler_balance_world)
  have "held w5 = held w1"
    using ts [unfolded get_timestamp_def, THEN bench.clock_held] rand [THEN rand_held] by simp
  with b1 have b5: "handler_balance held D (s, w5)"
    by (rule handler_balance_world)
  define data where "data = JavaSymbol \<lparr>js_address = or (push_bit 32 (word_of_int r1)) (word_of_int r2),
    js_length = word_of_int r3, js_symbol = ''test123''\<rparr>"
  note step = 1(2) [unfolded 1(3) h flag ts rand Let_def prod.case, folded data_def]
  show ?case
  proof (cases "stop \<or> \<not> handler_is_open (s, w1)")
    case True
    with step b1 show ?thesis by auto
  next
    case False
    show ?thesis
    proof (cases "handler_write (co_program E) data (s, w5)")
      case (Inl f)
      with step False show ?thesis by auto
    next
      case (Inr x)
      obtain res s6 w6 where x: "x = (res, s6, w6)" by (metis surj_pair)
      obtain r4 w7 where rand4: "os_rand ?B w6 = (r4, w7)" by fastforce
      have "handler_balance held D (s6, w6)"
        using handler_methods_balanced(4) [OF b5] Inr x by blast
      then have "handler_balance held D (s6, os_sleep_for ?B d w7)" for d
        by (rule handler_balance_world) (simp add: sleep_for_held rand_held [OF rand4])
      with 1(1) [OF _ refl] step False show ?thesis
        by (simp add: Inr x rand4)
    qed
  qed
qed

lemma run_kind_balanced:
  assumes run: "run_kind E argv kind mode h = Some (Inr (code, report, h'))"
    and h: "handler_balance held D h"
  shows "handler_balance held D h'"
proof (cases "kind = ''normal''")
  case True
  obtain ok h1 where opened: "handler_open (co_program E) h = (ok, h1)" by (rule prod.exhaust)
  have h1: "handler_balance held D h1"
    using handler_methods_balanced(1) [OF h opened] .
  have server: "handler_balance held D (snd (handler_close (co_program E) h2))"
    if "run_server E False [] h1 = Some (Inr (l, h2))" for l h2
    using frame.cleanup_frame [OF run_server_balanced [OF that h1]] by simp
  have client: "handler_balance held D (snd (handler_close (co_program E) h2))"
    if "run_client E h1 = Some (Inr h2)" for h2
    using frame.cleanup_frame [OF run_client_balanced [OF that h1]] by simp
  from run True h1 show ?thesis
    by (cases "run_server E False [] h1")
      (auto simp: run_kind_def opened run_then_Inr Let_def map_sum_def server client
        split: if_splits option.splits sum.splits)
next
  case False
  obtain s w where pair: "h = (s, w)" by (cases h)
  obtain content w1 where read: "co_contents E (argv ! 4) w = (content, w1)" by (rule prod.exhaust)
  have b1: "handler_balance held D (s, w1)"
    using h contents_held [OF read] unfolding pair by (rule handler_balance_world)
  have real_world: "handler_balance held D h'"
    if "run_real_world E (po_bench (co_program E)) (handler_iface (co_program E)) (argv ! 4) n mode
      (s, w) = Some (Inr (code, report, h'))" for n
    by (rule frame.run_real_world_frame [OF that read b1])
  from run False h show ?thesis
    by (auto simp: run_kind_def run_then_Inr Let_def pair
        dest: frame.run_latency_frame frame.run_throughput_frame frame.run_execution_frame
        intro: real_world split: if_splits)
qed

lemma created_balance:
  assumes "create_handler type path mode = Some h" and "no_semaphores (held w)"
  shows "handler_balance held (held w) (h, w)"
  using assms
  by (auto simp: create_handler_def handler_balance_def dbus_new_def dbus_balance_def fifo_new_def
      fifo_balance_def mq_new_def mq_balance_def dgram_new_unix_def dgram_new_inet_def
      dgram_balance_def stream_new_unix_def stream_new_inet_def stream_balance_def shm_new_def
      shm_balance_def file_new_def file_balance_def fstream_closed_def split: if_splits)

lemma main_balanced:
  assumes run: "main_program E argv w = Some (Inr (code, report, w'))"
    and "no_semaphores (held w)"
  shows "held w' = held w"
  using run created_balance [OF _ assms(2)] handler_destroy_releases run_kind_balanced
  by (fastforce simp: main_program_def run_then_Inr Let_def split: if_splits option.splits)

end


section \<open>A system that keeps books\<close>

text \<open>
  A world that is nothing but its ledger: every call that acquires something succeeds, there is never
  any data, and the program is stopped at once.
\<close>

definition counting_dbus :: "(ledger, unit, unit) dbus_lib" where
  "counting_dbus = \<lparr>os_clock = Pair 0, os_poll = (\<lambda>_ _. Pair 0),
     dl_bus_get = (\<lambda>w. (Some 1, add_mset (Connection 1) w)),
     dl_request_name = (\<lambda>_ _. Pair 1), dl_release_name = (\<lambda>_ _ w. w), dl_flush = (\<lambda>_ w. w),
     dl_unref_connection = (\<lambda>c w. w - {#Connection c#}), dl_read_write = (\<lambda>_ _. Pair True),
     dl_dispatch_status = (\<lambda>_ _. DBUS_DISPATCH_COMPLETE),
     dl_new_method_call = (\<lambda>_ _ _ _ w. (Some (), add_mset Message w)), dl_set_no_reply = (\<lambda>_ m. m),
     dl_append_uint32 = (\<lambda>_ m w. (True, m, w)), dl_append_int64 = (\<lambda>_ m w. (True, m, w)),
     dl_open_array = (\<lambda>m w. (True, m, w)), dl_append_bytes = (\<lambda>_ m w. (True, m, w)),
     dl_close_array = (\<lambda>m w. (True, m, w)), dl_send = (\<lambda>_ _. Pair True),
     dl_unref = (\<lambda>_ w. w - {#Message#}), dl_pop_message = (\<lambda>_. Pair None),
     dl_is_method_call = (\<lambda>_ _ _. False), dl_get_path = (\<lambda>_. []), dl_iter_init = (\<lambda>_. None),
     dl_iter_next = (\<lambda>_. None), dl_arg_type = (\<lambda>_. Other_Dbus_Type),
     dl_element_type = (\<lambda>_. Other_Dbus_Type), dl_get_uint32 = (\<lambda>_. 0), dl_get_int64 = (\<lambda>_. 0),
     dl_get_bytes = (\<lambda>_. [])\<rparr>"

definition counting_fifo :: "ledger fifo_os" where
  "counting_fifo = \<lparr>os_clock = Pair 0, os_poll = (\<lambda>_ _. Pair 0), os_unlink = (\<lambda>_ w. w),
     os_mkfifo = (\<lambda>_ _. Pair 0), os_open = (\<lambda>_ _ w. (3, add_mset (Descriptor 3) w)),
     os_close = (\<lambda>fd w. w - {#Descriptor fd#}), os_write = (\<lambda>_ bs. Pair (int (length bs))),
     os_read = (\<lambda>_ _. Pair (Failed EAGAIN))\<rparr>"

definition counting_mq :: "ledger mq_os" where
  "counting_mq = \<lparr>os_clock = Pair 0, os_poll = (\<lambda>_ _. Pair 0), os_mq_unlink = (\<lambda>_ w. w),
     os_mq_open = (\<lambda>_ _ _ _ w. (3, add_mset (Descriptor 3) w)),
     os_mq_close = (\<lambda>fd w. w - {#Descriptor fd#}), os_mq_send = (\<lambda>_ _ _. Pair 0),
     os_mq_receive = (\<lambda>_ _. Pair (Failed EAGAIN))\<rparr>"

definition counting_sock :: "ledger sock_os" where
  "counting_sock = \<lparr>os_clock = Pair 0, os_poll = (\<lambda>_ _. Pair 0), os_remove = (\<lambda>_ w. w),
     os_socket = (\<lambda>_ _ _ w. (3, add_mset (Descriptor 3) w)), os_set_reuseaddr = (\<lambda>_ _ w. w),
     os_bind = (\<lambda>_ _. Pair 0), os_listen = (\<lambda>_ _. Pair 0), os_connect = (\<lambda>_ _. Pair 0),
     os_accept4 = (\<lambda>_ w. (4, add_mset (Descriptor 4) w)),
     os_sock_close = (\<lambda>fd w. w - {#Descriptor fd#}), os_send = (\<lambda>_ bs. Pair (int (length bs))),
     os_recv = (\<lambda>_ _. Pair (Failed EAGAIN)), os_sendto = (\<lambda>_ bs _. Pair (int (length bs))),
     os_recvfrom = (\<lambda>_ _. Pair (Failed EAGAIN)), os_inet_pton = (\<lambda>_. (1, 0))\<rparr>"

definition counting_shm :: "ledger shm_os" where
  "counting_shm = \<lparr>os_clock = Pair 0, os_poll = (\<lambda>_ _. Pair 0), os_sem_unlink = (\<lambda>_ w. w),
     os_sem_open = (\<lambda>_ _ v w. (Some v, add_mset (Semaphore v) w)),
     os_sem_close = (\<lambda>p w. w - ptr_entry Semaphore p), os_realtime = Pair None,
     os_sem_wait = (\<lambda>_. Pair None), os_sem_trywait = (\<lambda>_. Pair (Some EAGAIN)),
     os_sem_timedwait = (\<lambda>_ _. Pair (Some ETIMEDOUT)), os_sem_post = (\<lambda>_ w. w),
     os_sem_getvalue = (\<lambda>_ _. Some 0), os_file_remove = (\<lambda>_ w. w),
     os_file_open = (\<lambda>_ _ w. (3, add_mset (Descriptor 3) w)), os_shm_unlink = (\<lambda>_ w. w),
     os_shm_open = (\<lambda>_ _ w. (3, add_mset (Descriptor 3) w)), os_ftruncate = (\<lambda>_ _. Pair 0),
     os_mmap = (\<lambda>_ _ w. (Some 1, add_mset (Mapping 1) w)),
     os_munmap = (\<lambda>p _ w. w - ptr_entry Mapping p), os_fd_close = (\<lambda>fd w. w - {#Descriptor fd#}),
     os_mem_read = (\<lambda>_ _ n _. replicate n 0), os_mem_write = (\<lambda>_ _ _ w. w)\<rparr>"

definition counting_file :: "ledger file_os" where
  "counting_file = \<lparr>os_clock = Pair 0, os_poll = (\<lambda>_ _. Pair 0), os_sem_unlink = (\<lambda>_ w. w),
     os_sem_open = (\<lambda>_ _ v w. (Some v, add_mset (Semaphore v) w)),
     os_sem_close = (\<lambda>p w. w - ptr_entry Semaphore p), os_realtime = Pair None,
     os_sem_wait = (\<lambda>_. Pair None), os_sem_trywait = (\<lambda>_. Pair (Some EAGAIN)),
     os_sem_timedwait = (\<lambda>_ _. Pair (Some ETIMEDOUT)), os_sem_post = (\<lambda>_ w. w),
     os_sem_getvalue = (\<lambda>_ _. Some 0), os_remove_file = (\<lambda>_ w. w),
     os_fopen = (\<lambda>_ _ w. (Some 1, add_mset (Open_File 1) w)),
     os_fclose = (\<lambda>f w. w - {#Open_File f#}), os_fseek = (\<lambda>_ _. Pair True),
     os_fwrite = (\<lambda>_ _ _. Pair True), os_fread = (\<lambda>_ _ _. Pair (Some []))\<rparr>"

definition counting_program :: "(ledger, unit, unit) command_os" where
  "counting_program = \<lparr>co_program = \<lparr>po_dbus = counting_dbus, po_fifo = counting_fifo,
       po_mq = counting_mq, po_sock = counting_sock, po_shm = counting_shm, po_file = counting_file,
       po_bench = \<lparr>os_clock = Pair 0, os_poll = (\<lambda>_ _. Pair 0), os_sleep_for = (\<lambda>_ w. w),
         os_sleep_until = (\<lambda>_ w. w), os_rand = Pair 0\<rparr>\<rparr>,
     co_stop = Pair True, co_contents = (\<lambda>_. Pair [])\<rparr>"

lemmas counting_defs = counting_program_def counting_dbus_def counting_fifo_def counting_mq_def
  counting_sock_def counting_shm_def counting_file_def

interpretation counting: program_books counting_program "\<lambda>w. w"
  by unfold_locales (auto simp: counting_defs)

section \<open>Properties\<close>

text \<open>C11. Nothing leaks: whatever the arguments, the handler, the benchmark and the answers of the
  system calls - an \<open>open\<close> that fails half way, a write or a read that ends in an error included -
  when \<open>main\<close> returns, every descriptor, connection, message, stream, mapping and semaphore that it
  acquired has been released, and nothing else has.\<close>

theorem main_releases:
  assumes "program_books E held" and "no_semaphores (held w)"
    and "main_program E argv w = Some (Inr (code, report, w'))"
  shows "held w' = held w"
  by (rule program_books.main_balanced [OF assms(1,3,2)])

definition standard_streams :: ledger where
  "standard_streams = {#Descriptor 0, Descriptor 1, Descriptor 2#}"

theorem main_releases_witness:
  "\<exists>w'. main_program counting_program [''ipc'', ''normal'', ''memory'', ''reader''] standard_streams =
      Some (Inr (EXIT_SUCCESS, None, w')) \<and> w' = standard_streams"
proof -
  obtain w' where run:
    "main_program counting_program [''ipc'', ''normal'', ''memory'', ''reader''] standard_streams =
      Some (Inr (EXIT_SUCCESS, None, w'))"
    by (simp add: main_program_def run_kind_def create_handler_def handler_open_def shm_new_def
        shm_open_def shm_open_fd_def shm_open_semaphores_def via_def run_server.simps
        handler_close_def counting_program_def counting_shm_def)
  have "no_semaphores standard_streams"
    by (simp add: no_semaphores_def standard_streams_def)
  from main_releases [OF counting.program_books_axioms this run] run show ?thesis
    by blast
qed

end
