(* ===== verification/Spec2Isabelle.thy ===== *)
theory Spec2Isabelle
  imports Data_Objects Comm_Interface Fifo Message_Queue Datagram_Socket Stream_Socket
    Channel Fifo_Channel Message_Queue_Channel Datagram_Channel Stream_Channel
    Shared_Memory Shared_Memory_Channel Benchmark_Interface Latency_Benchmark Throughput_Benchmark
    Execution_Benchmark Realworld_Benchmark Benchmark_Channels Benchmark_Runs
    Ring_Protocol Statistics Semaphores File_Stream Shared_File Shared_File_Channel Text_Numbers
    DBus DBus_Channel Handlers Trace Printing Command_Line Normal_Server Normal_Session Stream_Server
    Program_Runs Benchmark_Sessions Ring_Refinement File_Refinement Benchmark_Frames Benchmark_Contract Resources Program_Resources
begin

text \<open>
  A verification library for ipc-performance, a C++ program that measures mechanisms of
  inter-process communication.

  \<^bold>\<open>The program.\<close>  A writer process sends data objects to a reader process, each with a header that
  numbers and time-stamps it.  How they travel is hidden behind the abstract class
  \<open>ICommunicationHandler\<close> (include/handler/communication_handler.hpp) with seven implementations:
  named pipe, POSIX message queue, datagram socket, stream socket (the sockets for Unix paths and for
  internet addresses), shared memory, shared file and D-Bus.  Four benchmarks (include/benchmark,
  src/benchmark) run on any handler, as client or server: latency, throughput, execution time and the
  replay of a recorded trace.  src/main.cpp chooses the handler and the benchmark by the command line,
  or runs the normal mode, in which a client writes random symbols and a server prints what it reads.

  \<^bold>\<open>Modelling.\<close>  A class is a record of its members, a method a function of the record and the world, in
  the order of the code.  Machine integers keep their width (\<open>u16\<close>, \<open>u32\<close>, \<open>u64\<close>).  What leaves the
  defined behaviour of the language is a value: a method returns \<open>fault + 'a\<close>, the fault being a failed
  assertion, an access out of bounds or an exception that nothing catches; the errors that the program
  itself reports are \<open>comm_error\<close>s.  A loop that may not end is a \<open>partial_function\<close> whose value is
  \<open>None\<close> if it does not, so that returning is always proved and never assumed; there is no fuel, and
  the measures of the proofs are the messages left together with how often the transport can still
  make a read wait or find nothing (\<open>stall\<close>, \<open>delay\<close>, \<open>effort\<close>).  Every call that leaves the program - system calls, libdbus, the
  clock, random numbers - is a field of a record over a type \<open>'w\<close> of worlds, which is a parameter.

  \<^bold>\<open>Theories: data.\<close>
  \<^item> IPC_Prelude: integers, byte order, faults, bounds-checked access to buffers, and the collections
    \<open>res_simps\<close> and \<open>byte_simps\<close>.
  \<^item> Data_Objects (include/object, src/object): \<open>DataType\<close>, \<open>DataHeader\<close>, the three objects, and their
    serialization and deserialization.  Lemmas: both are inverse to each other, stay within their
    buffers, and agree with the reference encodings \<open>header_bytes\<close> and \<open>object_bytes\<close>.
  \<^item> Text_Numbers: \<open>std::to_string\<close> and the \<open>std::stoul\<close> family, with their round trips.
  \<^item> Printing: the stream output operators and \<open>print_array\<close>, on a stream with text, base, fill character
    and width.
  \<^item> Trace: the parser of recorded traces in \<open>run_real_world\<close>, and which lines it accepts.
  \<^item> Statistics (include/benchmark/stats.hpp): quantiles, whiskers, variance and standard deviation, over the
    reals.

  \<^bold>\<open>Theories: handlers.\<close>  Comm_Interface holds the interface as a record of methods, the helper functions
  of src/utility.cpp, the lemmas on framing that the handlers share, and the locale \<open>comm_handler\<close>, the
  contract of the interface for every behaviour of the system calls.  One theory for each handler
  (Fifo, Message_Queue, Datagram_Socket, Stream_Socket, Shared_Memory, Shared_File, DBus) translates
  all its methods and interprets that locale; Sockets, Semaphores and File_Stream hold what two of
  them share, the last one the part of \<open>std::fstream\<close> that is used.  Handlers joins them: a datatype of
  all handlers, the virtual methods by case distinction, \<open>create_handler\<close>, and the contract for
  whatever it creates.

  \<^bold>\<open>Theories: transports.\<close>  Channel is the end-to-end view: a pair of handlers, runs that interleave writes
  and reads, and the locales \<open>message_sender\<close>, \<open>lossy_channel\<close>, \<open>reliable_sender\<close> and \<open>message_channel\<close>
  with the theorems on runs - nothing is invented, altered, duplicated or reordered; nothing is lost; a
  finite number of reads drains the channel - and \<open>unordered_channel\<close>, where nothing is invented or altered.
  For each handler a theory with the suffix \<open>_Channel\<close> states in a locale what the operating
  system documents of the mechanism (\<open>pipe_os\<close>, \<open>mqueue_os\<close>, \<open>reliable_dgram_os\<close> for Unix and
  \<open>inet_dgram_os\<close> for internet datagrams, \<open>stream_os\<close>, \<open>ring_os\<close>,
  \<open>file_ring_os\<close>, \<open>dbus_bus\<close>, on which other messages may arrive during any call), derives the channel's laws from it and the code (\<open>sublocale\<close>), gives an
  executable reference kernel that satisfies the locale, and states the properties of sessions and the
  exact result of a read of arbitrary, also malicious, bytes.  Stream_Channel shows that the two
  receive loops end although a connection may split and delay the bytes.  Ring_Protocol has both
  processes of the shared memory ring running at once, as a step relation whose copies are not atomic;
  its invariant gives mutual exclusion, order and progress.  Ring_Refinement and File_Refinement show that
  the calls of the shared memory and the shared file handler are sequences of its steps.

  \<^bold>\<open>Theories: benchmarks and program.\<close>  Benchmark_Interface has the calls and the waiting loop that the
  benchmarks share and the locales \<open>bench_handler\<close> (a handler under a benchmark) and \<open>message_source\<close> (a
  handler for which messages have arrived or are on their way, so that waiting may time out before the
  next one); Latency_Benchmark, Throughput_Benchmark, Execution_Benchmark and
  Realworld_Benchmark translate the four classes and prove their runs in these locales.
  Benchmark_Channels has the locales \<open>benched_channel\<close> and \<open>benched_pair\<close>, two handlers that a benchmark
  runs on, without and with the promise that nothing is lost, seen from whose reader there is a source
  of messages; their instances are the transports on which waiting reports exactly whether there are
  messages (\<open>polled_channel\<close>, \<open>polled_pair\<close>), stream sockets, whose bytes may be late, and D-Bus, on which
  waiting also reports messages for others.
  Benchmark_Runs states properties of single runs (among them that the throughput report is computed
  from what was sent and from the clock behind the last read), and Benchmark_Sessions those of a client's run followed by the server's, for all
  four benchmarks: every message is echoed, counted, answered with its execution time or replayed once.
  Benchmark_Contract has the abstract class \<open>IBenchmark\<close> as a record of methods, with one instance for
  each of the four, the session that main drives through it, and the contract \<open>benchmark_contract\<close>.
  Benchmark_Frames states in the locales \<open>call_frame\<close> and \<open>handler_frame\<close> that whatever the calls of a
  handler keep is kept by all loops of the benchmarks and of the program.  Command_Line translates
  src/main.cpp from the loops of the normal mode to \<open>main\<close>.  Normal_Server has the loop that prints:
  in the locale \<open>server_log\<close> each round prints a part of what is due, and it is interpreted for every
  source of messages and, in Stream_Server, for a stream socket whose clients come and go, some of them
  in the middle of a message; Normal_Session has the client's loop followed by the server's, on any two
  handlers that a benchmark can run on.  Program_Runs has the properties of \<open>main\<close>: which command lines are
  refused, that every client returns, what the servers report.

  \<^bold>\<open>Theories: resources.\<close>  Resources keeps a ledger, a multiset of what the operating system and libdbus
  have handed out and not taken back: descriptors, connections, messages, streams, mappings,
  semaphores.  Its locales state what each call adds and removes; from them follows for every method
  of every handler that the ledger holds what the members of the object name, which is the reason why
  each \<open>close()\<close> may give it back and gives back all of it.  Program_Resources lifts the balance through
  the frames to whole runs of \<open>main\<close>: a program that returns has released everything it acquired
  (\<open>main_releases\<close>).  The one case in which the code closes what is not its own, a shared memory
  client that is opened a second time and fails, is the lemma \<open>shm_failed_open_closes\<close>.

  \<^bold>\<open>Not modelled.\<close>
  \<^item> The operating system, libdbus and the standard library beyond what is named above: parameters with
    documented laws.  The alignment and padding of the structures is that of the target, as the code
    asserts it.
  \<^item> Console output other than the results: progress messages, \<open>perror\<close>, the clock times around a run.
    The reports hold the numbers, not their formatting.
  \<^item> \<open>double\<close>: the reports compute with rationals, the statistics with reals; rounding is not modelled.
  \<^item> Calls that do not return and signals.  A system call is a function that gives a value: a blocking
    call of a writer without a reader (\<open>write\<close> on a full pipe, \<open>mq_send\<close>, \<open>sem_wait\<close>) may in fact block for
    ever, and a \<open>send\<close> to a peer that has gone kills the process by \<open>SIGPIPE\<close>.  What is proved of a run -
    that its loops end, that it releases what it acquired - is meant for runs in which the calls return.
  \<^item> Format flags of output streams besides the base, which the program leaves at their defaults.
  \<^item> The threads of the normal mode are modelled by the flag \<open>stop\<close> that may be found set at any reading.
    The two processes are interleaved at calls in Channel; only the shared memory ring is also
    interleaved below.
  \<^item> Accessor methods of the classes are the selectors of the records.  The build files, the scripts and
    the recorded traces hold no program logic.
\<close>

end
